(* ===== verification/Prelude.thy ===== *)
theory Prelude
  imports Main "HOL-Library.Word"
begin

text \<open>
  What the components share: names for the Rust machine integers, the slice and iterator
  operations of the Rust standard library that the sources use (\<open>copy_from_slice\<close>,
  \<open>Iterator::position\<close>, \<open>VecDeque::remove\<close>, \<open>Iterator::max\<close>, \<open>u16::from_be_bytes\<close>,
  saturating and checked arithmetic), the fact collections the component proofs extend, and
  the generic lemmas about them.
\<close>

unbundle bit_operations_syntax

type_synonym u8 = "8 word"
type_synonym u16 = "16 word"
type_synonym u32 = "32 word"
type_synonym u64 = "64 word"

named_theorems wf_intros
named_theorems wf_simps
named_theorems codec_defs

section \<open>Slices and iterators\<close>

text \<open>\<open>buf[i..i + ys.len()].copy_from_slice(ys)\<close>; \<open>None\<close> is the out-of-range panic.\<close>

definition copy_into :: "'a list \<Rightarrow> nat \<Rightarrow> 'a list \<Rightarrow> 'a list option" where
  "copy_into xs i ys =
     (if i + length ys \<le> length xs
      then Some (take i xs @ ys @ drop (i + length ys) xs) else None)"

lemma copy_into_length: "copy_into xs i ys = Some zs \<Longrightarrow> length zs = length xs"
  by (auto simp: copy_into_def split: if_splits)

lemma two_bytes: "2 \<le> length xs \<Longrightarrow> [xs ! 0, xs ! 1] @ drop 2 xs = xs"
  by (cases xs; cases "tl xs") auto

lemma three_bytes: "3 \<le> length xs \<Longrightarrow> [xs ! 0, xs ! 1, xs ! 2] @ drop 3 xs = xs"
  by (cases xs; cases "tl xs"; cases "tl (tl xs)") auto

text \<open>\<open>iter().position(p)\<close>: the index of the first element that satisfies the predicate.\<close>

fun position :: "('a \<Rightarrow> bool) \<Rightarrow> 'a list \<Rightarrow> nat option" where
  "position P [] = None"
| "position P (x # xs) = (if P x then Some 0 else map_option Suc (position P xs))"

text \<open>\<open>VecDeque::remove(i)\<close> and \<open>Vec::remove(i)\<close> for an index in range.\<close>

definition remove_at :: "nat \<Rightarrow> 'a list \<Rightarrow> 'a list" where
  "remove_at i xs = take i xs @ drop (Suc i) xs"

lemma position_None: "position P xs = None \<longleftrightarrow> (\<forall>x \<in> set xs. \<not> P x)"
  by (induction xs) auto

lemma position_Some_split:
  "position P xs = Some i \<Longrightarrow>
     \<exists>us x vs. xs = us @ x # vs \<and> length us = i \<and> P x \<and> (\<forall>u \<in> set us. \<not> P u)"
proof (induction xs arbitrary: i)
  case Nil
  then show ?case by simp
next
  case (Cons y ys)
  show ?case
  proof (cases "P y")
    case True
    with Cons.prems have "i = 0" by simp
    with True show ?thesis by (intro exI [of _ "[]"] exI [of _ y] exI [of _ ys]) simp
  next
    case False
    with Cons.prems obtain j where j: "position P ys = Some j" and i: "i = Suc j"
      by auto
    from Cons.IH [OF j] obtain us x vs
      where "ys = us @ x # vs" "length us = j" "P x" "\<forall>u \<in> set us. \<not> P u" by blast
    with False i show ?thesis
      by (intro exI [of _ "y # us"] exI [of _ x] exI [of _ vs]) simp
  qed
qed

lemma position_append_hit:
  "\<forall>u \<in> set us. \<not> P u \<Longrightarrow> P x \<Longrightarrow> position P (us @ x # vs) = Some (length us)"
  by (induction us) auto

lemma remove_at_split [simp]: "remove_at (length us) (us @ x # vs) = us @ vs"
  by (simp add: remove_at_def)

lemma nth_split [simp]: "(us @ x # vs) ! length us = x"
  by simp

lemma find_Some_holds: "find P xs = Some x \<Longrightarrow> P x"
  by (induction xs) (auto split: if_splits)

lemma some_the: "\<not> Option.is_none x \<Longrightarrow> x = Some (the x)"
  by (cases x) auto

text \<open>\<open>Iterator::max\<close> over an iterator that may be empty.\<close>

fun iter_max :: "'a::linorder list \<Rightarrow> 'a option" where
  "iter_max [] = None"
| "iter_max (x # xs) = (case iter_max xs of None \<Rightarrow> Some x | Some y \<Rightarrow> Some (max x y))"

lemma iter_max_None [simp]: "iter_max xs = None \<longleftrightarrow> xs = []"
  by (cases xs) (auto split: option.splits)

lemma iter_max_Some: "iter_max xs = Some m \<Longrightarrow> m \<in> set xs \<and> (\<forall>x \<in> set xs. x \<le> m)"
proof (induction xs arbitrary: m)
  case Nil
  then show ?case by simp
next
  case (Cons x xs)
  then show ?case
    by (cases "iter_max xs") (auto simp: max_def split: if_splits)
qed

section \<open>Words and bytes\<close>

text \<open>\<open>u16::from_be_bytes([hi, lo])\<close> and \<open>u16::to_be_bytes\<close>.\<close>

definition u16_from_be_bytes :: "u8 \<Rightarrow> u8 \<Rightarrow> u16" where
  "u16_from_be_bytes hi lo = push_bit 8 (ucast hi) OR ucast lo"

definition u16_to_be_bytes :: "u16 \<Rightarrow> u8 list" where
  "u16_to_be_bytes w = [ucast (drop_bit 8 w), ucast w]"

lemma be_bytes_hi [simp]: "ucast (drop_bit 8 (u16_from_be_bytes hi lo)) = hi"
  unfolding u16_from_be_bytes_def
  by (rule bit_word_eqI) (auto simp: bit_simps dest: bit_imp_le_length)

lemma be_bytes_lo [simp]: "ucast (u16_from_be_bytes hi lo) = lo"
  unfolding u16_from_be_bytes_def
  by (rule bit_word_eqI) (auto simp: bit_simps)

lemma u16_to_from_be_bytes: "u16_to_be_bytes (u16_from_be_bytes hi lo) = [hi, lo]"
  by (simp add: u16_to_be_bytes_def)

lemma u16_from_to_be_bytes:
  fixes w :: u16
  shows "u16_from_be_bytes (ucast (drop_bit 8 w)) (ucast w) = w"
  unfolding u16_from_be_bytes_def
proof (rule bit_word_eqI)
  fix n assume "n < LENGTH(16)"
  then show "bit (push_bit 8 (ucast (ucast (drop_bit 8 w) :: u8)) OR ucast (ucast w :: u8) :: u16) n
      = bit w n"
    by (cases "n < 8") (auto simp: bit_simps)
qed

end
