(* ===== verification/Codec.thy ===== *)
theory Codec
  imports Prelude
begin

text \<open>
  The interface every wire format of the repository offers: an encoder, a decoder that may
  refuse, and the values and frames they are meant for. The laws are the two round trips; what
  a client needs (injectivity, that exactly the encoded frames are accepted, that a decoded
  frame carries no second reading) is proved here once, and two codecs stacked on each other are
  a codec again.
\<close>

locale codec =
  fixes enc :: "'a \<Rightarrow> 'b"
    and dec :: "'b \<Rightarrow> 'a option"
    and wf_val :: "'a \<Rightarrow> bool"
    and wf_frame :: "'b \<Rightarrow> bool"
  assumes dec_enc: "wf_val x \<Longrightarrow> dec (enc x) = Some x"
    and enc_frame: "wf_val x \<Longrightarrow> wf_frame (enc x)"
    and dec_val: "wf_frame b \<Longrightarrow> dec b = Some x \<Longrightarrow> wf_val x"
    and enc_dec: "wf_frame b \<Longrightarrow> dec b = Some x \<Longrightarrow> enc x = b"
begin

lemma enc_inj: "wf_val x \<Longrightarrow> wf_val y \<Longrightarrow> enc x = enc y \<Longrightarrow> x = y"
  by (metis dec_enc option.inject)

lemma dec_inj: "wf_frame b \<Longrightarrow> wf_frame c \<Longrightarrow> dec b = Some x \<Longrightarrow> dec c = Some x \<Longrightarrow> b = c"
  using enc_dec by blast

lemma accepts_iff_encoded: "wf_frame b \<Longrightarrow> (\<exists>x. dec b = Some x) \<longleftrightarrow> b \<in> enc ` Collect wf_val"
  using dec_enc dec_val enc_dec by (metis image_iff mem_Collect_eq)

lemma dec_iff_enc: "wf_frame b \<Longrightarrow> dec b = Some x \<longleftrightarrow> wf_val x \<and> enc x = b"
  using dec_enc dec_val enc_dec by blast

end

locale codec_stack =
  upper: codec enc1 dec1 wf1 wf2 + lower: codec enc2 dec2 wf2 wf3
  for enc1 :: "'a \<Rightarrow> 'b" and dec1 :: "'b \<Rightarrow> 'a option" and wf1 :: "'a \<Rightarrow> bool"
    and wf2 :: "'b \<Rightarrow> bool"
    and enc2 :: "'b \<Rightarrow> 'c" and dec2 :: "'c \<Rightarrow> 'b option" and wf3 :: "'c \<Rightarrow> bool"

sublocale codec_stack \<subseteq> stacked: codec "\<lambda>x. enc2 (enc1 x)" "\<lambda>c. Option.bind (dec2 c) dec1" wf1 wf3
proof
  fix x assume "wf1 x"
  then show "Option.bind (dec2 (enc2 (enc1 x))) dec1 = Some x"
    by (simp add: upper.dec_enc upper.enc_frame lower.dec_enc)
next
  fix x assume "wf1 x"
  then show "wf3 (enc2 (enc1 x))"
    by (simp add: upper.enc_frame lower.enc_frame)
next
  fix c x assume c: "wf3 c" and "Option.bind (dec2 c) dec1 = Some x"
  then obtain b where b: "dec2 c = Some b" "dec1 b = Some x"
    by (auto simp: bind_eq_Some_conv)
  from c b(1) have "wf2 b" by (rule lower.dec_val)
  with b(2) show "wf1 x" by (simp add: upper.dec_val)
  from c b \<open>wf2 b\<close> show "enc2 (enc1 x) = c"
    by (metis lower.enc_dec upper.enc_dec)
qed

end
