(* ===== verification/Hidpp_Message.thy ===== *)
theory Hidpp_Message
  imports Codec
begin

text \<open>
  HID++ report framing: the nibble type of \<^verbatim>\<open>nibble.rs\<close> and the unversioned messages of
  \<^verbatim>\<open>channel/message.rs\<close> in \<^verbatim>\<open>crates/openlogi-hidpp/src\<close>. A Rust array \<open>[u8; N]\<close> is a
  byte list, and \<open>wf_msg\<close> records the two lengths the array types fix.
\<close>

section \<open>Nibbles\<close>

datatype U4 = U4 (u4_raw: u8)

definition from_lo :: "u8 \<Rightarrow> U4" where
  "from_lo raw = U4 (raw AND 0x0f)"

definition from_hi :: "u8 \<Rightarrow> U4" where
  "from_hi raw = U4 (drop_bit 4 raw)"

definition to_lo :: "U4 \<Rightarrow> u8" where
  "to_lo n = u4_raw n"

definition to_hi :: "U4 \<Rightarrow> u8" where
  "to_hi n = push_bit 4 (u4_raw n)"

definition combine :: "U4 \<Rightarrow> U4 \<Rightarrow> u8" where
  "combine a b = to_hi a OR to_lo b"

text \<open>The invariant the private field of \<open>U4\<close> carries: both constructors clear the high bits.\<close>

definition wf_u4 :: "U4 \<Rightarrow> bool" where
  "wf_u4 n \<longleftrightarrow> drop_bit 4 (u4_raw n) = 0"

lemma low_nibble_mask: "(x :: u8) AND 0x0f = take_bit 4 x"
  by (simp add: take_bit_eq_mask mask_numeral)

lemma wf_u4_iff_high_bits: "wf_u4 n \<longleftrightarrow> (\<forall>i \<ge> 4. \<not> bit (u4_raw n) i)"
proof
  assume wf: "wf_u4 n"
  show "\<forall>i \<ge> 4. \<not> bit (u4_raw n) i"
  proof (intro allI impI)
    fix i :: nat assume "4 \<le> i"
    then obtain j where "i = 4 + j" by (auto simp: le_iff_add)
    moreover from wf have "\<not> bit (drop_bit 4 (u4_raw n)) j" by (simp add: wf_u4_def)
    ultimately show "\<not> bit (u4_raw n) i" by (simp add: bit_simps)
  qed
next
  assume "\<forall>i \<ge> 4. \<not> bit (u4_raw n) i"
  then show "wf_u4 n"
    unfolding wf_u4_def by (auto intro!: bit_word_eqI simp: bit_simps)
qed

lemma wf_u4_from_lo [simp, wf_intros]: "wf_u4 (from_lo b)"
  by (simp add: wf_u4_iff_high_bits from_lo_def low_nibble_mask bit_simps)

lemma wf_u4_from_hi [simp, wf_intros]: "wf_u4 (from_hi b)"
  by (auto simp: wf_u4_iff_high_bits from_hi_def bit_simps dest: bit_imp_le_length)

lemma combine_split [simp]: "combine (from_hi b) (from_lo b) = b"
  by (auto intro!: bit_word_eqI
      simp: combine_def from_hi_def from_lo_def to_hi_def to_lo_def low_nibble_mask bit_simps)

lemma from_hi_combine [simp]:
  assumes "wf_u4 a" and "wf_u4 b"
  shows "from_hi (combine a b) = a"
proof -
  have "drop_bit 4 (push_bit 4 (u4_raw a) OR u4_raw b) = u4_raw a"
  proof (rule bit_word_eqI)
    fix n :: nat assume "n < LENGTH(8)"
    with assms show "bit (drop_bit 4 (push_bit 4 (u4_raw a) OR u4_raw b)) n = bit (u4_raw a) n"
      by (cases "n < 4") (auto simp: bit_simps wf_u4_iff_high_bits)
  qed
  then show ?thesis by (cases a) (simp add: combine_def from_hi_def to_hi_def to_lo_def)
qed

lemma from_lo_combine [simp]:
  assumes "wf_u4 b"
  shows "from_lo (combine a b) = b"
proof -
  have "take_bit 4 (push_bit 4 (u4_raw a) OR u4_raw b) = u4_raw b"
  proof (rule bit_word_eqI)
    fix n :: nat assume "n < LENGTH(8)"
    with assms show "bit (take_bit 4 (push_bit 4 (u4_raw a) OR u4_raw b)) n = bit (u4_raw b) n"
      by (cases "n < 4") (auto simp: bit_simps wf_u4_iff_high_bits)
  qed
  then show ?thesis by (cases b) (simp add: combine_def from_lo_def to_hi_def to_lo_def low_nibble_mask)
qed

section \<open>Messages\<close>

definition SHORT_REPORT_ID :: u8 where "SHORT_REPORT_ID = 0x10"
definition SHORT_REPORT_LENGTH :: nat where "SHORT_REPORT_LENGTH = 7"
definition LONG_REPORT_ID :: u8 where "LONG_REPORT_ID = 0x11"
definition LONG_REPORT_LENGTH :: nat where "LONG_REPORT_LENGTH = 20"

lemmas report_consts = SHORT_REPORT_ID_def SHORT_REPORT_LENGTH_def LONG_REPORT_ID_def
  LONG_REPORT_LENGTH_def

definition is_hidpp_report_id :: "u8 \<Rightarrow> bool" where
  "is_hidpp_report_id report_id \<longleftrightarrow> report_id = SHORT_REPORT_ID \<or> report_id = LONG_REPORT_ID"

datatype HidppMessage = Short "u8 list" | Long "u8 list"

fun wf_msg :: "HidppMessage \<Rightarrow> bool" where
  "wf_msg (Short payload) \<longleftrightarrow> length payload = SHORT_REPORT_LENGTH - 1"
| "wf_msg (Long payload) \<longleftrightarrow> length payload = LONG_REPORT_LENGTH - 1"

text \<open>
  \<open>split_first_chunk\<close> with an empty remainder accepts exactly the array length its target type
  has.
\<close>

definition read_raw :: "u8 list \<Rightarrow> HidppMessage option" where
  "read_raw data =
     (case data of
        [] \<Rightarrow> None
      | report_id # rest \<Rightarrow>
          if report_id = SHORT_REPORT_ID \<and> length rest = SHORT_REPORT_LENGTH - 1
          then Some (Short rest)
          else if report_id = LONG_REPORT_ID \<and> length rest = LONG_REPORT_LENGTH - 1
          then Some (Long rest)
          else None)"

text \<open>The buffer is a mutable slice: the result is its new contents and the byte count, and
  \<open>None\<close> is the panic of an index or a slice out of range.\<close>

definition write_raw :: "HidppMessage \<Rightarrow> u8 list \<Rightarrow> (u8 list \<times> nat) option" where
  "write_raw msg buf =
     (case msg of
        Short payload \<Rightarrow>
          Option.bind (copy_into buf 0 [SHORT_REPORT_ID]) (\<lambda>buf.
            map_option (\<lambda>buf. (buf, SHORT_REPORT_LENGTH)) (copy_into buf 1 payload))
      | Long payload \<Rightarrow>
          Option.bind (copy_into buf 0 [LONG_REPORT_ID]) (\<lambda>buf.
            map_option (\<lambda>buf. (buf, LONG_REPORT_LENGTH)) (copy_into buf 1 payload)))"

fun msg_payload :: "HidppMessage \<Rightarrow> u8 list" where
  "msg_payload (Short payload) = payload"
| "msg_payload (Long payload) = payload"

definition header :: "HidppMessage \<Rightarrow> u8 \<times> u8 \<times> u8" where
  "header msg = (let payload = msg_payload msg in (payload ! 0, payload ! 1, payload ! 2))"

fun widened :: "HidppMessage \<Rightarrow> HidppMessage" where
  "widened (Short payload) =
     Long (payload @ drop (length payload) (replicate (LONG_REPORT_LENGTH - 1) 0))"
| "widened (Long payload) = Long payload"

text \<open>The bytes \<open>write_hidpp_report\<close> hands to the transport: the message written into a zeroed
  buffer of the long length, cut at the returned count.\<close>

definition report_bytes :: "HidppMessage \<Rightarrow> u8 list option" where
  "report_bytes msg =
     map_option (\<lambda>(buf, len). take len buf) (write_raw msg (replicate LONG_REPORT_LENGTH 0))"

fun wire :: "HidppMessage \<Rightarrow> u8 list" where
  "wire (Short payload) = SHORT_REPORT_ID # payload"
| "wire (Long payload) = LONG_REPORT_ID # payload"

lemma report_bytes_wire: "wf_msg msg \<Longrightarrow> report_bytes msg = Some (wire msg)"
  by (cases msg) (auto simp: report_bytes_def write_raw_def copy_into_def report_consts)

lemma write_raw_prefix:
  assumes "wf_msg msg" and "length (wire msg) \<le> length buf"
  shows "write_raw msg buf = Some (wire msg @ drop (length (wire msg)) buf, length (wire msg))"
  using assms
  by (cases msg; cases buf) (auto simp: write_raw_def copy_into_def report_consts)

lemma write_raw_too_short:
  "wf_msg msg \<Longrightarrow> length buf < length (wire msg) \<Longrightarrow> write_raw msg buf = None"
  by (cases msg; cases buf) (auto simp: write_raw_def copy_into_def report_consts)

lemma read_raw_wf: "read_raw data = Some msg \<Longrightarrow> wf_msg msg \<and> wire msg = data"
  by (auto simp: read_raw_def split: list.splits if_splits)

lemma read_raw_wire: "wf_msg msg \<Longrightarrow> read_raw (wire msg) = Some msg"
  by (cases msg) (auto simp: read_raw_def report_consts)

interpretation raw: codec wire read_raw wf_msg "\<lambda>_. True"
  by unfold_locales (auto simp: read_raw_wire dest: read_raw_wf)

lemma header_widened [simp]: "wf_msg msg \<Longrightarrow> header (widened msg) = header msg"
  by (cases msg) (auto simp: header_def Let_def nth_append report_consts)

lemma wf_widened [simp, wf_intros]: "wf_msg msg \<Longrightarrow> wf_msg (widened msg)"
  by (cases msg) (auto simp: report_consts)

lemma not_hidpp_not_read: "data \<noteq> [] \<Longrightarrow> \<not> is_hidpp_report_id (hd data) \<Longrightarrow> read_raw data = None"
  by (cases data) (auto simp: read_raw_def is_hidpp_report_id_def)

end
