(* ===== verification/Hidpp_V20.thy ===== *)
theory Hidpp_V20
  imports Hidpp_Message
begin

text \<open>
  HID++2.0 messages, \<^verbatim>\<open>crates/openlogi-hidpp/src/protocol/v20.rs\<close>: the header split, the two
  conversions from and to the raw message, the attribution of error replies to requests, the
  predicate a request registers with the channel and the decoding of the reply it gets back.
\<close>

record v20_header =
  device_index :: u8
  feature_index :: u8
  function_id :: U4
  software_id :: U4

datatype v20_message =
    V20_Short v20_header "u8 list"
  | V20_Long v20_header "u8 list"

fun v20_header_of :: "v20_message \<Rightarrow> v20_header" where
  "v20_header_of (V20_Short h _) = h"
| "v20_header_of (V20_Long h _) = h"

fun v20_extend_payload :: "v20_message \<Rightarrow> u8 list" where
  "v20_extend_payload (V20_Short _ payload) =
     payload @ drop (length payload) (replicate (LONG_REPORT_LENGTH - 4) 0)"
| "v20_extend_payload (V20_Long _ payload) = payload"

fun v20_payload_len :: "v20_message \<Rightarrow> nat" where
  "v20_payload_len (V20_Short _ _) = SHORT_REPORT_LENGTH - 4"
| "v20_payload_len (V20_Long _ _) = LONG_REPORT_LENGTH - 4"

definition v20_header_from :: "u8 list \<Rightarrow> v20_header" where
  "v20_header_from payload =
     \<lparr>device_index = payload ! 0, feature_index = payload ! 1,
      function_id = from_hi (payload ! 2), software_id = from_lo (payload ! 2)\<rparr>"

fun v20_from :: "HidppMessage \<Rightarrow> v20_message" where
  "v20_from (Short payload) = V20_Short (v20_header_from payload) (drop 3 payload)"
| "v20_from (Long payload) = V20_Long (v20_header_from payload) (drop 3 payload)"

definition v20_header_bytes :: "v20_header \<Rightarrow> u8 list" where
  "v20_header_bytes h =
     [device_index h, feature_index h, combine (function_id h) (software_id h)]"

fun v20_into :: "v20_message \<Rightarrow> HidppMessage" where
  "v20_into (V20_Short h payload) = Short (v20_header_bytes h @ payload)"
| "v20_into (V20_Long h payload) = Long (v20_header_bytes h @ payload)"

section \<open>Errors and replies\<close>

datatype v20_ErrorType =
    V20_NoError | V20_Unknown | V20_InvalidArgument | V20_OutOfRange | V20_HwError
  | V20_LogitechInternal | V20_InvalidFeatureIndex | V20_InvalidFunctionId | V20_Busy
  | V20_Unsupported

text \<open>\<open>IntoPrimitive\<close> and \<open>TryFromPrimitive\<close>: the discriminant as a byte, and the partial inverse.\<close>

fun v20_error_code :: "v20_ErrorType \<Rightarrow> u8" where
  "v20_error_code V20_NoError = 0"
| "v20_error_code V20_Unknown = 1"
| "v20_error_code V20_InvalidArgument = 2"
| "v20_error_code V20_OutOfRange = 3"
| "v20_error_code V20_HwError = 4"
| "v20_error_code V20_LogitechInternal = 5"
| "v20_error_code V20_InvalidFeatureIndex = 6"
| "v20_error_code V20_InvalidFunctionId = 7"
| "v20_error_code V20_Busy = 8"
| "v20_error_code V20_Unsupported = 9"

definition v20_error_try_from :: "u8 \<Rightarrow> v20_ErrorType option" where
  "v20_error_try_from b =
     find (\<lambda>e. v20_error_code e = b)
       [V20_NoError, V20_Unknown, V20_InvalidArgument, V20_OutOfRange, V20_HwError,
        V20_LogitechInternal, V20_InvalidFeatureIndex, V20_InvalidFunctionId, V20_Busy,
        V20_Unsupported]"

text \<open>\<open>Box<dyn Error>\<close> and the third-party \<open>ParserError\<close> are opaque to the code; a string stands
  for either.\<close>

datatype ChannelError =
    Implementation string
  | ReportDescriptor string
  | HidppNotSupported
  | MessageTypeNotSupported
  | InvalidRawReportLength nat
  | NoResponse
  | ChannelTimeout

datatype Hidpp20Error =
    V20_Channel ChannelError
  | V20_Feature v20_ErrorType
  | V20_UnsupportedResponse

definition is_error_for :: "v20_message \<Rightarrow> v20_header \<Rightarrow> bool" where
  "is_error_for msg request \<longleftrightarrow>
     (let h = v20_header_of msg in
        device_index h = device_index request
      \<and> feature_index h = 0xff
      \<and> combine (function_id h) (software_id h) = feature_index request
      \<and> v20_extend_payload msg ! 0 = combine (function_id request) (software_id request))"

definition feature_error_for :: "v20_message \<Rightarrow> v20_header \<Rightarrow> Hidpp20Error option" where
  "feature_error_for msg request =
     (if \<not> is_error_for msg request then None
      else Some (case v20_error_try_from (v20_extend_payload msg ! 1) of
                   None \<Rightarrow> V20_UnsupportedResponse
                 | Some e \<Rightarrow> V20_Feature e))"

definition v20_response_predicate :: "v20_header \<Rightarrow> HidppMessage \<Rightarrow> bool" where
  "v20_response_predicate h response =
     (let response = v20_from response in is_error_for response h \<or> v20_header_of response = h)"

definition decode_v20_response :: "HidppMessage \<Rightarrow> Hidpp20Error + v20_message" where
  "decode_v20_response response =
     (let response = v20_from response in
      if feature_index (v20_header_of response) = 0xff
      then (case v20_error_try_from (v20_extend_payload response ! 1) of
              None \<Rightarrow> Inl V20_UnsupportedResponse
            | Some e \<Rightarrow> Inl (V20_Feature e))
      else Inr response)"

text \<open>The predicate \<open>send_v20_write_through\<close> builds: header match, and the payload filter for
  every reply that is not an error.\<close>

definition v20_write_through_predicate ::
  "v20_header \<Rightarrow> (v20_message \<Rightarrow> bool) \<Rightarrow> HidppMessage \<Rightarrow> bool" where
  "v20_write_through_predicate h matches_payload raw =
     (v20_response_predicate h raw
      \<and> (feature_index (v20_header_of (v20_from raw)) = 0xff \<or> matches_payload (v20_from raw)))"

section \<open>Well-formedness and the codec\<close>

definition wf_v20_header :: "v20_header \<Rightarrow> bool" where
  "wf_v20_header h \<longleftrightarrow> wf_u4 (function_id h) \<and> wf_u4 (software_id h)"

fun wf_v20 :: "v20_message \<Rightarrow> bool" where
  "wf_v20 (V20_Short h payload) \<longleftrightarrow> wf_v20_header h \<and> length payload = SHORT_REPORT_LENGTH - 4"
| "wf_v20 (V20_Long h payload) \<longleftrightarrow> wf_v20_header h \<and> length payload = LONG_REPORT_LENGTH - 4"

lemma wf_v20_header_from [simp, wf_intros]: "wf_v20_header (v20_header_from p)"
  by (simp add: wf_v20_header_def v20_header_from_def)

lemma v20_header_bytes_from: "3 \<le> length p \<Longrightarrow> v20_header_bytes (v20_header_from p) @ drop 3 p = p"
  using three_bytes [of p] by (simp add: v20_header_bytes_def v20_header_from_def)

lemma v20_header_from_bytes [simp]:
  "wf_v20_header h \<Longrightarrow> v20_header_from (v20_header_bytes h @ p) = h"
  by (simp add: v20_header_from_def v20_header_bytes_def wf_v20_header_def)

lemma length_v20_header_bytes [simp]: "length (v20_header_bytes h) = 3"
  by (simp add: v20_header_bytes_def)

lemma wf_v20_from [wf_intros]: "wf_msg m \<Longrightarrow> wf_v20 (v20_from m)"
  by (cases m) (auto simp: report_consts)

lemma wf_v20_into [wf_intros]: "wf_v20 m \<Longrightarrow> wf_msg (v20_into m)"
  by (cases m) (auto simp: report_consts)

lemma v20_into_from: "wf_msg m \<Longrightarrow> v20_into (v20_from m) = m"
  by (cases m) (auto simp: v20_header_bytes_from report_consts)

lemma v20_from_into: "wf_v20 m \<Longrightarrow> v20_from (v20_into m) = m"
  by (cases m) auto

interpretation v20: codec v20_into "\<lambda>m. Some (v20_from m)" wf_v20 wf_msg
  by unfold_locales (auto simp: v20_from_into v20_into_from wf_v20_from wf_v20_into)

interpretation v20_wire: codec_stack v20_into "\<lambda>m. Some (v20_from m)" wf_v20 wf_msg
    wire read_raw "\<lambda>_. True"
  by unfold_locales

lemma header_v20_into: "header (v20_into m) =
    (device_index (v20_header_of m), feature_index (v20_header_of m),
     combine (function_id (v20_header_of m)) (software_id (v20_header_of m)))"
  by (cases m) (auto simp: header_def v20_header_bytes_def)

lemma length_v20_extend_payload [simp]: "wf_v20 m \<Longrightarrow> length (v20_extend_payload m) = LONG_REPORT_LENGTH - 4"
  by (cases m) (auto simp: report_consts)

lemma v20_header_eqI:
  assumes "wf_v20_header a" and "wf_v20_header b"
    and "device_index a = device_index b" and "feature_index a = feature_index b"
    and "combine (function_id a) (software_id a) = combine (function_id b) (software_id b)"
  shows "a = b"
proof -
  from assms have "function_id a = function_id b"
    by (metis from_hi_combine wf_v20_header_def)
  moreover from assms have "software_id a = software_id b"
    by (metis from_lo_combine wf_v20_header_def)
  ultimately show ?thesis using assms by simp
qed

section \<open>Attribution of replies\<close>

lemma is_error_for_unique:
  assumes "wf_v20_header a" and "wf_v20_header b" and "is_error_for m a" and "is_error_for m b"
  shows "a = b"
  using assms by (intro v20_header_eqI) (auto simp: is_error_for_def Let_def)

lemma decode_v20_response_error:
  assumes "is_error_for (v20_from r) h"
  shows "decode_v20_response r =
    (case feature_error_for (v20_from r) h of Some e \<Rightarrow> Inl e | None \<Rightarrow> Inr (v20_from r))"
  using assms
  by (auto simp: decode_v20_response_def feature_error_for_def is_error_for_def Let_def
      split: option.splits)

lemma v20_error_try_from_code [simp]: "v20_error_try_from (v20_error_code e) = Some e"
  by (cases e) (simp_all add: v20_error_try_from_def)

lemma v20_error_try_from_Some: "v20_error_try_from b = Some e \<Longrightarrow> v20_error_code e = b"
  unfolding v20_error_try_from_def by (rule find_Some_holds)

interpretation v20_error: codec v20_error_code v20_error_try_from "\<lambda>_. True" "\<lambda>_. True"
  by unfold_locales (auto dest: v20_error_try_from_Some)

end
