(* ===== verification/Hidpp_V10.thy ===== *)
theory Hidpp_V10
  imports Hidpp_V20
begin

text \<open>
  HID++1.0 messages and register access, \<^verbatim>\<open>crates/openlogi-hidpp/src/protocol/v10.rs\<close>. The
  register functions are written over the channel's \<open>send\<close> (a request and its reply predicate in,
  a reply or a channel error out), which \<^verbatim>\<open>Hidpp_Channel\<close> models; the contract they rely on is
  the locale \<open>request_channel\<close>.
\<close>

record v10_header =
  v10_device_index :: u8
  sub_id :: u8

datatype v10_message =
    V10_Short v10_header "u8 list"
  | V10_Long v10_header "u8 list"

fun v10_header_of :: "v10_message \<Rightarrow> v10_header" where
  "v10_header_of (V10_Short h _) = h"
| "v10_header_of (V10_Long h _) = h"

fun v10_extend_payload :: "v10_message \<Rightarrow> u8 list" where
  "v10_extend_payload (V10_Short _ payload) =
     payload @ drop (length payload) (replicate (LONG_REPORT_LENGTH - 3) 0)"
| "v10_extend_payload (V10_Long _ payload) = payload"

definition v10_header_from :: "u8 list \<Rightarrow> v10_header" where
  "v10_header_from payload = \<lparr>v10_device_index = payload ! 0, sub_id = payload ! 1\<rparr>"

fun v10_from :: "HidppMessage \<Rightarrow> v10_message" where
  "v10_from (Short payload) = V10_Short (v10_header_from payload) (drop 2 payload)"
| "v10_from (Long payload) = V10_Long (v10_header_from payload) (drop 2 payload)"

fun v10_into :: "v10_message \<Rightarrow> HidppMessage" where
  "v10_into (V10_Short h payload) = Short ([v10_device_index h, sub_id h] @ payload)"
| "v10_into (V10_Long h payload) = Long ([v10_device_index h, sub_id h] @ payload)"

datatype v10_MessageType =
  SetRegister | GetRegister | SetLongRegister | GetLongRegister | V10_Error

fun v10_message_type_code :: "v10_MessageType \<Rightarrow> u8" where
  "v10_message_type_code SetRegister = 0x80"
| "v10_message_type_code GetRegister = 0x81"
| "v10_message_type_code SetLongRegister = 0x82"
| "v10_message_type_code GetLongRegister = 0x83"
| "v10_message_type_code V10_Error = 0x8f"

datatype v10_ErrorType =
    V10_Success | V10_InvalidSubId | V10_InvalidAddress | V10_InvalidValue | V10_ConnectFail
  | V10_TooManyDevices | V10_AlreadyExists | V10_Busy | V10_UnknownDevice | V10_ResourceError
  | V10_RequestUnavailable | V10_InvalidParamValue | V10_WrongPinCode

fun v10_error_code :: "v10_ErrorType \<Rightarrow> u8" where
  "v10_error_code V10_Success = 0x00"
| "v10_error_code V10_InvalidSubId = 0x01"
| "v10_error_code V10_InvalidAddress = 0x02"
| "v10_error_code V10_InvalidValue = 0x03"
| "v10_error_code V10_ConnectFail = 0x04"
| "v10_error_code V10_TooManyDevices = 0x05"
| "v10_error_code V10_AlreadyExists = 0x06"
| "v10_error_code V10_Busy = 0x07"
| "v10_error_code V10_UnknownDevice = 0x08"
| "v10_error_code V10_ResourceError = 0x09"
| "v10_error_code V10_RequestUnavailable = 0x0a"
| "v10_error_code V10_InvalidParamValue = 0x0b"
| "v10_error_code V10_WrongPinCode = 0x0c"

definition v10_error_try_from :: "u8 \<Rightarrow> v10_ErrorType option" where
  "v10_error_try_from b =
     find (\<lambda>e. v10_error_code e = b)
       [V10_Success, V10_InvalidSubId, V10_InvalidAddress, V10_InvalidValue, V10_ConnectFail,
        V10_TooManyDevices, V10_AlreadyExists, V10_Busy, V10_UnknownDevice, V10_ResourceError,
        V10_RequestUnavailable, V10_InvalidParamValue, V10_WrongPinCode]"

datatype Hidpp10Error =
    V10_Channel ChannelError
  | V10_RegisterAccess v10_ErrorType
  | V10_UnsupportedResponse

text \<open>\<open>is_rap_response\<close>: bytes 0 to 3 exist in both report widths.\<close>

definition is_rap_response ::
  "u8 \<Rightarrow> v10_MessageType \<Rightarrow> u8 \<Rightarrow> u8 option \<Rightarrow> HidppMessage \<Rightarrow> bool" where
  "is_rap_response device msg_type address echo msg \<longleftrightarrow>
     (let raw = msg_payload msg in
        raw ! 0 = device
      \<and> ((raw ! 1 = v10_message_type_code msg_type
           \<and> raw ! 2 = address
           \<and> (case echo of None \<Rightarrow> True | Some e \<Rightarrow> raw ! 3 = e))
         \<or> (raw ! 1 = v10_message_type_code V10_Error
           \<and> raw ! 2 = v10_message_type_code msg_type
           \<and> raw ! 3 = address)))"

section \<open>Register access\<close>

type_synonym send_fn = "HidppMessage \<Rightarrow> (HidppMessage \<Rightarrow> bool) \<Rightarrow> ChannelError + HidppMessage"

text \<open>The tail every register function shares: an error reply becomes the register error it
  carries, anything else is handed on.\<close>

definition v10_reply_error :: "v10_message \<Rightarrow> Hidpp10Error option" where
  "v10_reply_error response =
     (if sub_id (v10_header_of response) = v10_message_type_code V10_Error
      then (case v10_error_try_from (v10_extend_payload response ! 2) of
              None \<Rightarrow> Some V10_UnsupportedResponse
            | Some e \<Rightarrow> Some (V10_RegisterAccess e))
      else None)"

definition read_register :: "send_fn \<Rightarrow> u8 \<Rightarrow> u8 \<Rightarrow> u8 list \<Rightarrow> Hidpp10Error + u8 list" where
  "read_register send device address parameters =
     (case send
        (v10_into (V10_Short
           \<lparr>v10_device_index = device, sub_id = v10_message_type_code GetRegister\<rparr>
           (address # parameters)))
        (is_rap_response device GetRegister address None) of
        Inl e \<Rightarrow> Inl (V10_Channel e)
      | Inr raw \<Rightarrow>
          (let response = v10_from raw; payload = v10_extend_payload response in
           case v10_reply_error response of
             Some e \<Rightarrow> Inl e
           | None \<Rightarrow> Inr [payload ! 1, payload ! 2, payload ! 3]))"

definition write_register :: "send_fn \<Rightarrow> u8 \<Rightarrow> u8 \<Rightarrow> u8 list \<Rightarrow> Hidpp10Error + unit" where
  "write_register send device address payload =
     (case send
        (v10_into (V10_Short
           \<lparr>v10_device_index = device, sub_id = v10_message_type_code SetRegister\<rparr>
           (address # payload)))
        (is_rap_response device SetRegister address None) of
        Inl e \<Rightarrow> Inl (V10_Channel e)
      | Inr raw \<Rightarrow>
          (case v10_reply_error (v10_from raw) of Some e \<Rightarrow> Inl e | None \<Rightarrow> Inr ()))"

definition read_long_register_matching ::
  "send_fn \<Rightarrow> u8 \<Rightarrow> u8 \<Rightarrow> u8 list \<Rightarrow> u8 option \<Rightarrow> Hidpp10Error + u8 list" where
  "read_long_register_matching send device address parameters echo =
     (case send
        (v10_into (V10_Short
           \<lparr>v10_device_index = device, sub_id = v10_message_type_code GetLongRegister\<rparr>
           (address # parameters)))
        (is_rap_response device GetLongRegister address echo) of
        Inl e \<Rightarrow> Inl (V10_Channel e)
      | Inr raw \<Rightarrow>
          (let response = v10_from raw; payload = v10_extend_payload response in
           case v10_reply_error response of
             Some e \<Rightarrow> Inl e
           | None \<Rightarrow> Inr (drop 1 payload)))"

definition read_long_register :: "send_fn \<Rightarrow> u8 \<Rightarrow> u8 \<Rightarrow> u8 list \<Rightarrow> Hidpp10Error + u8 list" where
  "read_long_register send device address parameters =
     read_long_register_matching send device address parameters None"

definition read_long_sub_register ::
  "send_fn \<Rightarrow> u8 \<Rightarrow> u8 \<Rightarrow> u8 \<Rightarrow> u8 list \<Rightarrow> Hidpp10Error + u8 list" where
  "read_long_sub_register send device address sub_register parameters =
     read_long_register_matching send device address
       [sub_register, parameters ! 0, parameters ! 1] (Some sub_register)"

definition write_long_register :: "send_fn \<Rightarrow> u8 \<Rightarrow> u8 \<Rightarrow> u8 list \<Rightarrow> Hidpp10Error + unit" where
  "write_long_register send device address payload =
     (case send
        (v10_into (V10_Long
           \<lparr>v10_device_index = device, sub_id = v10_message_type_code SetLongRegister\<rparr>
           (address # payload)))
        (is_rap_response device SetLongRegister address None) of
        Inl e \<Rightarrow> Inl (V10_Channel e)
      | Inr raw \<Rightarrow>
          (case v10_reply_error (v10_from raw) of Some e \<Rightarrow> Inl e | None \<Rightarrow> Inr ()))"

section \<open>The codec\<close>

fun wf_v10 :: "v10_message \<Rightarrow> bool" where
  "wf_v10 (V10_Short _ payload) \<longleftrightarrow> length payload = SHORT_REPORT_LENGTH - 3"
| "wf_v10 (V10_Long _ payload) \<longleftrightarrow> length payload = LONG_REPORT_LENGTH - 3"

lemma v10_into_from: "wf_msg m \<Longrightarrow> v10_into (v10_from m) = m"
  using two_bytes [of "msg_payload m"]
  by (cases m) (auto simp: v10_header_from_def report_consts)

lemma v10_from_into: "wf_v10 m \<Longrightarrow> v10_from (v10_into m) = m"
  by (cases m) (auto simp: v10_header_from_def)

lemma wf_v10_from [wf_intros]: "wf_msg m \<Longrightarrow> wf_v10 (v10_from m)"
  by (cases m) (auto simp: report_consts)

lemma wf_v10_into [wf_intros]: "wf_v10 m \<Longrightarrow> wf_msg (v10_into m)"
  by (cases m) (auto simp: report_consts)

interpretation v10: codec v10_into "\<lambda>m. Some (v10_from m)" wf_v10 wf_msg
  by unfold_locales (auto simp: v10_from_into v10_into_from wf_v10_from wf_v10_into)

interpretation v10_wire: codec_stack v10_into "\<lambda>m. Some (v10_from m)" wf_v10 wf_msg
    wire read_raw "\<lambda>_. True"
  by unfold_locales

lemma v10_error_try_from_code [simp]: "v10_error_try_from (v10_error_code e) = Some e"
  by (cases e) (simp_all add: v10_error_try_from_def)

lemma v10_error_try_from_Some: "v10_error_try_from b = Some e \<Longrightarrow> v10_error_code e = b"
  unfolding v10_error_try_from_def by (rule find_Some_holds)

interpretation v10_error: codec v10_error_code v10_error_try_from "\<lambda>_. True" "\<lambda>_. True"
  by unfold_locales (auto dest: v10_error_try_from_Some)

lemma length_v10_extend_payload [simp]: "wf_v10 m \<Longrightarrow> length (v10_extend_payload m) = LONG_REPORT_LENGTH - 3"
  by (cases m) (auto simp: report_consts)

section \<open>What the register functions need of the channel\<close>

text \<open>The contract of \<open>HidppChannel::send\<close>: a reply it returns is a report that the request's own
  predicate accepted.\<close>

locale request_channel =
  fixes send :: send_fn
  assumes send_accepted: "send msg p = Inr r \<Longrightarrow> p r"
    and send_wf: "send msg p = Inr r \<Longrightarrow> wf_msg r"
begin

lemma reply_payload:
  assumes "send msg (is_rap_response device ty address echo) = Inr r"
    and "ty \<noteq> V10_Error" and "v10_reply_error (v10_from r) = None"
  shows "msg_payload r ! 0 = device \<and> msg_payload r ! 2 = address
    \<and> (\<forall>e. echo = Some e \<longrightarrow> msg_payload r ! 3 = e)"
proof -
  from send_accepted [OF assms(1)] have acc: "is_rap_response device ty address echo r" .
  have "sub_id (v10_header_of (v10_from r)) = msg_payload r ! 1"
    by (cases r) (simp_all add: v10_header_from_def)
  with assms(3) have "msg_payload r ! 1 \<noteq> v10_message_type_code V10_Error"
    by (auto simp: v10_reply_error_def split: if_splits option.splits)
  with acc show ?thesis by (auto simp: is_rap_response_def Let_def)
qed

lemma extend_payload_nth:
  "wf_msg r \<Longrightarrow> i < 4 \<Longrightarrow> v10_extend_payload (v10_from r) ! i = msg_payload r ! (i + 2)"
  by (cases r) (auto simp: nth_append report_consts add.commute)

lemma sub_register_echo:
  assumes "read_long_sub_register send device address sub params = Inr data"
  shows "length data = 16 \<and> data ! 0 = sub"
proof -
  define msg where "msg = v10_into (V10_Short
      \<lparr>v10_device_index = device, sub_id = v10_message_type_code GetLongRegister\<rparr>
      (address # [sub, params ! 0, params ! 1]))"
  from assms obtain r where r: "send msg (is_rap_response device GetLongRegister address (Some sub)) = Inr r"
      and ok: "v10_reply_error (v10_from r) = None"
      and data: "data = drop 1 (v10_extend_payload (v10_from r))"
    by (auto simp: read_long_sub_register_def read_long_register_matching_def msg_def Let_def
        split: sum.splits option.splits)
  have wf: "wf_msg r" using send_wf [OF r] .
  then have len: "length (v10_extend_payload (v10_from r)) = 17"
    using wf_v10_from [OF wf] by (simp add: report_consts)
  have "data ! 0 = v10_extend_payload (v10_from r) ! 1"
    using data len by simp
  also have "\<dots> = msg_payload r ! 3"
    using extend_payload_nth [OF wf, of 1] by (simp add: numeral_3_eq_3)
  also have "\<dots> = sub"
    using reply_payload [OF r _ ok] by simp
  finally show ?thesis using data len by simp
qed

end

end
