(* ===== verification/Hidpp_Pending.thy ===== *)
theory Hidpp_Pending
  imports Hidpp_V10
begin

text \<open>
  The channel's pending requests, \<^verbatim>\<open>crates/openlogi-hidpp/src/channel/pending.rs\<close>, and the part
  of \<^verbatim>\<open>channel.rs\<close>'s read loop that resolves a report against them. Instants and durations are
  milliseconds as \<open>nat\<close>; request ids count up without wrapping (the source's counter is 64 bits
  wide). The \<open>oneshot\<close> sender of a request is identified by the request's id, a parked request's
  waker by a handle; the operations return the handles they wake.
\<close>

type_synonym CorrelationKey = "u8 \<times> u8 \<times> u8"
type_synonym instant = nat

datatype AbandonedReply = Quarantine | AdoptIdentical

record PendingMessage =
  pm_id :: nat
  pm_key :: CorrelationKey
  pm_request :: HidppMessage
  pm_abandoned :: AbandonedReply
  pm_predicate :: "HidppMessage \<Rightarrow> bool"
  pm_extra_replies :: nat

record StaleKey =
  sk_key :: CorrelationKey
  sk_request :: HidppMessage
  sk_predicate :: "HidppMessage \<Rightarrow> bool"
  sk_outstanding :: nat
  sk_expires :: instant

record PendingQueue =
  messages :: "PendingMessage list"
  stale :: "StaleKey list"
  key_waiters :: "nat list"

datatype Wait = InFlight | Stale instant

definition STALE_REPLY_GRACE :: nat where "STALE_REPLY_GRACE = 1000"

definition empty_queue :: PendingQueue where
  "empty_queue = \<lparr>messages = [], stale = [], key_waiters = []\<rparr>"

section \<open>Operations\<close>

definition prune_stale :: "PendingQueue \<Rightarrow> instant \<Rightarrow> PendingQueue" where
  "prune_stale q now = q\<lparr>stale := filter (\<lambda>s. now < sk_expires s) (stale q)\<rparr>"

definition adopts :: "PendingMessage \<Rightarrow> StaleKey \<Rightarrow> bool" where
  "adopts m s \<longleftrightarrow> pm_abandoned m = AdoptIdentical \<and> sk_request s = pm_request m"

definition try_register ::
  "PendingQueue \<Rightarrow> PendingMessage \<Rightarrow> instant \<Rightarrow> PendingQueue \<times> (PendingMessage \<times> Wait + unit)" where
  "try_register q0 m now =
     (let q = prune_stale q0 now in
      if \<exists>p \<in> set (messages q). pm_key p = pm_key m then (q, Inl (m, InFlight))
      else case iter_max (map sk_expires
                  (filter (\<lambda>s. sk_key s = pm_key m \<and> \<not> adopts m s) (stale q))) of
             Some until \<Rightarrow> (q, Inl (m, Stale until))
           | None \<Rightarrow>
               (let extra = sum_list (map sk_outstanding
                      (filter (\<lambda>s. sk_key s = pm_key m) (stale q))) in
                (q\<lparr>stale := filter (\<lambda>s. sk_key s \<noteq> pm_key m) (stale q),
                   messages := messages q @ [m\<lparr>pm_extra_replies := extra\<rparr>]\<rparr>,
                 Inr ())))"

definition wake_key_waiters :: "PendingQueue \<Rightarrow> PendingQueue \<times> nat list" where
  "wake_key_waiters q = (q\<lparr>key_waiters := []\<rparr>, key_waiters q)"

definition owe_replies :: "PendingQueue \<Rightarrow> PendingMessage \<Rightarrow> nat \<Rightarrow> instant \<Rightarrow> PendingQueue" where
  "owe_replies q m outstanding now =
     q\<lparr>stale := stale q @
        [\<lparr>sk_key = pm_key m, sk_request = pm_request m, sk_predicate = pm_predicate m,
          sk_outstanding = outstanding, sk_expires = now + STALE_REPLY_GRACE\<rparr>]\<rparr>"

definition abandon :: "PendingQueue \<Rightarrow> nat \<Rightarrow> instant \<Rightarrow> PendingQueue \<times> nat list" where
  "abandon q rid now =
     (case position (\<lambda>m. pm_id m = rid) (messages q) of
        None \<Rightarrow> (q, [])
      | Some pos \<Rightarrow>
          (let abandoned = messages q ! pos;
               q = q\<lparr>messages := remove_at pos (messages q)\<rparr>;
               outstanding = pm_extra_replies abandoned + 1 in
           wake_key_waiters (owe_replies q abandoned outstanding now)))"

text \<open>\<open>outstanding -= 1\<close> cannot underflow: \<open>queue_inv\<close> keeps every count positive.\<close>

definition discard_stale_reply ::
  "PendingQueue \<Rightarrow> HidppMessage \<Rightarrow> bool \<times> PendingQueue \<times> nat list" where
  "discard_stale_reply q msg =
     (case position (\<lambda>s. sk_predicate s msg) (stale q) of
        None \<Rightarrow> (False, q, [])
      | Some pos \<Rightarrow>
          (let s = (stale q ! pos)\<lparr>sk_outstanding := sk_outstanding (stale q ! pos) - 1\<rparr> in
           if sk_outstanding s = 0
           then (True, wake_key_waiters (q\<lparr>stale := remove_at pos (stale q)\<rparr>))
           else (True, q\<lparr>stale := (stale q)[pos := s]\<rparr>, [])))"

text \<open>
  The block of \<open>read_loop\<close> that runs under the queue's lock for one parsed report: the request
  answered, whether the report was a stale reply, the new queue and the woken handles.
\<close>

definition resolve_report ::
  "PendingQueue \<Rightarrow> HidppMessage \<Rightarrow> instant \<Rightarrow> PendingMessage option \<times> bool \<times> PendingQueue \<times> nat list"
  where
  "resolve_report q msg now =
     (case position (\<lambda>m. pm_predicate m msg) (messages q) of
        Some pos \<Rightarrow>
          (let answered = messages q ! pos;
               q = q\<lparr>messages := remove_at pos (messages q)\<rparr>;
               q = (if 0 < pm_extra_replies answered
                    then owe_replies q answered (pm_extra_replies answered) now else q) in
           (Some answered, False, wake_key_waiters q))
      | None \<Rightarrow> (None, discard_stale_reply q msg))"

section \<open>The queue invariant\<close>

text \<open>
  No two entries share a key, whether pending or stale; every stale entry is owed at least one
  reply; pending ids are unique.
\<close>

definition queue_inv :: "PendingQueue \<Rightarrow> bool" where
  "queue_inv q \<longleftrightarrow>
     distinct (map pm_key (messages q) @ map sk_key (stale q))
   \<and> (\<forall>s \<in> set (stale q). 0 < sk_outstanding s)
   \<and> distinct (map pm_id (messages q))"

lemma queue_inv_empty: "queue_inv empty_queue"
  by (simp add: queue_inv_def empty_queue_def)

lemma distinct_map_filter_key: "distinct (map f xs) \<Longrightarrow> distinct (map f (filter P xs))"
  by (induction xs) auto

lemma queue_inv_prune: "queue_inv q \<Longrightarrow> queue_inv (prune_stale q now)"
  by (auto simp: queue_inv_def prune_stale_def intro: distinct_map_filter_key)

lemma queue_inv_waiters [simp]: "queue_inv (q\<lparr>key_waiters := ws\<rparr>) = queue_inv q"
  by (simp add: queue_inv_def)

text \<open>The three outcomes of a registration, on the pruned queue.\<close>

lemma try_register_cases:
  assumes "try_register q0 m now = (q', r)"
  defines "q \<equiv> prune_stale q0 now"
  obtains (in_flight) p where "p \<in> set (messages q)" "pm_key p = pm_key m"
      "q' = q" "r = Inl (m, InFlight)"
  | (quarantined) s where "\<forall>p \<in> set (messages q). pm_key p \<noteq> pm_key m"
      "s \<in> set (stale q)" "sk_key s = pm_key m" "\<not> adopts m s" "now < sk_expires s"
      "q' = q" "r = Inl (m, Stale (sk_expires s))"
  | (registered) "\<forall>p \<in> set (messages q). pm_key p \<noteq> pm_key m"
      "\<forall>s \<in> set (stale q). sk_key s = pm_key m \<longrightarrow> adopts m s"
      "q' = q\<lparr>stale := filter (\<lambda>s. sk_key s \<noteq> pm_key m) (stale q),
         messages := messages q @ [m\<lparr>pm_extra_replies := sum_list (map sk_outstanding
            (filter (\<lambda>s. sk_key s = pm_key m) (stale q)))\<rparr>]\<rparr>" "r = Inr ()"
proof (cases "\<exists>p \<in> set (messages q). pm_key p = pm_key m")
  case True
  then obtain p where "p \<in> set (messages q)" "pm_key p = pm_key m" by blast
  moreover from True assms(1) have "q' = q" "r = Inl (m, InFlight)"
    by (simp_all add: try_register_def q_def Let_def)
  ultimately show ?thesis by (rule in_flight)
next
  case False
  then have nk: "\<forall>p \<in> set (messages q). pm_key p \<noteq> pm_key m" by blast
  let ?blocking = "filter (\<lambda>s. sk_key s = pm_key m \<and> \<not> adopts m s) (stale q)"
  show ?thesis
  proof (cases "iter_max (map sk_expires ?blocking)")
    case None
    then have "?blocking = []" by simp
    then have "\<forall>s \<in> set (stale q). sk_key s = pm_key m \<longrightarrow> adopts m s"
      by (auto simp: filter_empty_conv)
    with nk show ?thesis
      using False None assms(1)
      by (intro registered) (simp_all add: try_register_def q_def Let_def)
  next
    case (Some until)
    from iter_max_Some [OF Some] obtain s where s: "s \<in> set ?blocking" "until = sk_expires s"
      by auto
    then have "s \<in> set (stale q)" "sk_key s = pm_key m" "\<not> adopts m s" "now < sk_expires s"
      by (auto simp: q_def prune_stale_def)
    moreover have "q' = q" "r = Inl (m, Stale (sk_expires s))"
      using False Some s(2) assms(1) by (simp_all add: try_register_def q_def Let_def)
    ultimately show ?thesis by (rule quarantined [OF nk])
  qed
qed

lemma register_inv:
  assumes "queue_inv q" and "pm_key m \<notin> pm_key ` set (messages q)"
    and "pm_id m \<notin> pm_id ` set (messages q)"
  shows "queue_inv (q\<lparr>stale := filter (\<lambda>s. sk_key s \<noteq> pm_key m) (stale q),
    messages := messages q @ [m\<lparr>pm_extra_replies := n\<rparr>]\<rparr>)"
  using assms by (auto simp: queue_inv_def intro: distinct_map_filter_key)

lemma prune_stale_sel [simp]:
  "messages (prune_stale q now) = messages q"
  "key_waiters (prune_stale q now) = key_waiters q"
  "set (stale (prune_stale q now)) = {s \<in> set (stale q). now < sk_expires s}"
  by (auto simp: prune_stale_def)

lemma try_register_inv:
  assumes "queue_inv q" and "pm_id m \<notin> pm_id ` set (messages q)"
    and "try_register q m now = (q', r)"
  shows "queue_inv q'"
  using assms(3)
proof (cases rule: try_register_cases)
  case registered
  then have "pm_key m \<notin> pm_key ` set (messages (prune_stale q now))" by auto
  with assms(1,2) show ?thesis
    unfolding registered(3) by (intro register_inv) (simp_all add: queue_inv_prune)
qed (use assms(1) in \<open>simp_all add: queue_inv_prune\<close>)

lemma messages_split:
  assumes "position P (messages q) = Some pos"
  obtains us m vs where "messages q = us @ m # vs" "pos = length us" "P m"
  using position_Some_split [OF assms] by blast

lemma owe_replies_inv:
  assumes "queue_inv q" and "messages q = us @ m # vs" and "0 < n"
  shows "queue_inv (owe_replies (q\<lparr>messages := us @ vs\<rparr>) m n now)"
  using assms by (auto simp: queue_inv_def owe_replies_def)

lemma drop_message_inv:
  assumes "queue_inv q" and "messages q = us @ m # vs"
  shows "queue_inv (q\<lparr>messages := us @ vs\<rparr>)"
  using assms by (auto simp: queue_inv_def)

lemma abandon_inv: "queue_inv q \<Longrightarrow> queue_inv (fst (abandon q rid now))"
  unfolding abandon_def
  by (auto simp: Let_def wake_key_waiters_def intro: owe_replies_inv elim!: messages_split
      split: option.splits)

lemma discard_stale_reply_inv:
  assumes "queue_inv q"
  shows "queue_inv (fst (snd (discard_stale_reply q msg)))"
proof (cases "position (\<lambda>s. sk_predicate s msg) (stale q)")
  case None
  with assms show ?thesis by (simp add: discard_stale_reply_def)
next
  case (Some pos)
  then obtain us s vs where q: "stale q = us @ s # vs" "pos = length us"
    using position_Some_split [OF Some] by blast
  with assms Some show ?thesis
    by (auto simp: discard_stale_reply_def Let_def wake_key_waiters_def queue_inv_def
        list_update_append)
qed

lemma resolve_report_inv:
  assumes "queue_inv q" and "resolve_report q msg now = (a, st, q', ws)"
  shows "queue_inv q'"
proof (cases "position (\<lambda>m. pm_predicate m msg) (messages q)")
  case None
  with assms discard_stale_reply_inv [OF assms(1), of msg] show ?thesis
    by (simp add: resolve_report_def)
next
  case (Some pos)
  then obtain us m vs where q: "messages q = us @ m # vs" "pos = length us"
    by (rule messages_split)
  show ?thesis
    using assms Some owe_replies_inv [OF assms(1) q(1)] drop_message_inv [OF assms(1) q(1)] q
    by (auto simp: resolve_report_def Let_def wake_key_waiters_def split: if_splits)
qed

section \<open>Whose reply a report is\<close>

text \<open>
  The key a reply carries: its own header, or, for the error replies of either protocol version,
  the request bytes they repeat one position to the right.
\<close>

definition reply_key :: "HidppMessage \<Rightarrow> CorrelationKey" where
  "reply_key m =
     (let p = msg_payload m in
      if p ! 1 = 0xff \<or> p ! 1 = 0x8f then (p ! 0, p ! 2, p ! 3) else (p ! 0, p ! 1, p ! 2))"

definition keyed :: "CorrelationKey \<Rightarrow> (HidppMessage \<Rightarrow> bool) \<Rightarrow> bool" where
  "keyed k P \<longleftrightarrow> (\<forall>m. wf_msg m \<longrightarrow> P m \<longrightarrow> reply_key m = k)"

definition queue_keyed :: "PendingQueue \<Rightarrow> bool" where
  "queue_keyed q \<longleftrightarrow>
     (\<forall>m \<in> set (messages q). keyed (pm_key m) (pm_predicate m))
   \<and> (\<forall>s \<in> set (stale q). keyed (sk_key s) (sk_predicate s))"

lemma header_keyed: "reply_key m = header m" if "msg_payload m ! 1 \<notin> {0xff, 0x8f}"
  using that by (auto simp: reply_key_def header_def Let_def)

lemma v20_predicate_keyed:
  assumes "wf_v20_header h" and "feature_index h \<notin> {0xff, 0x8f}"
  shows "keyed (device_index h, feature_index h, combine (function_id h) (software_id h))
    (v20_response_predicate h)"
  unfolding keyed_def
proof (intro allI impI)
  fix m assume wf: "wf_msg m" and acc: "v20_response_predicate h m"
  define p where "p = msg_payload m"
  have hdr: "v20_header_of (v20_from m) = v20_header_from p"
    by (cases m) (simp_all add: p_def)
  have first: "v20_extend_payload (v20_from m) ! 0 = p ! 3"
    using wf by (cases m) (simp_all add: p_def nth_append report_consts)
  show "reply_key m = (device_index h, feature_index h, combine (function_id h) (software_id h))"
  proof (cases "is_error_for (v20_from m) h")
    case True
    then show ?thesis
      using hdr first
      by (simp add: is_error_for_def reply_key_def Let_def v20_header_from_def p_def)
  next
    case False
    with acc hdr have "v20_header_from p = h"
      by (simp add: v20_response_predicate_def)
    with assms(2) show ?thesis
      by (auto simp: reply_key_def Let_def v20_header_from_def p_def)
  qed
qed

lemma rap_predicate_keyed:
  assumes "ty \<noteq> V10_Error"
  shows "keyed (device, v10_message_type_code ty, address) (is_rap_response device ty address echo)"
  unfolding keyed_def using assms
  by (cases ty) (auto simp: is_rap_response_def reply_key_def Let_def)

lemma keyed_mono: "keyed k P \<Longrightarrow> (\<And>m. Q m \<Longrightarrow> P m) \<Longrightarrow> keyed k Q"
  by (auto simp: keyed_def)

lemma pending_accepts_unique:
  assumes inv: "queue_inv q" and keyed: "queue_keyed q" and wf: "wf_msg r"
    and m: "m \<in> set (messages q)" "pm_predicate m r"
  shows "\<forall>m' \<in> set (messages q). pm_predicate m' r \<longrightarrow> m' = m"
    and "\<forall>s \<in> set (stale q). \<not> sk_predicate s r"
proof -
  have k: "pm_key m = reply_key r"
    using keyed m wf by (auto simp: queue_keyed_def keyed_def)
  show "\<forall>m' \<in> set (messages q). pm_predicate m' r \<longrightarrow> m' = m"
  proof (intro ballI impI)
    fix m' assume m': "m' \<in> set (messages q)" "pm_predicate m' r"
    then have "pm_key m' = pm_key m"
      using keyed wf k by (auto simp: queue_keyed_def keyed_def)
    with m m' inv show "m' = m"
      by (auto simp: queue_inv_def distinct_map dest: inj_onD)
  qed
  show "\<forall>s \<in> set (stale q). \<not> sk_predicate s r"
  proof (intro ballI notI)
    fix s assume s: "s \<in> set (stale q)" "sk_predicate s r"
    then have "sk_key s = pm_key m"
      using keyed wf k by (auto simp: queue_keyed_def keyed_def)
    then have "pm_key m \<in> sk_key ` set (stale q)" using s(1) by (metis imageI)
    with m inv show False by (auto simp: queue_inv_def)
  qed
qed

lemma resolve_answers:
  assumes "queue_inv q" and "queue_keyed q" and "wf_msg r"
    and "m \<in> set (messages q)" and "pm_predicate m r"
  shows "fst (resolve_report q r now) = Some m"
proof (cases "position (\<lambda>m. pm_predicate m r) (messages q)")
  case None
  with assms show ?thesis by (auto simp: position_None)
next
  case (Some pos)
  then obtain us m' vs where q: "messages q = us @ m' # vs" "pos = length us" "pm_predicate m' r"
    by (rule messages_split)
  then have "m' = m" using pending_accepts_unique(1) [OF assms] by auto
  with Some q show ?thesis by (simp add: resolve_report_def Let_def wake_key_waiters_def)
qed

lemma resolve_stale:
  assumes "queue_inv q" and "queue_keyed q" and "wf_msg r"
    and "s \<in> set (stale q)" and "sk_predicate s r"
  shows "fst (resolve_report q r now) = None \<and> fst (snd (resolve_report q r now))"
proof -
  have none: "\<forall>m \<in> set (messages q). \<not> pm_predicate m r"
    using pending_accepts_unique(2) [OF assms(1-3)] assms(4,5) by blast
  then have "position (\<lambda>m. pm_predicate m r) (messages q) = None" by (simp add: position_None)
  moreover obtain pos where "position (\<lambda>s. sk_predicate s r) (stale q) = Some pos"
    using assms(4,5) position_None [of "\<lambda>s. sk_predicate s r" "stale q"] by fastforce
  ultimately show ?thesis
    by (simp add: resolve_report_def discard_stale_reply_def Let_def)
qed

section \<open>Replies owed\<close>

text \<open>
  The abstract view of the queue: how many replies with a key are still expected on the wire,
  one per pending request and per unanswered earlier send.
\<close>

definition owed_messages :: "PendingMessage list \<Rightarrow> CorrelationKey \<Rightarrow> nat" where
  "owed_messages ms k = sum_list (map (\<lambda>m. if pm_key m = k then pm_extra_replies m + 1 else 0) ms)"

definition owed_stale :: "StaleKey list \<Rightarrow> CorrelationKey \<Rightarrow> nat" where
  "owed_stale ss k = sum_list (map (\<lambda>s. if sk_key s = k then sk_outstanding s else 0) ss)"

definition owed :: "PendingQueue \<Rightarrow> CorrelationKey \<Rightarrow> nat" where
  "owed q k = owed_messages (messages q) k + owed_stale (stale q) k"

lemma owed_append [simp]:
  "owed_messages (xs @ ys) k = owed_messages xs k + owed_messages ys k"
  "owed_stale (us @ vs) k = owed_stale us k + owed_stale vs k"
  by (simp_all add: owed_messages_def owed_stale_def)

lemma owed_Cons [simp]:
  "owed_messages (m # ms) k = (if pm_key m = k then pm_extra_replies m + 1 else 0) + owed_messages ms k"
  "owed_stale (s # ss) k = (if sk_key s = k then sk_outstanding s else 0) + owed_stale ss k"
  by (simp_all add: owed_messages_def owed_stale_def)

lemma owed_Nil [simp]: "owed_messages [] k = 0" "owed_stale [] k = 0"
  by (simp_all add: owed_messages_def owed_stale_def)

lemma owed_stale_filter:
  "owed_stale (filter (\<lambda>s. sk_key s \<noteq> k') ss) k = (if k = k' then 0 else owed_stale ss k)"
  by (induction ss) auto

lemma sum_outstanding_filter:
  "sum_list (map sk_outstanding (filter (\<lambda>s. sk_key s = k) ss)) = owed_stale ss k"
  by (induction ss) auto

lemma owed_waiters [simp]: "owed (q\<lparr>key_waiters := ws\<rparr>) = owed q"
  by (simp add: owed_def fun_eq_iff)

lemma owed_register:
  assumes "try_register q m now = (q', Inr ())"
  shows "owed q' = (owed (prune_stale q now))(pm_key m := owed (prune_stale q now) (pm_key m) + 1)"
  using assms
proof (cases rule: try_register_cases)
  case registered
  then have "owed_messages (messages q) (pm_key m) = 0"
    by (auto simp: owed_messages_def)
  with registered show ?thesis
    by (auto simp: owed_def fun_eq_iff owed_stale_filter sum_outstanding_filter)
qed auto

lemma owed_abandon: "owed (fst (abandon q rid now)) = owed q"
  by (auto simp: abandon_def Let_def wake_key_waiters_def owe_replies_def owed_def fun_eq_iff
      elim!: messages_split split: option.splits)

lemma owed_discard:
  assumes "queue_inv q" and "queue_keyed q" and "wf_msg r"
  shows "discard_stale_reply q r = (b, q', ws) \<Longrightarrow>
    owed q' = (if b then (owed q)(reply_key r := owed q (reply_key r) - 1) else owed q)"
proof (cases "position (\<lambda>s. sk_predicate s r) (stale q)")
  case None
  moreover assume "discard_stale_reply q r = (b, q', ws)"
  ultimately show ?thesis by (auto simp: discard_stale_reply_def)
next
  case (Some pos)
  assume d: "discard_stale_reply q r = (b, q', ws)"
  from position_Some_split [OF Some] obtain us s vs
    where q: "stale q = us @ s # vs" "pos = length us" "sk_predicate s r" by blast
  with assms have k: "sk_key s = reply_key r" "0 < sk_outstanding s"
    by (auto simp: queue_keyed_def keyed_def queue_inv_def)
  show ?thesis
    using d Some q(1,2) k
    by (auto simp: discard_stale_reply_def Let_def wake_key_waiters_def owed_def fun_eq_iff
        list_update_append split: if_splits)
qed

lemma owed_resolve:
  assumes "queue_inv q" and "queue_keyed q" and "wf_msg r"
    and "resolve_report q r now = (a, b, q', ws)"
  shows "owed q' = (if a \<noteq> None \<or> b then (owed q)(reply_key r := owed q (reply_key r) - 1) else owed q)"
proof (cases "position (\<lambda>m. pm_predicate m r) (messages q)")
  case None
  with assms(4) have "a = None" "discard_stale_reply q r = (b, q', ws)"
    by (auto simp: resolve_report_def)
  with owed_discard [OF assms(1-3)] show ?thesis by simp
next
  case (Some pos)
  then obtain us m vs where q: "messages q = us @ m # vs" "pos = length us" "pm_predicate m r"
    by (rule messages_split)
  with assms(2,3) have "pm_key m = reply_key r" by (auto simp: queue_keyed_def keyed_def)
  then show ?thesis
    using assms(4) Some q(1,2)
    by (auto simp: resolve_report_def Let_def wake_key_waiters_def owe_replies_def owed_def
        fun_eq_iff split: if_splits)
qed

end
