(* ===== verification/Event_System.thy ===== *)
theory Event_System
  imports Prelude
begin

text \<open>
  State machines driven by events. A component gives its start states and a step function whose
  \<open>None\<close> means that the state does not admit the event; \<open>reach\<close> is what any interleaving of
  events can produce and \<open>run\<close> plays one given sequence. The locale \<open>invariant_system\<close> is the
  obligation every component invariant discharges; its conclusions carry the invariant to the
  reachable states and along runs.
\<close>

inductive reach :: "('s \<Rightarrow> bool) \<Rightarrow> ('s \<Rightarrow> 'e \<Rightarrow> 's option) \<Rightarrow> 's \<Rightarrow> bool"
  for init :: "'s \<Rightarrow> bool" and step :: "'s \<Rightarrow> 'e \<Rightarrow> 's option" where
  reach_init: "init s \<Longrightarrow> reach init step s"
| reach_step: "reach init step s \<Longrightarrow> step s e = Some s' \<Longrightarrow> reach init step s'"

fun run :: "('s \<Rightarrow> 'e \<Rightarrow> 's option) \<Rightarrow> 's \<Rightarrow> 'e list \<Rightarrow> 's option" where
  "run step s [] = Some s"
| "run step s (e # es) = Option.bind (step s e) (\<lambda>s'. run step s' es)"

lemma reach_run: "reach init step s \<Longrightarrow> run step s es = Some s' \<Longrightarrow> reach init step s'"
  by (induction es arbitrary: s) (auto simp: bind_eq_Some_conv intro: reach_step)

lemma run_append: "run step s (es @ fs) = Option.bind (run step s es) (\<lambda>s'. run step s' fs)"
  by (induction es arbitrary: s) (auto simp: bind_assoc split: bind_splits)

locale invariant_system =
  fixes init :: "'s \<Rightarrow> bool" and step :: "'s \<Rightarrow> 'e \<Rightarrow> 's option" and inv :: "'s \<Rightarrow> bool"
  assumes inv_init: "init s \<Longrightarrow> inv s"
    and inv_step: "inv s \<Longrightarrow> step s e = Some s' \<Longrightarrow> inv s'"
begin

lemma reachable_inv: "reach init step s \<Longrightarrow> inv s"
  by (induction rule: reach.induct) (auto intro: inv_init inv_step)

lemma run_inv: "inv s \<Longrightarrow> run step s es = Some s' \<Longrightarrow> inv s'"
  by (induction es arbitrary: s) (auto simp: bind_eq_Some_conv intro: inv_step)

end

end
