(* ===== verification/Hidpp_Channel.thy ===== *)
theory Hidpp_Channel
  imports Hidpp_Pending Event_System
begin

text \<open>
  The HID++ channel, \<^verbatim>\<open>crates/openlogi-hidpp/src/channel.rs\<close> with \<^verbatim>\<open>channel/observation.rs\<close>: the
  software-id policy, the framing decisions of the send path, and the concurrent life of its
  requests. Each request future and the read thread are interleaved at the points where the code
  takes the queue's lock or awaits; one event of \<open>chan_event\<close> is one such point, and
  \<open>chan_step\<close> is the code that runs there. An event that the state does not admit gives
  \<open>None\<close>. The transport is the environment: it decides when a write completes and what bytes
  arrive. Listener callbacks run outside the queue and are not part of the state.
\<close>

section \<open>Software ids\<close>

datatype RequestSwId = RequestSwId (sw_get: U4)

definition request_sw_id_new :: "U4 \<Rightarrow> RequestSwId option" where
  "request_sw_id_new n = (if to_lo n \<noteq> 0 then Some (RequestSwId n) else None)"

text \<open>The lease of \<open>Leased\<close> is an opaque object that is only dropped with the policy.\<close>

datatype SwIdPolicy = Fixed RequestSwId | Rotating u8 | Leased RequestSwId

definition sw_rotating :: SwIdPolicy where
  "sw_rotating = Rotating 0x01"

definition sw_default :: SwIdPolicy where
  "sw_default = Fixed (RequestSwId (from_lo 0x01))"

datatype RequestSwIds = RequestSwIds u16

definition sw_ids_all :: RequestSwIds where
  "sw_ids_all = RequestSwIds 0xfffe"

definition sw_ids_only :: "RequestSwId \<Rightarrow> RequestSwIds" where
  "sw_ids_only i = RequestSwIds (push_bit (unat (to_lo (sw_get i))) 1)"

fun sw_ids_contains :: "RequestSwIds \<Rightarrow> U4 \<Rightarrow> bool" where
  "sw_ids_contains (RequestSwIds ids) n \<longleftrightarrow> ids AND push_bit (unat (to_lo n)) 1 \<noteq> 0"

fun request_sw_ids :: "SwIdPolicy \<Rightarrow> RequestSwIds" where
  "request_sw_ids (Fixed i) = sw_ids_only i"
| "request_sw_ids (Leased i) = sw_ids_only i"
| "request_sw_ids (Rotating _) = sw_ids_all"

text \<open>The id handed out, and the policy with its counter advanced.\<close>

fun get_sw_id :: "SwIdPolicy \<Rightarrow> U4 \<times> SwIdPolicy" where
  "get_sw_id (Fixed i) = (sw_get i, Fixed i)"
| "get_sw_id (Leased i) = (sw_get i, Leased i)"
| "get_sw_id (Rotating old) =
     (from_lo old, Rotating (if old AND 0x0f = 0x0f then 0x01 else old + 1))"

section \<open>Requests\<close>

datatype RequestOutcome = O_Succeeded | O_TimedOut | O_WriteFailed | O_NoResponse | O_Cancelled

datatype ChannelObservation =
    OutgoingReport "nat option" "u8 list"
  | IncomingReport "nat option" "u8 list"
  | MalformedIncomingReport "u8 list"
  | ForeignIncomingReport "u8 list"
  | OutcomeObserved nat RequestOutcome

datatype PendingRequestCompletion =
    Response HidppMessage
  | WriteFailed ChannelError
  | NoResponseCompletion
  | TimedOut

fun completion_outcome :: "PendingRequestCompletion \<Rightarrow> RequestOutcome" where
  "completion_outcome (Response _) = O_Succeeded"
| "completion_outcome (WriteFailed _) = O_WriteFailed"
| "completion_outcome NoResponseCompletion = O_NoResponse"
| "completion_outcome TimedOut = O_TimedOut"

fun finish_request :: "PendingRequestCompletion \<Rightarrow> ChannelError + HidppMessage" where
  "finish_request (Response r) = Inr r"
| "finish_request (WriteFailed e) = Inl e"
| "finish_request NoResponseCompletion = Inl NoResponse"
| "finish_request TimedOut = Inl ChannelTimeout"

text \<open>
  Where a request future stands: at the top of the registration loop, parked on its waker (with
  the end of the grace when it waits for stale replies), in the transport write, awaiting the
  reply, returned, or dropped by its caller.
\<close>

datatype phase =
    Registering
  | Parked nat "instant option"
  | Writing
  | Waiting
  | Finished PendingRequestCompletion
  | Dropped

record request =
  rq_msg :: HidppMessage
  rq_predicate :: "HidppMessage \<Rightarrow> bool"
  rq_abandoned :: AbandonedReply
  rq_write_through :: bool
  rq_timeout :: nat
  rq_deadline :: "instant option"
  rq_phase :: phase
  rq_reply :: "HidppMessage option"

record HidppChannel =
  supports_short :: bool
  supports_long :: bool
  queue :: PendingQueue
  pending_message_id :: nat
  next_waker :: nat
  clock :: instant
  requests :: "nat \<rightharpoonup> request"
  observed :: "ChannelObservation list"

definition new_channel :: "bool \<Rightarrow> bool \<Rightarrow> HidppChannel" where
  "new_channel short long =
     \<lparr>supports_short = short, supports_long = long, queue = empty_queue, pending_message_id = 1,
      next_waker = 0, clock = 0, requests = Map.empty, observed = []\<rparr>"

definition from_raw_channel :: "bool \<times> bool \<Rightarrow> ChannelError + HidppChannel" where
  "from_raw_channel supports =
     (if \<not> fst supports \<and> \<not> snd supports then Inl HidppNotSupported
      else Inr (new_channel (fst supports) (snd supports)))"

definition supports_msg :: "HidppChannel \<Rightarrow> HidppMessage \<Rightarrow> bool" where
  "supports_msg ch msg = (case msg of Short _ \<Rightarrow> supports_short ch | Long _ \<Rightarrow> supports_long ch)"

definition normalize_outgoing :: "HidppChannel \<Rightarrow> HidppMessage \<Rightarrow> HidppMessage" where
  "normalize_outgoing ch msg =
     (case msg of
        Short _ \<Rightarrow> if \<not> supports_short ch \<and> supports_long ch then widened msg else msg
      | Long _ \<Rightarrow> msg)"

definition SEND_RESPONSE_TIMEOUT :: nat where "SEND_RESPONSE_TIMEOUT = 5000"
definition MAX_RAW_WRITE_LENGTH :: nat where "MAX_RAW_WRITE_LENGTH = 4095"

text \<open>\<open>write_raw_report\<close> up to the transport call: the bytes to write, or the length error.\<close>

definition write_raw_report :: "u8 list \<Rightarrow> ChannelError + u8 list" where
  "write_raw_report report =
     (if 1 \<le> length report \<and> length report \<le> MAX_RAW_WRITE_LENGTH then Inr report
      else Inl (InvalidRawReportLength (length report)))"

section \<open>Events\<close>

definition set_request :: "HidppChannel \<Rightarrow> nat \<Rightarrow> request \<Rightarrow> HidppChannel" where
  "set_request ch i r = ch\<lparr>requests := (requests ch)(i \<mapsto> r)\<rparr>"

definition wake_phase :: "nat set \<Rightarrow> request \<Rightarrow> request" where
  "wake_phase ws r =
     (case rq_phase r of Parked h _ \<Rightarrow> if h \<in> ws then r\<lparr>rq_phase := Registering\<rparr> else r | _ \<Rightarrow> r)"

definition wake_requests :: "nat list \<Rightarrow> HidppChannel \<Rightarrow> HidppChannel" where
  "wake_requests ws ch = ch\<lparr>requests := (\<lambda>i. map_option (wake_phase (set ws)) (requests ch i))\<rparr>"

definition observe :: "ChannelObservation \<Rightarrow> HidppChannel \<Rightarrow> HidppChannel" where
  "observe ob ch = ch\<lparr>observed := observed ch @ [ob]\<rparr>"

text \<open>\<open>send_with\<close> and \<open>send_write_through\<close> up to the first await.\<close>

definition submit ::
  "HidppChannel \<Rightarrow> HidppMessage \<Rightarrow> (HidppMessage \<Rightarrow> bool) \<Rightarrow> nat \<Rightarrow> AbandonedReply \<Rightarrow> bool \<Rightarrow>
     ChannelError + HidppChannel" where
  "submit ch msg0 p timeout ab write_through =
     (let msg = normalize_outgoing ch msg0 in
      if \<not> supports_msg ch msg then Inl MessageTypeNotSupported
      else
        let i = pending_message_id ch;
            r = \<lparr>rq_msg = msg, rq_predicate = p, rq_abandoned = ab, rq_write_through = write_through,
                 rq_timeout = timeout,
                 rq_deadline = (if write_through then None else Some (clock ch + timeout)),
                 rq_phase = Registering, rq_reply = None\<rparr> in
        Inr (set_request (ch\<lparr>pending_message_id := i + 1\<rparr>) i r))"

text \<open>One turn of the loop in \<open>register_when_key_free\<close>, and, once registered, the start of the
  transport write with the report it observes.\<close>

definition pending_of :: "nat \<Rightarrow> request \<Rightarrow> PendingMessage" where
  "pending_of i r =
     \<lparr>pm_id = i, pm_key = header (rq_msg r), pm_request = rq_msg r, pm_abandoned = rq_abandoned r,
      pm_predicate = rq_predicate r, pm_extra_replies = 0\<rparr>"

definition register_turn :: "HidppChannel \<Rightarrow> nat \<Rightarrow> request \<Rightarrow> HidppChannel" where
  "register_turn ch i r =
     (case try_register (queue ch) (pending_of i r) (clock ch) of
        (q, Inr _) \<Rightarrow>
          (let ch = set_request (ch\<lparr>queue := q\<rparr>) i (r\<lparr>rq_phase := Writing\<rparr>) in
           case report_bytes (rq_msg r) of
             Some bytes \<Rightarrow> observe (OutgoingReport (Some i) bytes) ch
           | None \<Rightarrow> ch)
      | (q, Inl (_, w)) \<Rightarrow>
          (let h = next_waker ch;
               until = (case w of InFlight \<Rightarrow> None | Stale expires \<Rightarrow> Some expires) in
           set_request
             (ch\<lparr>queue := q\<lparr>key_waiters := key_waiters q @ [h]\<rparr>, next_waker := h + 1\<rparr>)
             i (r\<lparr>rq_phase := Parked h until\<rparr>)))"

text \<open>Dropping a \<open>PendingRequest\<close>.\<close>

definition drop_pending :: "HidppChannel \<Rightarrow> nat \<Rightarrow> HidppChannel" where
  "drop_pending ch i =
     (case abandon (queue ch) i (clock ch) of (q, ws) \<Rightarrow> wake_requests ws (ch\<lparr>queue := q\<rparr>))"

definition finish :: "HidppChannel \<Rightarrow> nat \<Rightarrow> request \<Rightarrow> PendingRequestCompletion \<Rightarrow> HidppChannel" where
  "finish ch i r c =
     observe (OutcomeObserved i (completion_outcome c))
       (set_request (drop_pending ch i) i (r\<lparr>rq_phase := Finished c\<rparr>))"

definition cancel :: "HidppChannel \<Rightarrow> nat \<Rightarrow> request \<Rightarrow> HidppChannel" where
  "cancel ch i r =
     observe (OutcomeObserved i O_Cancelled)
       (set_request (drop_pending ch i) i (r\<lparr>rq_phase := Dropped\<rparr>))"

definition write_done :: "HidppChannel \<Rightarrow> nat \<Rightarrow> request \<Rightarrow> HidppChannel" where
  "write_done ch i r =
     set_request ch i
       (r\<lparr>rq_phase := Waiting,
          rq_deadline := (if rq_write_through r then Some (clock ch + rq_timeout r)
                          else rq_deadline r)\<rparr>)"

text \<open>\<open>sender.send(msg)\<close> fills the reply slot of the answered request.\<close>

definition deliver :: "HidppChannel \<Rightarrow> nat \<Rightarrow> HidppMessage \<Rightarrow> HidppChannel" where
  "deliver ch i msg =
     ch\<lparr>requests := (requests ch)(i := map_option (\<lambda>r. r\<lparr>rq_reply := Some msg\<rparr>) (requests ch i))\<rparr>"

text \<open>One turn of \<open>read_loop\<close> on the bytes read.\<close>

definition read_turn :: "HidppChannel \<Rightarrow> u8 list \<Rightarrow> HidppChannel" where
  "read_turn ch bytes =
     (case read_raw bytes of
        None \<Rightarrow>
          observe (if bytes \<noteq> [] \<and> \<not> is_hidpp_report_id (hd bytes)
                   then ForeignIncomingReport bytes else MalformedIncomingReport bytes) ch
      | Some msg \<Rightarrow>
          (case resolve_report (queue ch) msg (clock ch) of
             (answered, _, q, ws) \<Rightarrow>
               (let ch = ch\<lparr>queue := q\<rparr>;
                    ch = (case answered of None \<Rightarrow> ch | Some m \<Rightarrow> deliver ch (pm_id m) msg) in
                observe (IncomingReport (map_option pm_id answered) bytes) (wake_requests ws ch))))"

datatype chan_event =
    Submit HidppMessage "HidppMessage \<Rightarrow> bool" nat AbandonedReply bool
  | RegisterTurn nat
  | GraceElapsed nat
  | WriteOk nat
  | WriteErr nat ChannelError
  | ReportIn "u8 list"
  | Receive nat
  | DeadlineElapsed nat
  | Cancel nat
  | Tick nat

definition live :: "phase \<Rightarrow> bool" where
  "live ph = (case ph of Finished _ \<Rightarrow> False | Dropped \<Rightarrow> False | _ \<Rightarrow> True)"

definition on_request :: "HidppChannel \<Rightarrow> nat \<Rightarrow> (request \<Rightarrow> HidppChannel option) \<Rightarrow> HidppChannel option" where
  "on_request ch i f = Option.bind (requests ch i) f"

text \<open>
  \<open>select!\<close> lets the deadline win from every await of a bounded request; a write-through request
  has a deadline only once its write is done.
\<close>

fun chan_step :: "HidppChannel \<Rightarrow> chan_event \<Rightarrow> HidppChannel option" where
  "chan_step ch (Submit msg p timeout ab wt) =
     (if wf_msg msg then (case submit ch msg p timeout ab wt of Inl _ \<Rightarrow> None | Inr ch' \<Rightarrow> Some ch')
      else None)"
| "chan_step ch (RegisterTurn i) =
     on_request ch i (\<lambda>r. if rq_phase r = Registering then Some (register_turn ch i r) else None)"
| "chan_step ch (GraceElapsed i) =
     on_request ch i (\<lambda>r. case rq_phase r of
        Parked h (Some until) \<Rightarrow>
          if until \<le> clock ch then Some (set_request ch i (r\<lparr>rq_phase := Registering\<rparr>)) else None
      | _ \<Rightarrow> None)"
| "chan_step ch (WriteOk i) =
     on_request ch i (\<lambda>r. if rq_phase r = Writing then Some (write_done ch i r) else None)"
| "chan_step ch (WriteErr i e) =
     on_request ch i (\<lambda>r. if rq_phase r = Writing then Some (finish ch i r (WriteFailed e)) else None)"
| "chan_step ch (ReportIn bytes) = Some (read_turn ch bytes)"
| "chan_step ch (Receive i) =
     on_request ch i (\<lambda>r. if rq_phase r = Waiting
        then map_option (\<lambda>x. finish ch i r (Response x)) (rq_reply r) else None)"
| "chan_step ch (DeadlineElapsed i) =
     on_request ch i (\<lambda>r. case rq_deadline r of
        Some d \<Rightarrow> if live (rq_phase r) \<and> d \<le> clock ch then Some (finish ch i r TimedOut) else None
      | None \<Rightarrow> None)"
| "chan_step ch (Cancel i) =
     on_request ch i (\<lambda>r. if live (rq_phase r) then Some (cancel ch i r) else None)"
| "chan_step ch (Tick d) = Some (ch\<lparr>clock := clock ch + d\<rparr>)"

definition chan_init :: "HidppChannel \<Rightarrow> bool" where
  "chan_init ch \<longleftrightarrow> (\<exists>s. from_raw_channel s = Inr ch)"

abbreviation chan_reachable :: "HidppChannel \<Rightarrow> bool" where
  "chan_reachable \<equiv> reach chan_init chan_step"

section \<open>The channel invariant\<close>

definition in_flight :: "request \<Rightarrow> bool" where
  "in_flight r \<longleftrightarrow> (rq_phase r = Writing \<or> rq_phase r = Waiting) \<and> rq_reply r = None"

definition entry_of :: "PendingMessage \<Rightarrow> request \<Rightarrow> bool" where
  "entry_of m r \<longleftrightarrow> pm_key m = header (rq_msg r) \<and> pm_request m = rq_msg r
     \<and> pm_predicate m = rq_predicate r \<and> pm_abandoned m = rq_abandoned r"

definition accepted :: "request \<Rightarrow> HidppMessage \<Rightarrow> bool" where
  "accepted r x \<longleftrightarrow> rq_predicate r x \<and> wf_msg x"

definition unregistered :: "phase \<Rightarrow> bool" where
  "unregistered ph = (case ph of Registering \<Rightarrow> True | Parked _ _ \<Rightarrow> True | _ \<Rightarrow> False)"

definition request_ok :: "HidppChannel \<Rightarrow> nat \<Rightarrow> request \<Rightarrow> bool" where
  "request_ok ch i r \<longleftrightarrow>
     i < pending_message_id ch \<and> wf_msg (rq_msg r)
   \<and> (in_flight r \<longrightarrow> i \<in> pm_id ` set (messages (queue ch)))
   \<and> (unregistered (rq_phase r) \<longrightarrow> rq_reply r = None)
   \<and> (\<forall>x. rq_reply r = Some x \<longrightarrow> accepted r x)
   \<and> (\<forall>x. rq_phase r = Finished (Response x) \<longrightarrow> accepted r x)"

definition entry_ok :: "HidppChannel \<Rightarrow> PendingMessage \<Rightarrow> bool" where
  "entry_ok ch m \<longleftrightarrow> (\<exists>r. requests ch (pm_id m) = Some r \<and> in_flight r \<and> entry_of m r)"

definition stale_ok :: "HidppChannel \<Rightarrow> StaleKey \<Rightarrow> bool" where
  "stale_ok ch s \<longleftrightarrow> (\<exists>i r. requests ch i = Some r \<and> sk_key s = header (rq_msg r)
     \<and> sk_predicate s = rq_predicate r)"

definition chan_inv :: "HidppChannel \<Rightarrow> bool" where
  "chan_inv ch \<longleftrightarrow> queue_inv (queue ch)
     \<and> (\<forall>m \<in> set (messages (queue ch)). entry_ok ch m)
     \<and> (\<forall>s \<in> set (stale (queue ch)). stale_ok ch s)
     \<and> (\<forall>i r. requests ch i = Some r \<longrightarrow> request_ok ch i r)"

text \<open>A request parked behind an in-flight one is in the wake list, and that one is still there.\<close>

definition no_lost_wake :: "HidppChannel \<Rightarrow> bool" where
  "no_lost_wake ch \<longleftrightarrow> (\<forall>i r h. requests ch i = Some r \<longrightarrow> rq_phase r = Parked h None \<longrightarrow>
     h \<in> set (key_waiters (queue ch)) \<and> header (rq_msg r) \<in> pm_key ` set (messages (queue ch)))"

text \<open>Frame facts: waking changes phases only.\<close>

lemma wake_phase_sel [simp]:
  "rq_msg (wake_phase ws r) = rq_msg r" "rq_predicate (wake_phase ws r) = rq_predicate r"
  "rq_abandoned (wake_phase ws r) = rq_abandoned r" "rq_reply (wake_phase ws r) = rq_reply r"
  "rq_deadline (wake_phase ws r) = rq_deadline r"
  by (simp_all add: wake_phase_def split: phase.splits)

lemma wake_phase_cases:
  "rq_phase (wake_phase ws r) = rq_phase r \<or>
   (\<exists>h u. rq_phase r = Parked h u \<and> h \<in> ws \<and> rq_phase (wake_phase ws r) = Registering)"
  by (simp add: wake_phase_def split: phase.splits)

lemma in_flight_wake [simp]: "in_flight (wake_phase ws r) = in_flight r"
  using wake_phase_cases [of ws r] by (auto simp: in_flight_def)

lemma unregistered_wake [simp]: "unregistered (rq_phase (wake_phase ws r)) = unregistered (rq_phase r)"
  using wake_phase_cases [of ws r] by (auto simp: unregistered_def)

lemma Finished_wake [simp]: "rq_phase (wake_phase ws r) = Finished c \<longleftrightarrow> rq_phase r = Finished c"
  using wake_phase_cases [of ws r] by auto

lemma accepted_wake [simp]: "accepted (wake_phase ws r) = accepted r"
  by (auto simp: accepted_def fun_eq_iff)

lemma entry_of_wake [simp]: "entry_of m (wake_phase ws r) = entry_of m r"
  by (simp add: entry_of_def)

lemma wake_requests_sel [simp]:
  "queue (wake_requests ws ch) = queue ch" "clock (wake_requests ws ch) = clock ch"
  "pending_message_id (wake_requests ws ch) = pending_message_id ch"
  "observed (wake_requests ws ch) = observed ch" "next_waker (wake_requests ws ch) = next_waker ch"
  "requests (wake_requests ws ch) i = map_option (wake_phase (set ws)) (requests ch i)"
  by (simp_all add: wake_requests_def)

lemma observe_sel [simp]:
  "queue (observe ob ch) = queue ch" "clock (observe ob ch) = clock ch"
  "pending_message_id (observe ob ch) = pending_message_id ch"
  "requests (observe ob ch) = requests ch" "observed (observe ob ch) = observed ch @ [ob]"
  by (simp_all add: observe_def)

lemma set_request_sel [simp]:
  "queue (set_request ch i r) = queue ch" "clock (set_request ch i r) = clock ch"
  "pending_message_id (set_request ch i r) = pending_message_id ch"
  "requests (set_request ch i r) = (requests ch)(i \<mapsto> r)"
  "observed (set_request ch i r) = observed ch"
  by (simp_all add: set_request_def)

lemma chan_inv_wake: "chan_inv ch \<Longrightarrow> chan_inv (wake_requests ws ch)"
  by (fastforce simp: chan_inv_def entry_ok_def stale_ok_def request_ok_def)

lemma chan_inv_observe [simp]: "chan_inv (observe ob ch) = chan_inv ch"
  by (simp add: chan_inv_def entry_ok_def stale_ok_def request_ok_def)

lemma chan_inv_clock [simp]: "chan_inv (ch\<lparr>clock := t\<rparr>) = chan_inv ch"
  by (simp add: chan_inv_def entry_ok_def stale_ok_def request_ok_def)

lemma chan_inv_waker [simp]: "chan_inv (ch\<lparr>next_waker := t\<rparr>) = chan_inv ch"
  by (simp add: chan_inv_def entry_ok_def stale_ok_def request_ok_def)

lemma chan_inv_key_waiters [simp]:
  "chan_inv (ch\<lparr>queue := q\<lparr>key_waiters := ws\<rparr>\<rparr>) = chan_inv (ch\<lparr>queue := q\<rparr>)"
  by (simp add: chan_inv_def entry_ok_def stale_ok_def request_ok_def)

end
