(* ===== verification/Hidpp_Channel_Inv.thy ===== *)
theory Hidpp_Channel_Inv
  imports Hidpp_Channel
begin

text \<open>
  The invariants of the channel of \<^verbatim>\<open>Hidpp_Channel\<close>, proved event by event: every entry of the
  queue belongs to a live request and every request in flight has its entry, every reply handed
  over was accepted by the request's own predicate, and no parked request misses its wake-up.
\<close>

section \<open>Introduction and elimination\<close>

lemma chan_invI:
  assumes "queue_inv (queue ch)" and "\<And>m. m \<in> set (messages (queue ch)) \<Longrightarrow> entry_ok ch m"
    and "\<And>s. s \<in> set (stale (queue ch)) \<Longrightarrow> stale_ok ch s"
    and "\<And>i r. requests ch i = Some r \<Longrightarrow> request_ok ch i r"
  shows "chan_inv ch"
  unfolding chan_inv_def using assms by blast

lemma chan_inv_queue: "chan_inv ch \<Longrightarrow> queue_inv (queue ch)"
  by (simp add: chan_inv_def)

lemma chan_inv_entry: "chan_inv ch \<Longrightarrow> m \<in> set (messages (queue ch)) \<Longrightarrow> entry_ok ch m"
  by (simp add: chan_inv_def)

lemma chan_inv_stale: "chan_inv ch \<Longrightarrow> s \<in> set (stale (queue ch)) \<Longrightarrow> stale_ok ch s"
  by (simp add: chan_inv_def)

lemma chan_inv_request: "chan_inv ch \<Longrightarrow> requests ch i = Some r \<Longrightarrow> request_ok ch i r"
  by (simp add: chan_inv_def)

section \<open>Every event keeps the invariant\<close>

text \<open>A request replaced by one with the same message, predicate and policy.\<close>

definition same_request :: "request \<Rightarrow> request \<Rightarrow> bool" where
  "same_request r r' \<longleftrightarrow> rq_msg r' = rq_msg r \<and> rq_predicate r' = rq_predicate r
     \<and> rq_abandoned r' = rq_abandoned r"

lemma stale_ok_upd:
  assumes "stale_ok ch s" and "requests ch i = Some r" and "same_request r r'"
    and "requests ch' = (requests ch)(i \<mapsto> r')"
  shows "stale_ok ch' s"
proof -
  from assms(1) obtain j x where x: "requests ch j = Some x" "sk_key s = header (rq_msg x)"
    "sk_predicate s = rq_predicate x" by (auto simp: stale_ok_def)
  show ?thesis
  proof (cases "j = i")
    case True
    with x assms(2-4) show ?thesis
      unfolding stale_ok_def same_request_def by (intro exI [of _ i] exI [of _ r']) auto
  next
    case False
    with x assms(4) show ?thesis
      unfolding stale_ok_def by (intro exI [of _ j] exI [of _ x]) simp
  qed
qed

lemma entry_ok_other:
  "entry_ok ch m \<Longrightarrow> pm_id m \<noteq> i \<Longrightarrow> requests ch' = (requests ch)(i \<mapsto> r') \<Longrightarrow> entry_ok ch' m"
  by (simp add: entry_ok_def)

lemma entry_ok_same:
  "entry_ok ch m \<Longrightarrow> pm_id m = i \<Longrightarrow> requests ch i = Some r \<Longrightarrow> same_request r r' \<Longrightarrow>
     in_flight r' \<Longrightarrow> requests ch' = (requests ch)(i \<mapsto> r') \<Longrightarrow> entry_ok ch' m"
  by (auto simp: entry_ok_def same_request_def entry_of_def)

lemma request_ok_queue:
  "request_ok ch i r \<Longrightarrow> pending_message_id ch \<le> pending_message_id ch' \<Longrightarrow>
     pm_id ` set (messages (queue ch)) \<subseteq> pm_id ` set (messages (queue ch')) \<Longrightarrow> request_ok ch' i r"
  unfolding request_ok_def by force

lemma chan_inv_set_request:
  assumes inv: "chan_inv ch" and r: "requests ch i = Some r" "same_request r r'"
    and fl: "in_flight r' = in_flight r" and ok: "request_ok ch i r'"
  shows "chan_inv (set_request ch i r')"
proof (rule chan_invI)
  show "queue_inv (queue (set_request ch i r'))" using chan_inv_queue [OF inv] by simp
next
  fix m assume "m \<in> set (messages (queue (set_request ch i r')))"
  then have e: "entry_ok ch m" by (simp add: chan_inv_entry [OF inv])
  show "entry_ok (set_request ch i r') m"
  proof (cases "pm_id m = i")
    case True
    with e r(1) have "in_flight r" by (simp add: entry_ok_def)
    with fl show ?thesis by (intro entry_ok_same [OF e True r]) simp_all
  next
    case False
    from e False show ?thesis by (rule entry_ok_other) simp
  qed
next
  fix s assume "s \<in> set (stale (queue (set_request ch i r')))"
  then have "stale_ok ch s" by (simp add: chan_inv_stale [OF inv])
  then show "stale_ok (set_request ch i r') s" by (rule stale_ok_upd [OF _ r]) simp
next
  fix j x assume x: "requests (set_request ch i r') j = Some x"
  have "request_ok ch j x"
  proof (cases "j = i")
    case True
    with x ok show ?thesis by simp
  next
    case False
    with x show ?thesis by (intro chan_inv_request [OF inv]) simp
  qed
  then show "request_ok (set_request ch i r') j x" by (rule request_ok_queue) simp_all
qed

lemma chan_inv_stale_mono:
  assumes "chan_inv ch" and "queue_inv q" and "set (stale q) \<subseteq> set (stale (queue ch))"
    and "messages q = messages (queue ch)"
  shows "chan_inv (ch\<lparr>queue := q\<rparr>)"
  using assms by (auto simp: chan_inv_def entry_ok_def stale_ok_def request_ok_def)

lemma chan_inv_fresh_id:
  assumes "chan_inv ch" and "requests ch i = Some r" and "\<not> in_flight r"
  shows "i \<notin> pm_id ` set (messages (queue ch))"
  using assms by (auto simp: chan_inv_def entry_ok_def)

lemma register_turn_registered_inv:
  assumes inv: "chan_inv ch" and r: "requests ch i = Some r" "rq_phase r = Registering"
    and reg: "try_register (queue ch) (pending_of i r) (clock ch) = (q, Inr ())"
  shows "chan_inv (set_request (ch\<lparr>queue := q\<rparr>) i (r\<lparr>rq_phase := Writing\<rparr>))"
proof -
  have nf: "\<not> in_flight r" using r(2) by (simp add: in_flight_def)
  have fresh: "i \<notin> pm_id ` set (messages (queue ch))"
    by (rule chan_inv_fresh_id [OF inv r(1) nf])
  have rok: "request_ok ch i r" by (rule chan_inv_request [OF inv r(1)])
  have qi: "queue_inv q"
    using try_register_inv [OF chan_inv_queue [OF inv] _ reg] fresh
    by (simp add: pending_of_def)
  from reg show ?thesis
  proof (cases rule: try_register_cases)
    case registered
    let ?r' = "r\<lparr>rq_phase := Writing\<rparr>"
    let ?ch = "set_request (ch\<lparr>queue := q\<rparr>) i ?r'"
    define n where "n = sum_list (map sk_outstanding (filter
        (\<lambda>s. sk_key s = pm_key (pending_of i r)) (stale (prune_stale (queue ch) (clock ch)))))"
    have msgs: "messages q = messages (queue ch) @ [pending_of i r\<lparr>pm_extra_replies := n\<rparr>]"
      unfolding registered(3) n_def by simp
    have stale: "set (stale q) \<subseteq> set (stale (queue ch))"
      unfolding registered(3) by auto
    have fl: "in_flight ?r'"
      using rok r(2) by (simp add: in_flight_def request_ok_def unregistered_def)
    show ?thesis
    proof (rule chan_invI)
      show "queue_inv (queue ?ch)" using qi by simp
    next
      fix m assume m: "m \<in> set (messages (queue ?ch))"
      show "entry_ok ?ch m"
      proof (cases "m \<in> set (messages (queue ch))")
        case True
        with fresh have "pm_id m \<noteq> i" by auto
        with chan_inv_entry [OF inv True] show ?thesis by (rule entry_ok_other) simp
      next
        case False
        with m have "m = pending_of i r\<lparr>pm_extra_replies := n\<rparr>" by (simp add: msgs)
        with fl show ?thesis by (simp add: entry_ok_def pending_of_def entry_of_def)
      qed
    next
      fix s assume "s \<in> set (stale (queue ?ch))"
      with stale have "stale_ok ch s" by (intro chan_inv_stale [OF inv]) auto
      then show "stale_ok ?ch s" by (rule stale_ok_upd [OF _ r(1)]) (simp_all add: same_request_def)
    next
      fix j x assume x: "requests ?ch j = Some x"
      show "request_ok ?ch j x"
      proof (cases "j = i")
        case True
        have "i \<in> pm_id ` set (messages q)" by (simp add: msgs pending_of_def)
        moreover have "x = ?r'" using True x by simp
        ultimately show ?thesis
          using True rok by (simp add: request_ok_def unregistered_def accepted_def)
      next
        case False
        with x have ok: "request_ok ch j x" by (intro chan_inv_request [OF inv]) simp
        show ?thesis by (rule request_ok_queue [OF ok]) (auto simp: msgs)
      qed
    qed
  qed simp_all
qed

lemma register_turn_parked_inv:
  assumes inv: "chan_inv ch" and r: "requests ch i = Some r" "rq_phase r = Registering"
    and reg: "try_register (queue ch) (pending_of i r) (clock ch) = (q, Inl (m, w))"
  shows "chan_inv (set_request (ch\<lparr>queue := q\<rparr>) i (r\<lparr>rq_phase := Parked h u\<rparr>))"
proof -
  have q: "q = prune_stale (queue ch) (clock ch)"
    using reg by (cases rule: try_register_cases) auto
  have inv': "chan_inv (ch\<lparr>queue := q\<rparr>)"
    unfolding q by (rule chan_inv_stale_mono [OF inv])
      (auto intro: queue_inv_prune chan_inv_queue [OF inv])
  show ?thesis
  proof (rule chan_inv_set_request [OF inv'])
    show "request_ok (ch\<lparr>queue := q\<rparr>) i (r\<lparr>rq_phase := Parked h u\<rparr>)"
      using chan_inv_request [OF inv r(1)] r(2)
      by (simp add: request_ok_def in_flight_def unregistered_def accepted_def)
    show "in_flight (r\<lparr>rq_phase := Parked h u\<rparr>) = in_flight r"
      using r(2) by (simp add: in_flight_def)
  qed (simp_all add: r(1) same_request_def)
qed

lemma chan_inv_park:
  "chan_inv (set_request (ch\<lparr>queue := q\<lparr>key_waiters := ws\<rparr>, next_waker := n\<rparr>) i r)
     = chan_inv (set_request (ch\<lparr>queue := q\<rparr>) i r)"
  by (simp add: chan_inv_def entry_ok_def stale_ok_def request_ok_def)

lemma register_turn_inv:
  assumes inv: "chan_inv ch" "requests ch i = Some r" "rq_phase r = Registering"
  shows "chan_inv (register_turn ch i r)"
proof (cases "try_register (queue ch) (pending_of i r) (clock ch)")
  case (Pair q res)
  show ?thesis
  proof (cases res)
    case (Inl mw)
    obtain m w where mw: "mw = (m, w)" by (cases mw)
    show ?thesis
      unfolding register_turn_def Pair Inl mw Let_def prod.case sum.case chan_inv_park
      by (rule register_turn_parked_inv [OF inv]) (simp add: Pair Inl mw)
  next
    case (Inr x)
    have "chan_inv (set_request (ch\<lparr>queue := q\<rparr>) i (r\<lparr>rq_phase := Writing\<rparr>))"
      by (rule register_turn_registered_inv [OF inv]) (simp add: Pair Inr)
    then show ?thesis
      unfolding register_turn_def Pair Inr Let_def prod.case sum.case
      by (cases "report_bytes (rq_msg r)") simp_all
  qed
qed

text \<open>Dropping the pending entry of a request that leaves flight in the same step.\<close>

lemma stale_ok_owed:
  assumes "entry_ok ch m" and "pm_id m = i" and "requests ch i = Some r" and "same_request r r'"
    and "requests ch' i = Some r'"
  shows "stale_ok ch' \<lparr>sk_key = pm_key m, sk_request = pm_request m, sk_predicate = pm_predicate m,
      sk_outstanding = n, sk_expires = t\<rparr>"
  using assms unfolding stale_ok_def
  by (intro exI [of _ i] exI [of _ r']) (auto simp: entry_ok_def entry_of_def same_request_def)

lemma abandon_cases:
  assumes "abandon q i now = (q', ws)"
  obtains (absent) "i \<notin> pm_id ` set (messages q)" "q' = q" "ws = []"
  | (present) us m vs where "messages q = us @ m # vs" "pm_id m = i"
      "q' = owe_replies (q\<lparr>messages := us @ vs\<rparr>) m (pm_extra_replies m + 1) now\<lparr>key_waiters := []\<rparr>"
      "ws = key_waiters q"
proof (cases "position (\<lambda>m. pm_id m = i) (messages q)")
  case None
  then have "i \<notin> pm_id ` set (messages q)" by (auto simp: position_None)
  then show ?thesis by (rule absent) (use None assms in \<open>simp_all add: abandon_def\<close>)
next
  case (Some pos)
  then obtain us m vs where q: "messages q = us @ m # vs" "pos = length us" "pm_id m = i"
    by (rule messages_split)
  show ?thesis
  proof (rule present [OF q(1,3)])
    show "q' = owe_replies (q\<lparr>messages := us @ vs\<rparr>) m (pm_extra_replies m + 1) now\<lparr>key_waiters := []\<rparr>"
      using assms Some q by (simp add: abandon_def Let_def wake_key_waiters_def)
    show "ws = key_waiters q"
      using assms Some q by (simp add: abandon_def Let_def wake_key_waiters_def owe_replies_def)
  qed
qed

lemma abandon_inv_ids:
  assumes "queue_inv q" and "abandon q i now = (q', ws)"
  shows "queue_inv q'" and "set (messages q') = {m \<in> set (messages q). pm_id m \<noteq> i}"
    and "\<And>s. s \<in> set (stale q') \<Longrightarrow> s \<in> set (stale q) \<or> (\<exists>m \<in> set (messages q). pm_id m = i
      \<and> sk_key s = pm_key m \<and> sk_predicate s = pm_predicate m)"
proof -
  show "queue_inv q'" using abandon_inv [OF assms(1), of i now] assms(2) by simp
  from assms(2) show "set (messages q') = {m \<in> set (messages q). pm_id m \<noteq> i}"
  proof (cases rule: abandon_cases)
    case absent
    then show ?thesis by auto
  next
    case (present us m vs)
    have "distinct (map pm_id (us @ m # vs))"
      using assms(1) unfolding queue_inv_def present(1) by simp
    then have "\<forall>x \<in> set us \<union> set vs. pm_id x \<noteq> i"
      using present(2) by (force simp: image_iff)
    moreover have "set (messages q') = set us \<union> set vs"
      unfolding present(3) by (simp add: owe_replies_def)
    ultimately show ?thesis unfolding present(1) using present(2) by auto
  qed
  fix s assume "s \<in> set (stale q')"
  with assms(2) show "s \<in> set (stale q) \<or> (\<exists>m \<in> set (messages q). pm_id m = i
      \<and> sk_key s = pm_key m \<and> sk_predicate s = pm_predicate m)"
    by (cases rule: abandon_cases) (auto simp: owe_replies_def)
qed

lemma stale_ok_wake: "stale_ok ch s \<Longrightarrow> stale_ok (wake_requests ws ch) s"
  by (fastforce simp: stale_ok_def)

lemma stale_ok_cong: "stale_ok ch s \<Longrightarrow> requests ch' = requests ch \<Longrightarrow> sk_key s' = sk_key s \<Longrightarrow>
    sk_predicate s' = sk_predicate s \<Longrightarrow> stale_ok ch' s'"
  by (auto simp: stale_ok_def)

lemma stale_ok_of_entry: "entry_ok ch m \<Longrightarrow> sk_key s = pm_key m \<Longrightarrow> sk_predicate s = pm_predicate m \<Longrightarrow>
    stale_ok ch s"
  by (auto simp: entry_ok_def stale_ok_def entry_of_def)

text \<open>
  A step in which one request leaves flight: its entry goes, other requests are at most woken,
  and every stale entry stands for some request.
\<close>

lemma leave_flight_inv:
  assumes inv: "chan_inv ch" and r: "requests ch i = Some r" "same_request r r'"
    and out: "\<not> in_flight r'" and ok: "request_ok ch i r'" and qi: "queue_inv (queue c)"
    and msgs: "set (messages (queue c)) = {m \<in> set (messages (queue ch)). pm_id m \<noteq> i}"
    and stale: "\<And>s. s \<in> set (stale (queue c)) \<Longrightarrow> stale_ok ch s"
    and pid: "pending_message_id c = pending_message_id ch"
    and reqs: "requests c = (\<lambda>j. map_option (wake_phase W) (requests ch j))(i \<mapsto> r')"
  shows "chan_inv c"
proof (rule chan_invI)
  show "queue_inv (queue c)" by (rule qi)
next
  fix m assume "m \<in> set (messages (queue c))"
  then have m: "m \<in> set (messages (queue ch))" "pm_id m \<noteq> i" using msgs by auto
  from chan_inv_entry [OF inv m(1)] show "entry_ok c m"
    using m(2) by (auto simp: entry_ok_def reqs)
next
  fix s assume "s \<in> set (stale (queue c))"
  then have "stale_ok ch s" by (rule stale)
  then obtain j x where x: "requests ch j = Some x" "sk_key s = header (rq_msg x)"
      "sk_predicate s = rq_predicate x"
    unfolding stale_ok_def by blast
  show "stale_ok c s"
  proof (cases "j = i")
    case True
    with x r show ?thesis
      unfolding stale_ok_def by (intro exI [of _ i] exI [of _ r']) (simp add: reqs same_request_def)
  next
    case False
    with x show ?thesis
      unfolding stale_ok_def by (intro exI [of _ j] exI [of _ "wake_phase W x"]) (simp add: reqs)
  qed
next
  fix j x assume x: "requests c j = Some x"
  show "request_ok c j x"
  proof (cases "j = i")
    case True
    with x ok out show ?thesis by (simp add: request_ok_def reqs pid)
  next
    case False
    with x obtain y where y: "requests ch j = Some y" "x = wake_phase W y"
      by (auto simp: reqs)
    have ids: "j \<in> pm_id ` set (messages (queue c))" if "j \<in> pm_id ` set (messages (queue ch))"
      using that False msgs by force
    show ?thesis
      using chan_inv_request [OF inv y(1)] ids unfolding y(2) request_ok_def pid by simp
  qed
qed

lemma drop_pending_inv:
  assumes inv: "chan_inv ch" and r: "requests ch i = Some r" "same_request r r'"
    and out: "\<not> in_flight r'" and ok: "request_ok ch i r'"
  shows "chan_inv (set_request (drop_pending ch i) i r')"
proof (cases "abandon (queue ch) i (clock ch)")
  case (Pair q ws)
  note ab = abandon_inv_ids [OF chan_inv_queue [OF inv] Pair]
  show ?thesis
  proof (rule leave_flight_inv [OF inv r out ok])
    show "stale_ok ch s" if "s \<in> set (stale (queue (set_request (drop_pending ch i) i r')))" for s
    proof -
      from that have "s \<in> set (stale q)" by (simp add: drop_pending_def Pair)
      from ab(3) [OF this] show ?thesis
        by (blast intro: chan_inv_stale [OF inv] chan_inv_entry [OF inv] stale_ok_of_entry)
    qed
    show "requests (set_request (drop_pending ch i) i r')
        = (\<lambda>j. map_option (wake_phase (set ws)) (requests ch j))(i \<mapsto> r')"
      by (simp add: drop_pending_def Pair fun_eq_iff)
  qed (use ab in \<open>simp_all add: drop_pending_def Pair\<close>)
qed

lemma finish_inv:
  assumes "chan_inv ch" and "requests ch i = Some r"
    and "\<And>x. c = Response x \<Longrightarrow> accepted r x"
  shows "chan_inv (finish ch i r c)"
  unfolding finish_def chan_inv_observe
proof (rule drop_pending_inv [OF assms(1,2)])
  show "request_ok ch i (r\<lparr>rq_phase := Finished c\<rparr>)"
    using chan_inv_request [OF assms(1,2)] assms(3)
    by (auto simp: request_ok_def in_flight_def unregistered_def accepted_def)
qed (simp_all add: same_request_def in_flight_def)

lemma cancel_inv:
  assumes "chan_inv ch" and "requests ch i = Some r"
  shows "chan_inv (cancel ch i r)"
  unfolding cancel_def chan_inv_observe
proof (rule drop_pending_inv [OF assms(1,2)])
  show "request_ok ch i (r\<lparr>rq_phase := Dropped\<rparr>)"
    using chan_inv_request [OF assms(1,2)]
    by (auto simp: request_ok_def in_flight_def unregistered_def accepted_def)
qed (simp_all add: same_request_def in_flight_def)

lemma normalize_wf: "wf_msg msg \<Longrightarrow> wf_msg (normalize_outgoing ch msg)"
  using wf_widened [of msg]
  by (auto simp del: widened.simps wf_msg.simps simp: normalize_outgoing_def split: HidppMessage.splits)

lemma submit_inv:
  assumes inv: "chan_inv ch" and wf: "wf_msg msg" and sub: "submit ch msg p timeout ab wt = Inr ch'"
  shows "chan_inv ch'"
proof -
  define i where "i = pending_message_id ch"
  from sub obtain r where ch': "ch' = set_request (ch\<lparr>pending_message_id := i + 1\<rparr>) i r"
    and r: "wf_msg (rq_msg r)" "rq_phase r = Registering" "rq_reply r = None"
    using normalize_wf [OF wf, of ch] by (auto simp: submit_def Let_def i_def split: if_splits)
  have new: "requests ch i = None"
  proof (cases "requests ch i")
    case (Some x)
    with chan_inv_request [OF inv Some] show ?thesis by (simp add: request_ok_def i_def)
  qed
  show ?thesis
  proof (rule chan_invI)
    show "queue_inv (queue ch')" using chan_inv_queue [OF inv] by (simp add: ch')
  next
    fix m assume "m \<in> set (messages (queue ch'))"
    then have e: "entry_ok ch m" using chan_inv_entry [OF inv] by (simp add: ch')
    then have "pm_id m \<noteq> i" using new by (auto simp: entry_ok_def)
    with e show "entry_ok ch' m" by (simp add: entry_ok_def ch')
  next
    fix s assume "s \<in> set (stale (queue ch'))"
    then have "stale_ok ch s" using chan_inv_stale [OF inv] by (simp add: ch')
    then obtain j x where x: "requests ch j = Some x" "sk_key s = header (rq_msg x)"
        "sk_predicate s = rq_predicate x"
      unfolding stale_ok_def by blast
    with new have "j \<noteq> i" by auto
    with x show "stale_ok ch' s"
      unfolding stale_ok_def by (intro exI [of _ j] exI [of _ x]) (simp add: ch')
  next
    fix j x assume x: "requests ch' j = Some x"
    show "request_ok ch' j x"
    proof (cases "j = i")
      case True
      with x r show ?thesis by (simp add: ch' request_ok_def in_flight_def)
    next
      case False
      with x have ok: "request_ok ch j x" by (intro chan_inv_request [OF inv]) (simp add: ch')
      show ?thesis by (rule request_ok_queue [OF ok]) (simp_all add: ch' i_def)
    qed
  qed
qed

lemma discard_cases:
  assumes "discard_stale_reply q msg = (b, q', ws)"
  shows "messages q' = messages q \<and> (\<forall>s' \<in> set (stale q'). \<exists>s \<in> set (stale q). sk_key s' = sk_key s
      \<and> sk_predicate s' = sk_predicate s)
    \<and> (ws = [] \<and> key_waiters q' = key_waiters q \<or> ws = key_waiters q \<and> key_waiters q' = [])"
proof (cases "position (\<lambda>s. sk_predicate s msg) (stale q)")
  case None
  with assms show ?thesis by (auto simp: discard_stale_reply_def)
next
  case (Some pos)
  from position_Some_split [OF Some] obtain us s vs where q: "stale q = us @ s # vs" "pos = length us"
    by blast
  with assms Some show ?thesis
    by (auto simp: discard_stale_reply_def Let_def wake_key_waiters_def list_update_append
        split: if_splits)
qed

lemma resolve_cases:
  assumes "resolve_report q msg now = (a, st, q', ws)"
  obtains (answered) us m vs where "messages q = us @ m # vs" "pm_predicate m msg" "a = Some m"
      "messages q' = us @ vs" "ws = key_waiters q" "key_waiters q' = []"
      "\<And>s. s \<in> set (stale q') \<Longrightarrow> s \<in> set (stale q) \<or> sk_key s = pm_key m \<and> sk_predicate s = pm_predicate m"
  | (unanswered) "a = None" "discard_stale_reply q msg = (st, q', ws)"
proof (cases "position (\<lambda>m. pm_predicate m msg) (messages q)")
  case None
  show ?thesis by (rule unanswered) (use None assms in \<open>simp_all add: resolve_report_def\<close>)
next
  case (Some pos)
  then obtain us m vs where q: "messages q = us @ m # vs" "pos = length us" "pm_predicate m msg"
    by (rule messages_split)
  show ?thesis
    by (rule answered [OF q(1,3)])
      (use Some q assms in \<open>auto simp: resolve_report_def Let_def wake_key_waiters_def
        owe_replies_def split: if_splits\<close>)
qed

lemma read_turn_answered_inv:
  assumes inv: "chan_inv ch" and wf: "wf_msg msg"
    and res: "resolve_report (queue ch) msg (clock ch) = (Some m, st, q, ws)"
  shows "chan_inv (wake_requests ws (deliver (ch\<lparr>queue := q\<rparr>) (pm_id m) msg))"
  using res
proof (cases rule: resolve_cases)
  case (answered us m' vs)
  have m: "m' = m" "m \<in> set (messages (queue ch))" using answered(1,3) by auto
  from chan_inv_entry [OF inv m(2)] obtain r
    where r: "requests ch (pm_id m) = Some r" "in_flight r" "entry_of m r"
    by (auto simp: entry_ok_def)
  let ?r' = "r\<lparr>rq_reply := Some msg\<rparr>"
  show ?thesis
  proof (rule leave_flight_inv [OF inv r(1)])
    show "request_ok ch (pm_id m) ?r'"
      using chan_inv_request [OF inv r(1)] r(2,3) answered(2) m wf
      by (auto simp: request_ok_def in_flight_def unregistered_def accepted_def entry_of_def)
    show "queue_inv (queue (wake_requests ws (deliver (ch\<lparr>queue := q\<rparr>) (pm_id m) msg)))"
      using resolve_report_inv [OF chan_inv_queue [OF inv] res] by (simp add: deliver_def)
    have "distinct (map pm_id (us @ m # vs))"
      using chan_inv_queue [OF inv] answered(1) m by (simp add: queue_inv_def)
    then have "\<forall>x \<in> set us \<union> set vs. pm_id x \<noteq> pm_id m" by (force simp: image_iff)
    then show "set (messages (queue (wake_requests ws (deliver (ch\<lparr>queue := q\<rparr>) (pm_id m) msg))))
        = {x \<in> set (messages (queue ch)). pm_id x \<noteq> pm_id m}"
      using answered(1,4) m by (auto simp: deliver_def)
    show "stale_ok ch s"
      if "s \<in> set (stale (queue (wake_requests ws (deliver (ch\<lparr>queue := q\<rparr>) (pm_id m) msg))))" for s
    proof -
      from that have "s \<in> set (stale q)" by (simp add: deliver_def)
      from answered(7) [OF this] m show ?thesis
        by (blast intro: chan_inv_stale [OF inv] chan_inv_entry [OF inv] stale_ok_of_entry)
    qed
    show "requests (wake_requests ws (deliver (ch\<lparr>queue := q\<rparr>) (pm_id m) msg))
        = (\<lambda>j. map_option (wake_phase (set ws)) (requests ch j))(pm_id m \<mapsto> ?r')"
      using r(1,2) by (auto simp: deliver_def fun_eq_iff wake_phase_def in_flight_def)
  qed (simp_all add: same_request_def in_flight_def deliver_def)
qed simp

lemma read_turn_inv: "chan_inv ch \<Longrightarrow> chan_inv (read_turn ch bytes)"
proof -
  assume inv: "chan_inv ch"
  show ?thesis
  proof (cases "read_raw bytes")
    case None
    with inv show ?thesis by (simp add: read_turn_def)
  next
    case (Some msg)
    then have wf: "wf_msg msg" by (simp add: read_raw_wf)
    obtain a st q ws where res: "resolve_report (queue ch) msg (clock ch) = (a, st, q, ws)"
      by (metis prod_cases4)
    show ?thesis
    proof (cases a)
      case (Some m)
      with read_turn_answered_inv [OF inv wf] res \<open>read_raw bytes = Some msg\<close> show ?thesis
        by (simp add: read_turn_def Let_def)
    next
      case None
      with res have d: "discard_stale_reply (queue ch) msg = (st, q, ws)"
        by (cases rule: resolve_cases) simp_all
      note dc = discard_cases [OF d]
      have "chan_inv (ch\<lparr>queue := q\<rparr>)"
      proof (rule chan_invI)
        show "queue_inv (queue (ch\<lparr>queue := q\<rparr>))"
          using discard_stale_reply_inv [OF chan_inv_queue [OF inv], of msg] d by simp
        show "entry_ok (ch\<lparr>queue := q\<rparr>) m" if "m \<in> set (messages (queue (ch\<lparr>queue := q\<rparr>)))" for m
          using chan_inv_entry [OF inv, of m] that dc by (simp add: entry_ok_def)
        show "stale_ok (ch\<lparr>queue := q\<rparr>) s" if "s \<in> set (stale (queue (ch\<lparr>queue := q\<rparr>)))" for s
        proof -
          from that dc obtain s0 where "s0 \<in> set (stale (queue ch))" "sk_key s = sk_key s0"
            "sk_predicate s = sk_predicate s0" by auto
          with chan_inv_stale [OF inv] show ?thesis by (simp add: stale_ok_def)
        qed
        show "request_ok (ch\<lparr>queue := q\<rparr>) i r" if "requests (ch\<lparr>queue := q\<rparr>) i = Some r" for i r
          using chan_inv_request [OF inv, of i r] that dc by (simp add: request_ok_def)
      qed
      with None res \<open>read_raw bytes = Some msg\<close> show ?thesis
        by (simp add: read_turn_def Let_def chan_inv_wake)
    qed
  qed
qed

lemma on_requestE:
  assumes "on_request ch i f = Some ch'"
  obtains r where "requests ch i = Some r" "f r = Some ch'"
  using assms by (auto simp: on_request_def bind_eq_Some_conv)

lemma grace_inv:
  assumes "chan_inv ch" and "requests ch i = Some r" and "rq_phase r = Parked h u"
  shows "chan_inv (set_request ch i (r\<lparr>rq_phase := Registering\<rparr>))"
  using assms chan_inv_request [OF assms(1,2)]
  by (intro chan_inv_set_request)
    (auto simp: same_request_def in_flight_def request_ok_def unregistered_def accepted_def)

lemma write_done_inv:
  assumes "chan_inv ch" and "requests ch i = Some r" and "rq_phase r = Writing"
  shows "chan_inv (write_done ch i r)"
  unfolding write_done_def using assms chan_inv_request [OF assms(1,2)]
  by (intro chan_inv_set_request)
    (auto simp: same_request_def in_flight_def request_ok_def unregistered_def accepted_def)

theorem chan_step_inv:
  assumes inv: "chan_inv ch" and st: "chan_step ch e = Some ch'"
  shows "chan_inv ch'"
proof (cases e)
  case (Submit msg p timeout ab wt)
  with st show ?thesis by (auto split: if_splits sum.splits intro: submit_inv [OF inv])
next
  case (RegisterTurn i)
  with st show ?thesis by (auto elim!: on_requestE split: if_splits intro: register_turn_inv [OF inv])
next
  case (GraceElapsed i)
  with st show ?thesis
    by (auto elim!: on_requestE split: if_splits phase.splits option.splits intro: grace_inv [OF inv])
next
  case (WriteOk i)
  with st show ?thesis by (auto elim!: on_requestE split: if_splits intro: write_done_inv [OF inv])
next
  case (WriteErr i err)
  with st show ?thesis by (auto elim!: on_requestE split: if_splits intro: finish_inv [OF inv])
next
  case (ReportIn bytes)
  with st show ?thesis by (auto intro: read_turn_inv [OF inv])
next
  case (Receive i)
  with st obtain r x where r: "requests ch i = Some r" "rq_reply r = Some x" "ch' = finish ch i r (Response x)"
    by (auto elim!: on_requestE split: if_splits)
  then show ?thesis
    using chan_inv_request [OF inv r(1)] by (auto intro!: finish_inv [OF inv] simp: request_ok_def)
next
  case (DeadlineElapsed i)
  with st show ?thesis
    by (auto elim!: on_requestE split: if_splits option.splits intro: finish_inv [OF inv])
next
  case (Cancel i)
  with st show ?thesis by (auto elim!: on_requestE split: if_splits intro: cancel_inv [OF inv])
next
  case (Tick d)
  with st inv show ?thesis by auto
qed

lemma chan_inv_new: "chan_init ch \<Longrightarrow> chan_inv ch"
  by (auto simp: chan_init_def from_raw_channel_def new_channel_def chan_inv_def queue_inv_empty
      split: if_splits) (simp_all add: empty_queue_def)

interpretation chan: invariant_system chan_init chan_step chan_inv
  by unfold_locales (auto intro: chan_inv_new chan_step_inv)

section \<open>No lost wake-up\<close>

lemma wake_all:
  assumes "no_lost_wake ch" and "requests ch j = Some x"
  shows "rq_phase (wake_phase (set (key_waiters (queue ch))) x) \<noteq> Parked h None"
  using assms by (auto simp: no_lost_wake_def wake_phase_def split: phase.splits if_splits)

lemma no_lost_wake_set:
  assumes "no_lost_wake ch" and "\<And>h. rq_phase r \<noteq> Parked h None"
  shows "no_lost_wake (set_request ch i r)"
  using assms by (auto simp: no_lost_wake_def split: if_splits)

lemma wake_phase_empty [simp]: "wake_phase {} r = r"
  by (simp add: wake_phase_def split: phase.splits)

lemma wake_requests_nil [simp]: "wake_requests [] ch = ch"
  by (simp add: wake_requests_def option.map_ident_strong)

lemma drop_pending_wake:
  assumes nlw: "no_lost_wake ch" and r: "\<And>h. rq_phase r \<noteq> Parked h None"
  shows "no_lost_wake (set_request (drop_pending ch i) i r)"
proof (cases "abandon (queue ch) i (clock ch)")
  case (Pair q ws)
  from Pair show ?thesis
  proof (cases rule: abandon_cases)
    case absent
    have "drop_pending ch i = ch"
      using absent(2,3) Pair by (simp add: drop_pending_def)
    then show ?thesis by (simp add: no_lost_wake_set [OF nlw r])
  next
    case (present us m vs)
    then show ?thesis
      using r wake_all [OF nlw] Pair
      by (auto simp: no_lost_wake_def drop_pending_def split: if_splits)
  qed
qed

lemma no_lost_wake_observe [simp]: "no_lost_wake (observe ob ch) = no_lost_wake ch"
  by (simp add: no_lost_wake_def)

lemma read_turn_wake:
  assumes nlw: "no_lost_wake ch"
  shows "no_lost_wake (read_turn ch bytes)"
proof (cases "read_raw bytes")
  case None
  with nlw show ?thesis by (simp add: read_turn_def)
next
  case (Some msg)
  obtain a st q ws where res: "resolve_report (queue ch) msg (clock ch) = (a, st, q, ws)"
    by (metis prod_cases4)
  have full: "no_lost_wake (read_turn ch bytes)" if ws: "ws = key_waiters (queue ch)"
  proof -
    have "rq_phase x \<noteq> Parked h None" if "requests (read_turn ch bytes) j = Some x" for j x h
      using that Some res ws wake_all [OF nlw]
      by (fastforce simp: read_turn_def Let_def deliver_def wake_phase_def
          split: option.splits if_splits phase.splits)
    then show ?thesis by (simp add: no_lost_wake_def)
  qed
  from res show ?thesis
  proof (cases rule: resolve_cases)
    case answered
    then show ?thesis by (simp add: full)
  next
    case unanswered
    from discard_cases [OF unanswered(2)] show ?thesis
    proof (elim conjE disjE)
      assume "messages q = messages (queue ch)" "ws = []" "key_waiters q = key_waiters (queue ch)"
      with nlw Some res unanswered(1) show ?thesis
        by (simp add: read_turn_def) (simp add: no_lost_wake_def)
    qed (simp add: full)
  qed
qed

lemma register_turn_wake:
  assumes nlw: "no_lost_wake ch" and r: "requests ch i = Some r"
  shows "no_lost_wake (register_turn ch i r)"
proof (cases "try_register (queue ch) (pending_of i r) (clock ch)")
  case (Pair q res)
  then show ?thesis
  proof (cases rule: try_register_cases)
    case (in_flight p)
    then have "header (rq_msg r) \<in> pm_key ` set (messages (queue ch))"
      by (intro rev_image_eqI [of p]) (simp_all add: pending_of_def)
    with in_flight(3,4) show ?thesis
      using nlw Pair by (simp add: register_turn_def no_lost_wake_def Let_def)
  next
    case quarantined
    then show ?thesis
      using nlw Pair by (simp add: register_turn_def no_lost_wake_def Let_def)
  next
    case registered
    then show ?thesis
      using nlw Pair
      by (fastforce simp: register_turn_def no_lost_wake_def Let_def split: if_splits option.splits)
  qed
qed

lemma submit_wake:
  "no_lost_wake ch \<Longrightarrow> submit ch msg p timeout ab wt = Inr ch' \<Longrightarrow> no_lost_wake ch'"
  by (auto simp: submit_def Let_def no_lost_wake_def split: if_splits)

lemma chan_step_wake:
  assumes nlw: "no_lost_wake ch" and st: "chan_step ch e = Some ch'"
  shows "no_lost_wake ch'"
proof (cases e)
  case (Submit msg p timeout ab wt)
  with st show ?thesis by (auto split: if_splits sum.splits intro: submit_wake [OF nlw])
next
  case (RegisterTurn i)
  with st show ?thesis by (auto elim!: on_requestE split: if_splits intro: register_turn_wake [OF nlw])
next
  case (GraceElapsed i)
  with st show ?thesis
    by (auto elim!: on_requestE split: if_splits phase.splits option.splits
        intro!: no_lost_wake_set [OF nlw])
next
  case (WriteOk i)
  with st show ?thesis
    by (auto elim!: on_requestE split: if_splits simp: write_done_def intro!: no_lost_wake_set [OF nlw])
next
  case (WriteErr i err)
  with st show ?thesis
    by (auto elim!: on_requestE split: if_splits simp: finish_def intro!: drop_pending_wake [OF nlw])
next
  case (ReportIn bytes)
  with st show ?thesis by (auto intro: read_turn_wake [OF nlw])
next
  case (Receive i)
  with st show ?thesis
    by (auto elim!: on_requestE split: if_splits simp: finish_def intro!: drop_pending_wake [OF nlw])
next
  case (DeadlineElapsed i)
  with st show ?thesis
    by (auto elim!: on_requestE split: if_splits option.splits simp: finish_def
        intro!: drop_pending_wake [OF nlw])
next
  case (Cancel i)
  with st show ?thesis
    by (auto elim!: on_requestE split: if_splits simp: cancel_def intro!: drop_pending_wake [OF nlw])
next
  case (Tick d)
  with st nlw show ?thesis by (auto simp: no_lost_wake_def)
qed

interpretation chan_wake: invariant_system chan_init chan_step no_lost_wake
proof
  show "no_lost_wake ch" if "chan_init ch" for ch
    using that
    by (auto simp: chan_init_def from_raw_channel_def new_channel_def no_lost_wake_def split: if_splits)
qed (rule chan_step_wake)

section \<open>How long a key stays reserved\<close>

definition grace_bounded :: "HidppChannel \<Rightarrow> bool" where
  "grace_bounded ch \<longleftrightarrow> (\<forall>s \<in> set (stale (queue ch)). sk_expires s \<le> clock ch + STALE_REPLY_GRACE)
     \<and> (\<forall>i r h u. requests ch i = Some r \<longrightarrow> rq_phase r = Parked h (Some u) \<longrightarrow>
          u \<le> clock ch + STALE_REPLY_GRACE)"

lemma grace_bounded_later:
  assumes "grace_bounded ch" and "clock ch \<le> clock c"
    and "\<And>s. s \<in> set (stale (queue c)) \<Longrightarrow> sk_expires s \<le> clock c + STALE_REPLY_GRACE"
    and "\<And>i r h u. requests c i = Some r \<Longrightarrow> rq_phase r = Parked h (Some u) \<Longrightarrow>
      (\<exists>r0. requests ch i = Some r0 \<and> rq_phase r0 = Parked h (Some u))
      \<or> u \<le> clock c + STALE_REPLY_GRACE"
  shows "grace_bounded c"
proof -
  have "u \<le> clock c + STALE_REPLY_GRACE"
    if "requests c i = Some r" "rq_phase r = Parked h (Some u)" for i r h u
    using assms(4) [OF that] assms(1,2) unfolding grace_bounded_def
    by (meson add_le_mono1 le_trans)
  with assms(3) show ?thesis unfolding grace_bounded_def by blast
qed

lemma abandon_expires:
  assumes "abandon q i now = (q', ws)" and "s \<in> set (stale q')"
  shows "s \<in> set (stale q) \<or> sk_expires s = now + STALE_REPLY_GRACE"
  using assms(1)
  by (cases rule: abandon_cases) (use assms(2) in \<open>auto simp: owe_replies_def\<close>)

lemma discard_expires:
  assumes "discard_stale_reply q msg = (b, q', ws)" and "s \<in> set (stale q')"
  shows "\<exists>s0 \<in> set (stale q). sk_expires s = sk_expires s0"
proof (cases "position (\<lambda>s. sk_predicate s msg) (stale q)")
  case None
  with assms show ?thesis by (auto simp: discard_stale_reply_def)
next
  case (Some pos)
  from position_Some_split [OF Some] obtain us t vs where q: "stale q = us @ t # vs" "pos = length us"
    by blast
  with assms Some show ?thesis
    by (auto simp: discard_stale_reply_def Let_def wake_key_waiters_def list_update_append
        split: if_splits)
qed

lemma resolve_expires:
  assumes "resolve_report q msg now = (a, st, q', ws)" and "s \<in> set (stale q')"
  shows "(\<exists>s0 \<in> set (stale q). sk_expires s = sk_expires s0) \<or> sk_expires s = now + STALE_REPLY_GRACE"
proof (cases "position (\<lambda>m. pm_predicate m msg) (messages q)")
  case None
  with assms have "discard_stale_reply q msg = (st, q', ws)" by (simp add: resolve_report_def)
  from discard_expires [OF this assms(2)] show ?thesis by blast
next
  case (Some pos)
  with assms show ?thesis
    by (auto simp: resolve_report_def Let_def wake_key_waiters_def owe_replies_def split: if_splits)
qed

lemma stale_bound_keep:
  assumes "grace_bounded ch" and "s0 \<in> set (stale (queue ch))" and "clock ch \<le> t"
  shows "sk_expires s0 \<le> t + STALE_REPLY_GRACE"
  using assms unfolding grace_bounded_def by (meson add_le_mono1 le_trans)

lemma parked_wake: "rq_phase (wake_phase W r) = Parked h u \<Longrightarrow> rq_phase r = Parked h u"
  using wake_phase_cases [of W r] by auto

lemma grace_bounded_set:
  assumes "grace_bounded ch" and "\<And>h u. rq_phase r = Parked h (Some u) \<Longrightarrow> u \<le> clock ch + STALE_REPLY_GRACE"
  shows "grace_bounded (set_request ch i r)"
  using assms by (auto simp: grace_bounded_def split: if_splits)

lemma grace_bounded_drop:
  assumes gb: "grace_bounded ch" and r: "\<And>h u. rq_phase r \<noteq> Parked h u"
  shows "grace_bounded (set_request (drop_pending ch i) i r)"
proof (rule grace_bounded_set)
  obtain q ws where ab: "abandon (queue ch) i (clock ch) = (q, ws)" by (metis prod.exhaust)
  show "grace_bounded (drop_pending ch i)"
  proof (rule grace_bounded_later [OF gb])
    fix s assume "s \<in> set (stale (queue (drop_pending ch i)))"
    then have "s \<in> set (stale q)" by (simp add: drop_pending_def ab)
    from abandon_expires [OF ab this] show "sk_expires s \<le> clock (drop_pending ch i) + STALE_REPLY_GRACE"
      using stale_bound_keep [OF gb] by (auto simp: drop_pending_def ab)
  qed (auto simp: drop_pending_def ab dest: parked_wake)
qed (use r in auto)

lemma grace_bounded_register:
  assumes gb: "grace_bounded ch" and r: "requests ch i = Some r"
  shows "grace_bounded (register_turn ch i r)"
proof (cases "try_register (queue ch) (pending_of i r) (clock ch)")
  case (Pair q res)
  then show ?thesis
  proof (cases rule: try_register_cases)
    case in_flight
    then show ?thesis
      using gb Pair by (simp add: register_turn_def grace_bounded_def Let_def)
  next
    case (quarantined s)
    then have "sk_expires s \<le> clock ch + STALE_REPLY_GRACE"
      using stale_bound_keep [OF gb, of s "clock ch"] by simp
    with quarantined(6,7) show ?thesis
      using gb Pair by (simp add: register_turn_def grace_bounded_def Let_def)
  next
    case registered
    then show ?thesis
      using gb Pair
      by (auto simp: register_turn_def grace_bounded_def Let_def split: option.splits)
  qed
qed

lemma grace_bounded_read:
  assumes gb: "grace_bounded ch"
  shows "grace_bounded (read_turn ch bytes)"
proof (cases "read_raw bytes")
  case None
  with gb show ?thesis by (simp add: read_turn_def grace_bounded_def)
next
  case (Some msg)
  obtain a st q ws where res: "resolve_report (queue ch) msg (clock ch) = (a, st, q, ws)"
    by (metis prod_cases4)
  have sel: "queue (read_turn ch bytes) = q" "clock (read_turn ch bytes) = clock ch"
    using Some res by (auto simp: read_turn_def Let_def deliver_def split: option.splits)
  show ?thesis
  proof (rule grace_bounded_later [OF gb])
    fix s assume "s \<in> set (stale (queue (read_turn ch bytes)))"
    then have "s \<in> set (stale q)" by (simp add: sel)
    from resolve_expires [OF res this] show "sk_expires s \<le> clock (read_turn ch bytes) + STALE_REPLY_GRACE"
      using stale_bound_keep [OF gb] by (auto simp: sel)
  next
    fix i r h u assume "requests (read_turn ch bytes) i = Some r" "rq_phase r = Parked h (Some u)"
    then show "(\<exists>r0. requests ch i = Some r0 \<and> rq_phase r0 = Parked h (Some u))
        \<or> u \<le> clock (read_turn ch bytes) + STALE_REPLY_GRACE"
      using Some res
      by (auto simp: read_turn_def Let_def deliver_def split: option.splits if_splits dest!: parked_wake)
  qed (simp add: sel)
qed

lemma grace_bounded_submit:
  "grace_bounded ch \<Longrightarrow> submit ch msg p timeout ab wt = Inr ch' \<Longrightarrow> grace_bounded ch'"
  by (auto simp: submit_def Let_def grace_bounded_def split: if_splits)

lemma grace_bounded_observe [simp]: "grace_bounded (observe ob ch) = grace_bounded ch"
  by (simp add: grace_bounded_def)

lemma chan_step_grace:
  assumes gb: "grace_bounded ch" and st: "chan_step ch e = Some ch'"
  shows "grace_bounded ch'"
proof (cases e)
  case (Submit msg p timeout ab wt)
  with st show ?thesis by (auto split: if_splits sum.splits intro: grace_bounded_submit [OF gb])
next
  case (RegisterTurn i)
  with st show ?thesis by (auto elim!: on_requestE split: if_splits intro: grace_bounded_register [OF gb])
next
  case (GraceElapsed i)
  with st show ?thesis
    by (auto elim!: on_requestE split: if_splits phase.splits option.splits
        intro!: grace_bounded_set [OF gb])
next
  case (WriteOk i)
  with st show ?thesis
    by (auto elim!: on_requestE split: if_splits simp: write_done_def intro!: grace_bounded_set [OF gb])
next
  case (WriteErr i err)
  with st show ?thesis
    by (auto elim!: on_requestE split: if_splits simp: finish_def intro!: grace_bounded_drop [OF gb])
next
  case (ReportIn bytes)
  with st show ?thesis by (auto intro: grace_bounded_read [OF gb])
next
  case (Receive i)
  with st show ?thesis
    by (auto elim!: on_requestE split: if_splits simp: finish_def intro!: grace_bounded_drop [OF gb])
next
  case (DeadlineElapsed i)
  with st show ?thesis
    by (auto elim!: on_requestE split: if_splits option.splits simp: finish_def
        intro!: grace_bounded_drop [OF gb])
next
  case (Cancel i)
  with st show ?thesis
    by (auto elim!: on_requestE split: if_splits simp: cancel_def intro!: grace_bounded_drop [OF gb])
next
  case (Tick d)
  with st have ch': "ch' = ch\<lparr>clock := clock ch + d\<rparr>" by simp
  show ?thesis
    by (rule grace_bounded_later [OF gb]) (auto simp: ch' intro: stale_bound_keep [OF gb])
qed

interpretation chan_grace: invariant_system chan_init chan_step grace_bounded
proof
  show "grace_bounded ch" if "chan_init ch" for ch
    using that
    by (auto simp: chan_init_def from_raw_channel_def new_channel_def grace_bounded_def
        empty_queue_def split: if_splits)
qed (rule chan_step_grace)

section \<open>One outcome per request\<close>

definition outcomes_of :: "nat \<Rightarrow> ChannelObservation list \<Rightarrow> RequestOutcome list" where
  "outcomes_of i obs =
     concat (map (\<lambda>ob. case ob of OutcomeObserved j oc \<Rightarrow> if j = i then [oc] else [] | _ \<Rightarrow> []) obs)"

definition final_outcome :: "phase \<Rightarrow> RequestOutcome list" where
  "final_outcome ph =
     (case ph of Finished c \<Rightarrow> [completion_outcome c] | Dropped \<Rightarrow> [O_Cancelled] | _ \<Rightarrow> [])"

definition outcomes_once :: "HidppChannel \<Rightarrow> bool" where
  "outcomes_once ch \<longleftrightarrow> (\<forall>i. outcomes_of i (observed ch) =
     (case requests ch i of None \<Rightarrow> [] | Some r \<Rightarrow> final_outcome (rq_phase r)))
   \<and> (\<forall>i \<ge> pending_message_id ch. requests ch i = None)"

lemma outcomes_of_append [simp]: "outcomes_of i (xs @ ys) = outcomes_of i xs @ outcomes_of i ys"
  by (simp add: outcomes_of_def)

lemma outcomes_of_single [simp]:
  "outcomes_of i [OutcomeObserved j oc] = (if j = i then [oc] else [])"
  "outcomes_of i [OutgoingReport a b] = []" "outcomes_of i [IncomingReport a b] = []"
  "outcomes_of i [MalformedIncomingReport b] = []" "outcomes_of i [ForeignIncomingReport b] = []"
  by (simp_all add: outcomes_of_def)

lemma final_outcome_wake [simp]: "final_outcome (rq_phase (wake_phase W r)) = final_outcome (rq_phase r)"
  using wake_phase_cases [of W r] by (auto simp: final_outcome_def)

lemma final_outcome_live: "live ph \<Longrightarrow> final_outcome ph = []"
  by (auto simp: live_def final_outcome_def split: phase.splits)

lemma outcomes_wake: "outcomes_once ch \<Longrightarrow> outcomes_once (wake_requests ws ch)"
  by (auto simp: outcomes_once_def split: option.splits)

lemma outcomes_queue [simp]: "outcomes_once (ch\<lparr>queue := q\<rparr>) = outcomes_once ch"
  by (simp add: outcomes_once_def)

lemma outcomes_drop: "outcomes_once ch \<Longrightarrow> outcomes_once (drop_pending ch i)"
  by (auto simp: drop_pending_def intro: outcomes_wake split: prod.splits)

lemma outcomes_set:
  "outcomes_once ch \<Longrightarrow> requests ch i = Some r \<Longrightarrow>
     final_outcome (rq_phase r') = final_outcome (rq_phase r) \<Longrightarrow> outcomes_once (set_request ch i r')"
  by (auto simp: outcomes_once_def split: option.splits)

lemma outcomes_end:
  assumes "outcomes_once ch" and "requests ch i = Some r" and "live (rq_phase r)"
    and "final_outcome (rq_phase r') = [oc]"
  shows "outcomes_once (observe (OutcomeObserved i oc) (set_request (drop_pending ch i) i r'))"
proof -
  obtain q ws where "abandon (queue ch) i (clock ch) = (q, ws)" by (metis prod.exhaust)
  then have "requests (drop_pending ch i) i = Some (wake_phase (set ws) r)"
    using assms(2) by (simp add: drop_pending_def)
  with outcomes_drop [OF assms(1), of i] assms(3,4) show ?thesis
    by (auto simp: outcomes_once_def final_outcome_live split: option.splits)
qed

lemma outcomes_read: "outcomes_once ch \<Longrightarrow> outcomes_once (read_turn ch bytes)"
proof -
  assume once: "outcomes_once ch"
  have ob: "outcomes_once (observe ob c)" if "outcomes_once c" "\<And>i. outcomes_of i [ob] = []" for ob c
    using that by (simp add: outcomes_once_def)
  have dl: "outcomes_once (deliver c i msg)" if "outcomes_once c" for c i msg
    using that by (auto simp: outcomes_once_def deliver_def split: option.splits)
  show ?thesis
    unfolding read_turn_def Let_def
    by (auto split: option.splits prod.splits intro!: ob outcomes_wake dl simp: once)
qed

lemma outcomes_register:
  assumes "outcomes_once ch" and "requests ch i = Some r" and "rq_phase r = Registering"
  shows "outcomes_once (register_turn ch i r)"
proof -
  have ob: "outcomes_once (observe (OutgoingReport a b) c)" if "outcomes_once c" for a b c
    using that by (simp add: outcomes_once_def)
  have st: "outcomes_once (set_request (ch\<lparr>queue := q\<rparr>) i (r\<lparr>rq_phase := ph\<rparr>))"
    if "final_outcome ph = []" for q ph
    using that assms by (intro outcomes_set [of _ _ r]) (simp_all add: final_outcome_def)
  have wk: "outcomes_once (set_request (ch\<lparr>queue := q, next_waker := n\<rparr>) i x)
      = outcomes_once (set_request (ch\<lparr>queue := q\<rparr>) i x)" for q n x
    by (simp add: outcomes_once_def)
  show ?thesis
    unfolding register_turn_def Let_def
    by (auto split: option.splits prod.splits sum.splits intro!: ob st simp: wk final_outcome_def)
qed

lemma submit_InrD:
  assumes "submit ch msg p timeout ab wt = Inr ch'"
  obtains r where "ch' = set_request (ch\<lparr>pending_message_id := pending_message_id ch + 1\<rparr>) (pending_message_id ch) r"
    "rq_phase r = Registering"
  using assms by (auto simp: submit_def Let_def split: if_splits)

lemma outcomes_submit:
  assumes once: "outcomes_once ch" and "submit ch msg p timeout ab wt = Inr ch'"
  shows "outcomes_once ch'"
proof -
  let ?n = "pending_message_id ch"
  from assms(2) obtain r where ch': "ch' = set_request (ch\<lparr>pending_message_id := ?n + 1\<rparr>) ?n r"
    and r: "rq_phase r = Registering"
    by (rule submit_InrD)
  have "requests ch ?n = None" using once by (simp add: outcomes_once_def)
  moreover have "outcomes_of i (observed ch)
      = (case requests ch i of None \<Rightarrow> [] | Some r \<Rightarrow> final_outcome (rq_phase r))" for i
    using once by (simp add: outcomes_once_def)
  ultimately show ?thesis
    using once r by (auto simp: ch' outcomes_once_def final_outcome_def)
qed

lemma chan_step_outcomes:
  assumes once: "outcomes_once ch" and st: "chan_step ch e = Some ch'"
  shows "outcomes_once ch'"
proof (cases e)
  case (Submit msg p timeout ab wt)
  with st show ?thesis by (auto split: if_splits sum.splits intro: outcomes_submit [OF once])
next
  case (RegisterTurn i)
  with st show ?thesis by (auto elim!: on_requestE split: if_splits intro: outcomes_register [OF once])
next
  case (GraceElapsed i)
  with st show ?thesis
    by (auto elim!: on_requestE split: if_splits phase.splits option.splits
        intro!: outcomes_set [OF once] simp: final_outcome_def)
next
  case (WriteOk i)
  with st show ?thesis
    by (auto elim!: on_requestE split: if_splits simp: write_done_def final_outcome_def
        intro!: outcomes_set [OF once])
next
  case (WriteErr i err)
  with st show ?thesis
    by (auto elim!: on_requestE split: if_splits simp: finish_def final_outcome_def live_def
        intro!: outcomes_end [OF once])
next
  case (ReportIn bytes)
  with st show ?thesis by (auto intro: outcomes_read [OF once])
next
  case (Receive i)
  with st show ?thesis
    by (auto elim!: on_requestE split: if_splits simp: finish_def final_outcome_def live_def
        intro!: outcomes_end [OF once])
next
  case (DeadlineElapsed i)
  with st show ?thesis
    by (auto elim!: on_requestE split: if_splits option.splits simp: finish_def final_outcome_def
        intro!: outcomes_end [OF once])
next
  case (Cancel i)
  with st show ?thesis
    by (auto elim!: on_requestE split: if_splits simp: cancel_def final_outcome_def
        intro!: outcomes_end [OF once])
next
  case (Tick d)
  with st once show ?thesis by (auto simp: outcomes_once_def)
qed

interpretation chan_outcomes: invariant_system chan_init chan_step outcomes_once
proof
  show "outcomes_once ch" if "chan_init ch" for ch
    using that
    by (auto simp: chan_init_def from_raw_channel_def new_channel_def outcomes_once_def
        outcomes_of_def split: if_splits)
qed (rule chan_step_outcomes)

end
