(* ===== verification/Hidpp_Send.thy ===== *)
theory Hidpp_Send
  imports Hidpp_Channel_Inv
begin

text \<open>
  \<open>HidppChannel::send\<close> as its callers see it: a request and a reply predicate in, a reply or an
  error out. The interleaving with every other request, the transport and the clock is a schedule
  of channel events; \<open>channel_send\<close> submits the request after one schedule and plays a second
  one. The theory shows that this function has the contract \<open>request_channel\<close> that the register
  and feature functions rely on.
\<close>

definition send_result :: "HidppChannel \<Rightarrow> nat \<Rightarrow> ChannelError + HidppMessage" where
  "send_result ch i =
     (case requests ch i of
        None \<Rightarrow> Inl ChannelTimeout
      | Some r \<Rightarrow> (case rq_phase r of Finished c \<Rightarrow> finish_request c | _ \<Rightarrow> Inl ChannelTimeout))"

text \<open>
  A schedule that the channel does not admit, or that ends before the request does, gives the
  error of a caller whose wait was cut off.
\<close>

definition channel_send ::
  "bool \<times> bool \<Rightarrow> chan_event list \<Rightarrow> chan_event list \<Rightarrow> AbandonedReply \<Rightarrow> bool \<Rightarrow> send_fn" where
  "channel_send supports before after ab wt msg p =
     (case from_raw_channel supports of
        Inl e \<Rightarrow> Inl e
      | Inr ch0 \<Rightarrow>
          (case run chan_step ch0 before of
             None \<Rightarrow> Inl ChannelTimeout
           | Some ch1 \<Rightarrow>
               if \<not> wf_msg msg then Inl ChannelTimeout
               else case submit ch1 msg p SEND_RESPONSE_TIMEOUT ab wt of
                 Inl e \<Rightarrow> Inl e
               | Inr ch2 \<Rightarrow>
                   (case run chan_step ch2 after of
                      None \<Rightarrow> Inl ChannelTimeout
                    | Some ch3 \<Rightarrow> send_result ch3 (pending_message_id ch1))))"

section \<open>A request keeps its identity\<close>

definition keeps :: "HidppChannel \<Rightarrow> HidppChannel \<Rightarrow> bool" where
  "keeps c d \<longleftrightarrow> (\<forall>i r. requests c i = Some r \<longrightarrow> (\<exists>r'. requests d i = Some r' \<and> same_request r r'))"

lemma same_request_refl [simp]: "same_request r r"
  by (simp add: same_request_def)

lemma same_request_trans: "same_request a b \<Longrightarrow> same_request b c \<Longrightarrow> same_request a c"
  by (simp add: same_request_def)

lemma keeps_refl [simp]: "keeps c c"
  by (simp add: keeps_def)

lemma keeps_trans: "keeps a b \<Longrightarrow> keeps b c \<Longrightarrow> keeps a c"
  unfolding keeps_def by (meson same_request_trans)

lemma keeps_same: "requests d = requests c \<Longrightarrow> keeps c d"
  by (simp add: keeps_def)

lemma keeps_wake: "keeps c d \<Longrightarrow> keeps c (wake_requests ws d)"
  by (fastforce simp: keeps_def same_request_def)

lemma keeps_observe: "keeps c d \<Longrightarrow> keeps c (observe ob d)"
  by (simp add: keeps_def)

lemma keeps_set:
  assumes "keeps c d" and "requests c i = Some r" and "same_request r r'"
  shows "keeps c (set_request d i r')"
  using assms by (auto simp: keeps_def)

lemma keeps_drop: "keeps c (drop_pending c i)"
  by (simp add: drop_pending_def keeps_wake keeps_same split: prod.splits)

lemma deliver_requests: "requests (deliver d i m) j =
    map_option (\<lambda>r. if j = i then r\<lparr>rq_reply := Some m\<rparr> else r) (requests d j)"
  by (simp add: deliver_def option.map_ident)

lemma keeps_deliver: "keeps c d \<Longrightarrow> keeps c (deliver d i m)"
  unfolding keeps_def deliver_requests
  by (fastforce simp: same_request_def)

lemma fresh_id: "chan_inv c \<Longrightarrow> requests c (pending_message_id c) = None"
  using chan_inv_request [of c "pending_message_id c"]
  by (cases "requests c (pending_message_id c)") (auto simp: request_ok_def)

lemma keeps_submit:
  "chan_inv c \<Longrightarrow> submit c msg p t ab wt = Inr d \<Longrightarrow> keeps c d"
  using fresh_id [of c] by (auto simp: submit_def Let_def keeps_def split: if_splits)

lemma keeps_read: "keeps c (read_turn c bytes)"
  by (simp add: read_turn_def Let_def keeps_observe keeps_wake keeps_deliver keeps_same
      split: option.splits prod.splits)

lemma keeps_register: "requests c i = Some r \<Longrightarrow> keeps c (register_turn c i r)"
  by (simp add: register_turn_def Let_def same_request_def
      keeps_observe keeps_set [where r = r] keeps_same
      split: prod.splits sum.splits option.splits)

lemma keeps_step:
  assumes "chan_inv c" and "chan_step c e = Some d"
  shows "keeps c d"
proof (cases e)
  case (Submit msg p timeout ab wt)
  with assms show ?thesis
    by (auto intro: keeps_submit split: if_splits sum.splits)
next
  case (ReportIn bytes)
  with assms(2) show ?thesis by (auto intro: keeps_read)
next
  case (RegisterTurn i)
  with assms(2) show ?thesis by (auto elim!: on_requestE intro: keeps_register split: if_splits)
qed (use assms(2) in \<open>auto elim!: on_requestE
      simp: keeps_set keeps_observe keeps_drop keeps_same finish_def cancel_def write_done_def same_request_def
      split: if_splits option.splits phase.splits\<close>)

lemma keeps_run: "chan_inv c \<Longrightarrow> run chan_step c es = Some d \<Longrightarrow> keeps c d"
proof (induction es arbitrary: c)
  case (Cons e es)
  then obtain c' where c': "chan_step c e = Some c'" "run chan_step c' es = Some d"
    by (auto simp: bind_eq_Some_conv)
  then show ?case
    using Cons.IH chan_step_inv [OF Cons.prems(1) c'(1)] keeps_step [OF Cons.prems(1) c'(1)]
    by (blast intro: keeps_trans)
qed simp

section \<open>Requests whose replies carry their header\<close>

definition all_keyed :: "HidppChannel \<Rightarrow> bool" where
  "all_keyed ch \<longleftrightarrow> (\<forall>i r. requests ch i = Some r \<longrightarrow> keyed (header (rq_msg r)) (rq_predicate r))"

definition keyed_event :: "chan_event \<Rightarrow> bool" where
  "keyed_event e = (case e of Submit msg p _ _ _ \<Rightarrow> keyed (header msg) p | _ \<Rightarrow> True)"

lemma drop_pending_dom [simp]: "requests (drop_pending ch i) j = None \<longleftrightarrow> requests ch j = None"
  by (simp add: drop_pending_def split: prod.splits)

lemma read_turn_dom [simp]: "requests (read_turn ch bytes) j = None \<longleftrightarrow> requests ch j = None"
  by (simp add: read_turn_def Let_def deliver_requests split: option.splits prod.splits)

lemma register_turn_dom [simp]:
  "requests (register_turn ch i r) j = None \<longleftrightarrow> j \<noteq> i \<and> requests ch j = None"
  by (simp add: register_turn_def Let_def split: option.splits prod.splits sum.splits)

lemma step_dom:
  assumes "chan_step c e = Some d" and "\<And>msg p t ab wt. e \<noteq> Submit msg p t ab wt"
  shows "requests d j = None \<longleftrightarrow> requests c j = None"
proof (cases e)
  case (Submit msg p timeout ab wt)
  with assms(2) show ?thesis by blast
qed (use assms(1) in \<open>auto elim!: on_requestE simp: finish_def cancel_def write_done_def
      split: if_splits option.splits phase.splits\<close>)

lemma header_normalize [simp]: "wf_msg msg \<Longrightarrow> header (normalize_outgoing ch msg) = header msg"
  using header_widened [of msg]
  by (auto simp del: widened.simps simp: normalize_outgoing_def split: HidppMessage.splits)

lemma all_keyed_step:
  assumes inv: "chan_inv c" and k: "all_keyed c" and st: "chan_step c e = Some d" and e: "keyed_event e"
  shows "all_keyed d"
proof (cases "\<exists>msg p t ab wt. e = Submit msg p t ab wt")
  case True
  with st e k show ?thesis
    by (auto simp: all_keyed_def keyed_event_def submit_def Let_def split: if_splits sum.splits)
next
  case False
  then have dom: "requests d i = None \<longleftrightarrow> requests c i = None" for i using step_dom [OF st] by blast
  show ?thesis unfolding all_keyed_def
  proof (intro allI impI)
    fix i r' assume r': "requests d i = Some r'"
    with dom [of i] obtain r where r: "requests c i = Some r" by auto
    with r' keeps_step [OF inv st] have "same_request r r'"
      unfolding keeps_def by (metis option.inject)
    with k r show "keyed (header (rq_msg r')) (rq_predicate r')"
      by (auto simp: all_keyed_def same_request_def)
  qed
qed

lemma all_keyed_run:
  "chan_inv c \<Longrightarrow> all_keyed c \<Longrightarrow> list_all keyed_event es \<Longrightarrow> run chan_step c es = Some d \<Longrightarrow> all_keyed d"
proof (induction es arbitrary: c)
  case (Cons e es)
  then obtain c' where c': "chan_step c e = Some c'" "run chan_step c' es = Some d"
    by (auto simp: bind_eq_Some_conv)
  with Cons show ?case
    using chan_step_inv [OF Cons.prems(1) c'(1)] all_keyed_step [OF Cons.prems(1,2) c'(1)] by auto
qed simp

section \<open>The contract\<close>

lemma send_result_accepted:
  assumes "chan_inv ch" and "requests ch i = Some r" and "send_result ch i = Inr x"
  shows "accepted r x"
proof -
  from assms(2,3) obtain c where c: "rq_phase r = Finished c" "finish_request c = Inr x"
    by (auto simp: send_result_def split: phase.splits)
  then have "c = Response x" by (cases c) auto
  with c(1) chan_inv_request [OF assms(1,2)] show ?thesis by (simp add: request_ok_def)
qed

lemma channel_send_accepted:
  assumes "channel_send supports before after ab wt msg p = Inr x"
  shows "p x \<and> wf_msg x"
proof -
  from assms obtain ch0 ch1 ch2 ch3 where
      c0: "from_raw_channel supports = Inr ch0" and c1: "run chan_step ch0 before = Some ch1"
      and wf: "wf_msg msg" and c2: "submit ch1 msg p SEND_RESPONSE_TIMEOUT ab wt = Inr ch2"
      and c3: "run chan_step ch2 after = Some ch3"
      and res: "send_result ch3 (pending_message_id ch1) = Inr x"
    by (auto simp: channel_send_def split: sum.splits option.splits if_splits)
  have inv0: "chan_inv ch0" using c0 by (intro chan_inv_new) (unfold chan_init_def, rule exI)
  have inv1: "chan_inv ch1" using chan.run_inv [OF inv0 c1] .
  have inv2: "chan_inv ch2" using submit_inv [OF inv1 wf c2] .
  obtain r where r: "requests ch2 (pending_message_id ch1) = Some r" "rq_predicate r = p"
    using c2 by (auto simp: submit_def Let_def split: if_splits)
  then obtain r' where r': "requests ch3 (pending_message_id ch1) = Some r'" "same_request r r'"
    using keeps_run [OF inv2 c3] by (auto simp: keeps_def)
  have "accepted r' x"
    using send_result_accepted [OF chan.run_inv [OF inv2 c3] r'(1) res] .
  with r(2) r'(2) show ?thesis by (simp add: accepted_def same_request_def)
qed

interpretation sent: request_channel "channel_send supports before after ab wt"
  for supports before after ab wt
  by unfold_locales (auto dest: channel_send_accepted)

end
