(* ===== verification/Hidpp_Feature.thy ===== *)
theory Hidpp_Feature
  imports Hidpp_Send
begin

text \<open>
  HID++2.0 feature calls over the channel: \<^verbatim>\<open>protocol.rs\<close> (the version probe), the sending half
  of \<^verbatim>\<open>protocol/v20.rs\<close>, \<^verbatim>\<open>feature.rs\<close> (the endpoint every feature embeds and the filter of its
  event listener), \<^verbatim>\<open>feature/root.rs\<close> and \<^verbatim>\<open>feature/feature_set.rs\<close> of
  \<^verbatim>\<open>crates/openlogi-hidpp/src\<close>. A \<open>link\<close> gives, for the n-th request made through it, the outcome
  the channel has for that request; \<open>link_state\<close> counts the requests and carries the channel's
  software-id policy.
\<close>

type_synonym link = "nat \<Rightarrow> AbandonedReply \<Rightarrow> bool \<Rightarrow> send_fn"

record link_state =
  sw_policy :: SwIdPolicy
  calls :: nat

section \<open>Sending\<close>

definition send_v20_with ::
  "link \<Rightarrow> v20_message \<Rightarrow> AbandonedReply \<Rightarrow> link_state \<Rightarrow> (Hidpp20Error + v20_message) \<times> link_state" where
  "send_v20_with link msg abandoned st =
     (case link (calls st) abandoned False (v20_into msg) (v20_response_predicate (v20_header_of msg)) of
        Inl e \<Rightarrow> Inl (V20_Channel e)
      | Inr response \<Rightarrow> decode_v20_response response,
      st\<lparr>calls := calls st + 1\<rparr>)"

definition send_v20 ::
  "link \<Rightarrow> v20_message \<Rightarrow> link_state \<Rightarrow> (Hidpp20Error + v20_message) \<times> link_state" where
  "send_v20 link msg st = send_v20_with link msg Quarantine st"

definition send_v20_write_through ::
  "link \<Rightarrow> v20_message \<Rightarrow> (v20_message \<Rightarrow> bool) \<Rightarrow> link_state \<Rightarrow>
     (Hidpp20Error + v20_message) \<times> link_state" where
  "send_v20_write_through link msg matches_payload st =
     (case link (calls st) Quarantine True (v20_into msg)
             (v20_write_through_predicate (v20_header_of msg) matches_payload) of
        Inl e \<Rightarrow> Inl (V20_Channel e)
      | Inr response \<Rightarrow> decode_v20_response response,
      st\<lparr>calls := calls st + 1\<rparr>)"

section \<open>The version probe\<close>

datatype ProtocolVersion = V10 | V20 u8 u8

datatype WriteCompletion = Bounded | Drain

definition version_matches :: "u8 \<Rightarrow> v20_message \<Rightarrow> U4 \<Rightarrow> HidppMessage \<Rightarrow> bool" where
  "version_matches device msg sw_id resp \<longleftrightarrow>
     v20_header_of (v20_from resp) = v20_header_of msg
   \<or> (case v10_from resp of
        V10_Short h payload \<Rightarrow>
          v10_device_index h = device
        \<and> sub_id h = v10_message_type_code V10_Error
        \<and> payload ! 0 = 0x00
        \<and> payload ! 1 = combine (function_id (v20_header_of msg)) sw_id
      | V10_Long _ _ \<Rightarrow> False)"

definition version_of_reply :: "v20_message \<Rightarrow> HidppMessage \<Rightarrow> ProtocolVersion option" where
  "version_of_reply msg response =
     (let v20_msg = v20_from response in
      if v20_header_of v20_msg = v20_header_of msg
      then (let payload = v20_extend_payload v20_msg in Some (V20 (payload ! 0) (payload ! 1)))
      else case v10_from response of
             V10_Short _ payload \<Rightarrow>
               if payload ! 2 = v10_error_code V10_InvalidSubId then Some V10 else None
           | V10_Long _ _ \<Rightarrow> None)"

definition version_probe :: "u8 \<Rightarrow> U4 \<Rightarrow> v20_message" where
  "version_probe device sw_id =
     V20_Short \<lparr>device_index = device, feature_index = 0x00, function_id = from_lo 0x1,
                software_id = sw_id\<rparr> [0x00, 0x00, 0x00]"

definition determine_version_with ::
  "link \<Rightarrow> u8 \<Rightarrow> WriteCompletion \<Rightarrow> link_state \<Rightarrow>
     (ChannelError + ProtocolVersion option) \<times> link_state" where
  "determine_version_with link device completion st =
     (let (sw_id, policy) = get_sw_id (sw_policy st);
          msg = version_probe device sw_id in
      (case link (calls st) Quarantine (completion = Drain) (v20_into msg)
              (version_matches device msg sw_id) of
         Inl e \<Rightarrow> Inl e
       | Inr response \<Rightarrow> Inr (version_of_reply msg response),
       \<lparr>sw_policy = policy, calls = calls st + 1\<rparr>))"

section \<open>Endpoints\<close>

record FeatureEndpoint =
  ep_device_index :: u8
  ep_feature_index :: u8

definition ep_header :: "FeatureEndpoint \<Rightarrow> u8 \<Rightarrow> link_state \<Rightarrow> v20_header \<times> link_state" where
  "ep_header ep function st =
     (let (sw_id, policy) = get_sw_id (sw_policy st) in
      (\<lparr>device_index = ep_device_index ep, feature_index = ep_feature_index ep,
        function_id = from_lo function, software_id = sw_id\<rparr>,
       st\<lparr>sw_policy := policy\<rparr>))"

definition call_with ::
  "link \<Rightarrow> FeatureEndpoint \<Rightarrow> u8 \<Rightarrow> u8 list \<Rightarrow> AbandonedReply \<Rightarrow> link_state \<Rightarrow>
     (Hidpp20Error + v20_message) \<times> link_state" where
  "call_with link ep function args abandoned st =
     (let (h, st) = ep_header ep function st in send_v20_with link (V20_Short h args) abandoned st)"

definition call ::
  "link \<Rightarrow> FeatureEndpoint \<Rightarrow> u8 \<Rightarrow> u8 list \<Rightarrow> link_state \<Rightarrow> (Hidpp20Error + v20_message) \<times> link_state"
  where
  "call link ep function args st = call_with link ep function args Quarantine st"

definition call_write_through ::
  "link \<Rightarrow> FeatureEndpoint \<Rightarrow> u8 \<Rightarrow> u8 list \<Rightarrow> link_state \<Rightarrow> (Hidpp20Error + v20_message) \<times> link_state"
  where
  "call_write_through link ep function args st =
     (let (h, st) = ep_header ep function st in
      send_v20_write_through link (V20_Short h args) (\<lambda>_. True) st)"

definition call_long ::
  "link \<Rightarrow> FeatureEndpoint \<Rightarrow> u8 \<Rightarrow> u8 list \<Rightarrow> link_state \<Rightarrow> (Hidpp20Error + v20_message) \<times> link_state"
  where
  "call_long link ep function args st =
     (let (h, st) = ep_header ep function st in send_v20 link (V20_Long h args) st)"

definition call_echoed_write_through ::
  "link \<Rightarrow> FeatureEndpoint \<Rightarrow> u8 \<Rightarrow> u8 list \<Rightarrow> link_state \<Rightarrow> (Hidpp20Error + v20_message) \<times> link_state"
  where
  "call_echoed_write_through link ep function args st =
     (let (h, st) = ep_header ep function st in
      send_v20_write_through link (V20_Short h args)
        (\<lambda>response. take 3 (v20_extend_payload response) = args) st)"

definition call_long_write_through ::
  "link \<Rightarrow> FeatureEndpoint \<Rightarrow> u8 \<Rightarrow> u8 list \<Rightarrow> link_state \<Rightarrow> (Hidpp20Error + v20_message) \<times> link_state"
  where
  "call_long_write_through link ep function args st =
     (let (h, st) = ep_header ep function st in
      send_v20_write_through link (V20_Long h args) (\<lambda>_. True) st)"

section \<open>Inbound reports\<close>

datatype InboundReport = Broadcast v20_message | ForeignResponse v20_message

definition inbound_report ::
  "HidppMessage \<Rightarrow> bool \<Rightarrow> u8 \<Rightarrow> u8 \<Rightarrow> RequestSwIds \<Rightarrow> InboundReport option" where
  "inbound_report raw matched device feature own =
     (if matched then None
      else
        let msg = v20_from raw; h = v20_header_of msg in
        if device_index h \<noteq> device \<or> feature_index h \<noteq> feature then None
        else if to_lo (software_id h) = 0 then Some (Broadcast msg)
        else if sw_ids_contains own (software_id h) then None
        else Some (ForeignResponse msg))"

text \<open>\<open>DecodeEvent\<close> of a feature: its decoder, its minimum wire payload per sub-id and its
  decoder of foreign responses.\<close>

record 'e decode_event =
  de_decode :: "u8 \<Rightarrow> u8 list \<Rightarrow> 'e option"
  de_min_payload_len :: "u8 \<Rightarrow> nat"
  de_foreign :: "v20_message \<Rightarrow> 'e option"

definition decode_message :: "'e decode_event \<Rightarrow> v20_message \<Rightarrow> 'e option" where
  "decode_message d msg =
     (let sub = to_lo (function_id (v20_header_of msg)) in
      if v20_payload_len msg < de_min_payload_len d sub then None
      else de_decode d sub (v20_extend_payload msg))"

text \<open>The listener \<open>EventSource::attach\<close> registers: the event it emits for one report.\<close>

definition event_source ::
  "'e decode_event \<Rightarrow> u8 \<Rightarrow> u8 \<Rightarrow> RequestSwIds \<Rightarrow> HidppMessage \<Rightarrow> bool \<Rightarrow> 'e option" where
  "event_source d device feature own raw matched =
     (case inbound_report raw matched device feature own of
        Some (Broadcast msg) \<Rightarrow> decode_message d msg
      | Some (ForeignResponse response) \<Rightarrow> de_foreign d response
      | None \<Rightarrow> None)"

section \<open>Feature types\<close>

datatype FeatureType = FeatureType (ft_bits: u8)

definition FT_HIDDEN :: u8 where "FT_HIDDEN = push_bit 6 1"
definition FT_ENGINEERING :: u8 where "FT_ENGINEERING = push_bit 5 1"

definition ft_contains :: "FeatureType \<Rightarrow> u8 \<Rightarrow> bool" where
  "ft_contains t flag \<longleftrightarrow> ft_bits t AND flag = flag"

definition is_end_user_configurable :: "FeatureType \<Rightarrow> bool" where
  "is_end_user_configurable t \<longleftrightarrow> \<not> ft_contains t FT_HIDDEN \<and> \<not> ft_contains t FT_ENGINEERING"

section \<open>Root and FeatureSet\<close>

record root_FeatureInformation =
  rfi_index :: u8
  rfi_typ :: FeatureType
  rfi_version :: u8

record FeatureInformation =
  fi_id :: u16
  fi_typ :: FeatureType
  fi_version :: u8

definition root_endpoint :: "u8 \<Rightarrow> FeatureEndpoint" where
  "root_endpoint device = \<lparr>ep_device_index = device, ep_feature_index = 0\<rparr>"

definition root_get_feature ::
  "link \<Rightarrow> u8 \<Rightarrow> u16 \<Rightarrow> WriteCompletion \<Rightarrow> link_state \<Rightarrow>
     (Hidpp20Error + root_FeatureInformation option) \<times> link_state" where
  "root_get_feature link device fid completion st =
     (let args = u16_to_be_bytes fid @ [0] in
      case (case completion of
              Bounded \<Rightarrow> call link (root_endpoint device) 0 args st
            | Drain \<Rightarrow> call_write_through link (root_endpoint device) 0 args st) of
        (Inl e, st) \<Rightarrow> (Inl e, st)
      | (Inr response, st) \<Rightarrow>
          (let payload = v20_extend_payload response in
           if payload ! 0 = 0 then (Inr None, st)
           else (Inr (Some \<lparr>rfi_index = payload ! 0, rfi_typ = FeatureType (payload ! 1),
                           rfi_version = payload ! 2\<rparr>), st)))"

definition root_ping :: "link \<Rightarrow> u8 \<Rightarrow> u8 \<Rightarrow> link_state \<Rightarrow> (Hidpp20Error + u8) \<times> link_state" where
  "root_ping link device data st =
     (case call link (root_endpoint device) 1 [0x00, 0x00, data] st of
        (Inl e, st) \<Rightarrow> (Inl e, st)
      | (Inr response, st) \<Rightarrow> (Inr (v20_extend_payload response ! 2), st))"

definition feature_set_count ::
  "link \<Rightarrow> FeatureEndpoint \<Rightarrow> link_state \<Rightarrow> (Hidpp20Error + u8) \<times> link_state" where
  "feature_set_count link ep st =
     (case call_with link ep 0 [0, 0, 0] AdoptIdentical st of
        (Inl e, st) \<Rightarrow> (Inl e, st)
      | (Inr response, st) \<Rightarrow> (Inr (v20_extend_payload response ! 0), st))"

definition feature_set_get_feature ::
  "link \<Rightarrow> FeatureEndpoint \<Rightarrow> u8 \<Rightarrow> link_state \<Rightarrow> (Hidpp20Error + FeatureInformation) \<times> link_state"
  where
  "feature_set_get_feature link ep index st =
     (case call_with link ep 1 [index, 0x00, 0x00] AdoptIdentical st of
        (Inl e, st) \<Rightarrow> (Inl e, st)
      | (Inr response, st) \<Rightarrow>
          (let payload = v20_extend_payload response in
           (Inr \<lparr>fi_id = push_bit 8 (ucast (payload ! 0)) OR ucast (payload ! 1),
                 fi_typ = FeatureType (payload ! 2), fi_version = payload ! 3\<rparr>, st)))"

section \<open>What a reply means to the caller\<close>

context request_channel
begin

lemma v20_reply:
  assumes "send msg (v20_response_predicate h) = Inr r" and "decode_v20_response r = Inr m"
  shows "v20_header_of m = h \<and> wf_v20 m"
proof -
  from assms(2) have m: "m = v20_from r" "feature_index (v20_header_of (v20_from r)) \<noteq> 0xff"
    by (auto simp: decode_v20_response_def Let_def split: if_splits option.splits)
  with send_accepted [OF assms(1)] have "v20_header_of m = h"
    by (auto simp: v20_response_predicate_def Let_def is_error_for_def)
  moreover have "wf_v20 m" using m send_wf [OF assms(1)] by (simp add: wf_v20_from)
  ultimately show ?thesis by simp
qed

lemma v20_write_through_reply:
  assumes "send msg (v20_write_through_predicate h f) = Inr r" and "decode_v20_response r = Inr m"
  shows "v20_header_of m = h \<and> wf_v20 m \<and> f m"
proof -
  from assms(2) have m: "m = v20_from r" "feature_index (v20_header_of (v20_from r)) \<noteq> 0xff"
    by (auto simp: decode_v20_response_def Let_def split: if_splits option.splits)
  with send_accepted [OF assms(1)] have "v20_header_of m = h" "f m"
    by (auto simp: v20_write_through_predicate_def v20_response_predicate_def Let_def is_error_for_def)
  moreover have "wf_v20 m" using m send_wf [OF assms(1)] by (simp add: wf_v20_from)
  ultimately show ?thesis by simp
qed

lemma v20_reply_error:
  assumes "send msg (v20_response_predicate h) = Inr r" and "decode_v20_response r = Inl e"
    and "feature_index h \<noteq> 0xff"
  shows "feature_error_for (v20_from r) h = Some e"
proof -
  from assms(2) have "feature_index (v20_header_of (v20_from r)) = 0xff"
    by (auto simp: decode_v20_response_def Let_def split: if_splits)
  with send_accepted [OF assms(1)] assms(3) have "is_error_for (v20_from r) h"
    by (auto simp: v20_response_predicate_def Let_def)
  with decode_v20_response_error [OF this] assms(2) show ?thesis
    by (auto simp: feature_error_for_def)
qed

end

text \<open>A link all of whose requests have the channel's contract.\<close>

locale feature_link =
  fixes link :: link
  assumes link_channel: "request_channel (link k ab wt)"
begin

lemma send_v20_with_reply:
  assumes "send_v20_with link msg ab st = (Inr m, st')"
  shows "v20_header_of m = v20_header_of msg \<and> wf_v20 m"
  using assms request_channel.v20_reply [OF link_channel]
  by (auto simp: send_v20_with_def split: sum.splits)

lemma send_v20_with_error:
  assumes "send_v20_with link msg ab st = (Inl (V20_Feature e), st')"
    and "feature_index (v20_header_of msg) \<noteq> 0xff"
  shows "\<exists>r. is_error_for r (v20_header_of msg) \<and> v20_extend_payload r ! 1 = v20_error_code e"
proof -
  from assms(1) obtain r where r: "link (calls st) ab False (v20_into msg)
      (v20_response_predicate (v20_header_of msg)) = Inr r" "decode_v20_response r = Inl (V20_Feature e)"
    by (auto simp: send_v20_with_def split: sum.splits)
  from request_channel.v20_reply_error [OF link_channel r assms(2)]
  have "feature_error_for (v20_from r) (v20_header_of msg) = Some (V20_Feature e)" .
  then show ?thesis
    by (intro exI [of _ "v20_from r"])
      (auto simp: feature_error_for_def dest: v20_error_try_from_Some split: if_splits option.splits)
qed

lemma send_v20_write_through_reply:
  assumes "send_v20_write_through link msg f st = (Inr m, st')"
  shows "v20_header_of m = v20_header_of msg \<and> wf_v20 m \<and> f m"
proof -
  from assms obtain r where "link (calls st) Quarantine True (v20_into msg)
      (v20_write_through_predicate (v20_header_of msg) f) = Inr r" "decode_v20_response r = Inr m"
    by (auto simp: send_v20_write_through_def split: sum.splits)
  then show ?thesis by (rule request_channel.v20_write_through_reply [OF link_channel])
qed

lemma call_with_reply:
  assumes "call_with link ep fn args ab st = (Inr m, st')"
  shows "v20_header_of m = fst (ep_header ep fn st) \<and> wf_v20 m"
  using assms send_v20_with_reply by (auto simp: call_with_def split: prod.splits)

lemma call_echoed_reply:
  assumes "call_echoed_write_through link ep fn args st = (Inr m, st')"
  shows "v20_header_of m = fst (ep_header ep fn st) \<and> take 3 (v20_extend_payload m) = args"
proof -
  obtain h st1 where h: "ep_header ep fn st = (h, st1)" by (cases "ep_header ep fn st")
  with assms have "send_v20_write_through link (V20_Short h args)
      (\<lambda>response. take 3 (v20_extend_payload response) = args) st1 = (Inr m, st')"
    by (simp add: call_echoed_write_through_def)
  from send_v20_write_through_reply [OF this] h show ?thesis by simp
qed

lemma determine_version_reply:
  assumes "determine_version_with link device completion st = (Inr v, st')"
  obtains r where "wf_msg r"
    "version_matches device (version_probe device (fst (get_sw_id (sw_policy st))))
       (fst (get_sw_id (sw_policy st))) r"
    "v = version_of_reply (version_probe device (fst (get_sw_id (sw_policy st)))) r"
proof -
  define sw where "sw = fst (get_sw_id (sw_policy st))"
  from assms obtain r where r: "link (calls st) Quarantine (completion = Drain)
      (v20_into (version_probe device sw)) (version_matches device (version_probe device sw) sw) = Inr r"
      "v = version_of_reply (version_probe device sw) r"
    by (auto simp: determine_version_with_def Let_def sw_def split: prod.splits sum.splits)
  from request_channel.send_accepted [OF link_channel r(1)]
    request_channel.send_wf [OF link_channel r(1)] r(2) show ?thesis
    using that [of r] by (simp add: sw_def)
qed

end

text \<open>The link of the channel model: request \<open>k\<close> goes out after the history \<open>before k\<close> and is
  interleaved with \<open>after k\<close>.\<close>

definition channel_link ::
  "bool \<times> bool \<Rightarrow> (nat \<Rightarrow> chan_event list) \<Rightarrow> (nat \<Rightarrow> chan_event list) \<Rightarrow> link" where
  "channel_link supports before after k ab wt = channel_send supports (before k) (after k) ab wt"

interpretation channel_link: feature_link "channel_link supports before after"
  for supports before after
  by unfold_locales (auto simp: channel_link_def dest: channel_send_accepted)

section \<open>Software ids and the filter\<close>

definition wf_policy :: "SwIdPolicy \<Rightarrow> bool" where
  "wf_policy p = (case p of
      Fixed i \<Rightarrow> wf_u4 (sw_get i) \<and> to_lo (sw_get i) \<noteq> 0
    | Leased i \<Rightarrow> wf_u4 (sw_get i) \<and> to_lo (sw_get i) \<noteq> 0
    | Rotating n \<Rightarrow> n \<noteq> 0 \<and> n \<le> 0x0f)"

lemma request_sw_id_new_wf: "request_sw_id_new n = Some i \<Longrightarrow> wf_u4 n \<Longrightarrow> wf_policy (Fixed i)"
  by (auto simp: request_sw_id_new_def wf_policy_def split: if_splits)

text \<open>The ids a rotating policy hands out over its next requests.\<close>

fun issued :: "nat \<Rightarrow> SwIdPolicy \<Rightarrow> U4 list" where
  "issued 0 p = []"
| "issued (Suc n) p = (let (i, p') = get_sw_id p in i # issued n p')"

end
