(* ===== verification/Hidpp_Device.thy ===== *)
theory Hidpp_Device
  imports Hidpp_Feature
begin

text \<open>
  Devices on a channel: \<^verbatim>\<open>crates/openlogi-hidpp/src/device.rs\<close> and the table of
  \<^verbatim>\<open>feature/registry.rs\<close>. A feature implementation's \<open>TypeId\<close> is the name of its type and an
  instance is the endpoint it was bound to. Which of the attempts of \<open>read_feature_entry\<close> its
  per-attempt timer cuts off is the environment's choice: \<open>timer k\<close> for the link's k-th request.
\<close>

section \<open>The registry\<close>

type_synonym type_id = string
type_synonym FeatureVersion = "u8 \<times> type_id"
type_synonym KnownFeature = "string \<times> FeatureVersion list"

definition KNOWN_FEATURES :: "(u16 \<times> KnownFeature) list" where
  "KNOWN_FEATURES =
     [(0x0000, (''Root'', [(0, ''RootFeature'')])),
      (0x0001, (''FeatureSet'', [(0, ''FeatureSetFeature'')])),
      (0x0002, (''FeatureInfo'', [])),
      (0x0003, (''DeviceInformation'', [(0, ''DeviceInformationFeature'')])),
      (0x0004, (''UnitId'', [])),
      (0x0005, (''DeviceTypeAndName'', [(0, ''DeviceTypeAndNameFeature'')])),
      (0x0006, (''DeviceGroups'', [])),
      (0x0007, (''DeviceFriendlyName'', [(0, ''DeviceFriendlyNameFeature'')])),
      (0x0008, (''KeepAlive'', [])),
      (0x0020, (''ConfigChange'', [])),
      (0x0021, (''UniqueRandomId'', [])),
      (0x0030, (''TargetSoftware'', [])),
      (0x0080, (''WirelessSignalStrength'', [])),
      (0x00c0, (''DfuControlLegacy'', [])),
      (0x00c1, (''DfuControlUnsigned'', [])),
      (0x00c2, (''DfuControlSigned'', [])),
      (0x00c3, (''DfuControlBolt'', [])),
      (0x00d0, (''Dfu'', [])),
      (0x00d1, (''DfuResumable'', [])),
      (0x1000, (''BatteryStatus'', [(0, ''BatteryStatusFeature'')])),
      (0x1001, (''BatteryVoltage'', [(0, ''BatteryVoltageFeature'')])),
      (0x1004, (''UnifiedBattery'', [(0, ''UnifiedBatteryFeature'')])),
      (0x1010, (''ChargingControl'', [])),
      (0x1300, (''LedControl'', [(0, ''LedControlFeature'')])),
      (0x1800, (''GenericTest'', [])),
      (0x1802, (''DeviceReset'', [])),
      (0x1805, (''OobState'', [])),
      (0x1806, (''ConfigDeviceProps'', [])),
      (0x1814, (''ChangeHost'', [(0, ''ChangeHostFeature'')])),
      (0x1815, (''HostsInfo'', [(2, ''HostsInfoFeature'')])),
      (0x1981, (''Backlight1'', [])),
      (0x1982, (''Backlight2'', [(3, ''BacklightFeature'')])),
      (0x1983, (''Backlight3'', [])),
      (0x1990, (''Illumination'', [(0, ''IlluminationFeature'')])),
      (0x19b0, (''HapticFeedback'', [(0, ''HapticFeedbackFeature'')])),
      (0x19c0, (''ForceSensingButton'', [(0, ''ForceSensingButtonFeature'')])),
      (0x1a00, (''PresenterControl'', [])),
      (0x1a01, (''Sensor3D'', [])),
      (0x1b00, (''ReprogControls'', [])),
      (0x1b01, (''ReprogControls2'', [])),
      (0x1b02, (''ReprogControls3'', [])),
      (0x1b03, (''ReprogControls4'', [])),
      (0x1b04, (''ReprogControls5'', [(0, ''ReprogControlsFeature'')])),
      (0x1bc0, (''ReportHidUsages'', [])),
      (0x1c00, (''PersistentRemappableAction'', [(0, ''PersistentRemappableActionFeature'')])),
      (0x1d4b, (''WirelessDeviceStatus'', [(0, ''WirelessDeviceStatusFeature'')])),
      (0x1df0, (''RemainingPairings'', [])),
      (0x1f1f, (''FirmwareProperties'', [])),
      (0x1f20, (''AdcMeasurement'', [(0, ''AdcMeasurementFeature'')])),
      (0x2001, (''SwapLeftRightButton'', [])),
      (0x2005, (''ButtonSwapCancel'', [])),
      (0x2006, (''PointerAxesOrientation'', [])),
      (0x2100, (''VerticalScrolling'', [(0, ''VerticalScrollingFeature'')])),
      (0x2110, (''SmartShiftWheel'', [(0, ''SmartShiftFeature'')])),
      (0x2111, (''SmartShiftWheelEnhanced'', [(0, ''SmartShiftEnhancedFeature'')])),
      (0x2120, (''HighResolutionScrolling'', [])),
      (0x2121, (''HiResWheel'', [(0, ''HiResWheelFeature'')])),
      (0x2130, (''RatchetWheel'', [])),
      (0x2150, (''Thumbwheel'', [(0, ''ThumbwheelFeature'')])),
      (0x2200, (''MousePointer'', [(0, ''MousePointerFeature'')])),
      (0x2201, (''AdjustableDpi'', [(0, ''AdjustableDpiFeature'')])),
      (0x2202, (''ExtendedAdjustableDpi'', [(0, ''ExtendedDpiFeature'')])),
      (0x2205, (''PointerMotionScaling'', [(0, ''PointerMotionScalingFeature'')])),
      (0x2230, (''SensorAngleSnapping'', [])),
      (0x2240, (''SurfaceTuning'', [])),
      (0x2250, (''XyStats'', [])),
      (0x2251, (''WheelStats'', [])),
      (0x2400, (''HybridTrackingEngine'', [])),
      (0x40a0, (''FnInversion'', [(0, ''FnInversionFeature'')])),
      (0x40a2, (''FnInversionWithDefaultState'', [(0, ''FnInversionWithDefaultStateFeature'')])),
      (0x40a3, (''FnInversionForMultiHostDevices'', [(0, ''FnInversionMultiHostFeature'')])),
      (0x4100, (''Encryption'', [])),
      (0x4220, (''LockKeyState'', [(0, ''LockKeyStateFeature'')])),
      (0x4301, (''SolarKeyboardDashboard'', [(0, ''SolarDashboardFeature'')])),
      (0x4520, (''KeyboardLayout'', [])),
      (0x4521, (''DisableKeys'', [(0, ''DisableKeysFeature'')])),
      (0x4522, (''DisableKeysByUsage'', [(0, ''DisableKeysByUsageFeature'')])),
      (0x4530, (''DualPlatform'', [(0, ''DualPlatformFeature'')])),
      (0x4531, (''MultiPlatform'', [(1, ''MultiPlatformFeature'')])),
      (0x4540, (''KeyboardInternationalLayouts'', [])),
      (0x4600, (''Crown'', [(0, ''CrownFeature'')])),
      (0x6010, (''TouchpadFwItems'', [])),
      (0x6011, (''TouchpadSwItems'', [])),
      (0x6012, (''TouchpadWin8FwItems'', [])),
      (0x6020, (''TapEnable'', [])),
      (0x6021, (''TapEnableExtended'', [])),
      (0x6030, (''CursorBallistic'', [])),
      (0x6040, (''TouchpadResolutionDivider'', [])),
      (0x6100, (''TouchpadRawXy'', [(0, ''TouchpadRawXyFeature'')])),
      (0x6110, (''TouchMouseRawTouchPoints'', [(0, ''TouchMouseRawFeature'')])),
      (0x6120, (''BtTouchMouseSettings'', [])),
      (0x6500, (''Gestures1'', [])),
      (0x6501, (''Gestures2'', [(0, ''Gestures2Feature'')])),
      (0x8010, (''GamingGKeys'', [(0, ''GamingGKeysFeature'')])),
      (0x8020, (''GamingMKeys'', [])),
      (0x8030, (''MacroRecord'', [])),
      (0x8040, (''BrightnessControl'', [(1, ''BrightnessControlFeature'')])),
      (0x8060, (''AdjustableReportRate'', [(0, ''ReportRateFeature'')])),
      (0x8061, (''ExtendedAdjustableReportRate'', [(0, ''ExtendedReportRateFeature'')])),
      (0x8070, (''ColorLedEffects'', [(0, ''ColorLedEffectsFeature''), (1, ''ColorLedEffectsV1Feature'')])),
      (0x8071, (''RgbEffects'', [(0, ''RgbEffectsFeature'')])),
      (0x8080, (''PerKeyLighting'', [])),
      (0x8081, (''PerKeyLighting2'', [(0, ''PerKeyLightingFeature'')])),
      (0x8090, (''ModeStatus'', [(1, ''ModeStatusFeature'')])),
      (0x8100, (''OnboardProfiles'', [(0, ''OnboardProfilesFeature'')])),
      (0x8110, (''MouseButtonFilter'', [(0, ''MouseButtonSpyFeature'')])),
      (0x8111, (''LatencyMonitoring'', [])),
      (0x8120, (''GamingAttachments'', [])),
      (0x8123, (''ForceFeedback'', [])),
      (0x8300, (''Sidetone'', [(0, ''SidetoneFeature'')])),
      (0x8310, (''Equalizer'', [(2, ''EqualizerFeature'')])),
      (0x8320, (''HeadsetOut'', []))]"

definition lookup :: "u16 \<Rightarrow> KnownFeature option" where
  "lookup feature_id = map_of KNOWN_FEATURES feature_id"

definition lookup_version :: "u16 \<Rightarrow> u8 \<Rightarrow> FeatureVersion list option" where
  "lookup_version feature_id feature_version =
     map_option (\<lambda>feat. filter (\<lambda>ver. fst ver \<le> feature_version) (snd feat)) (lookup feature_id)"

text \<open>\<open>new_dyn\<close>: every implementation binds the index it is given, except the root feature, whose
  \<open>new\<close> ignores it.\<close>

definition new_dyn :: "type_id \<Rightarrow> u8 \<Rightarrow> u8 \<Rightarrow> type_id \<times> FeatureEndpoint" where
  "new_dyn ty device index =
     (ty, if ty = ''RootFeature'' then root_endpoint device
          else \<lparr>ep_device_index = device, ep_feature_index = index\<rparr>)"

section \<open>Devices\<close>

record Device =
  dev_features :: "type_id \<rightharpoonup> FeatureEndpoint"
  dev_index :: u8
  dev_version :: ProtocolVersion

datatype DeviceError = DE_Channel ChannelError | DE_DeviceNotFound | DE_UnsupportedProtocolVersion

definition insert_feature ::
  "(type_id \<rightharpoonup> FeatureEndpoint) \<Rightarrow> type_id \<times> FeatureEndpoint \<Rightarrow> type_id \<rightharpoonup> FeatureEndpoint" where
  "insert_feature fs f = fs(fst f \<mapsto> snd f)"

definition from_version :: "u8 \<Rightarrow> ProtocolVersion option \<Rightarrow> DeviceError + Device" where
  "from_version device version =
     (case version of
        None \<Rightarrow> Inl DE_DeviceNotFound
      | Some v \<Rightarrow>
          if v = V10 then Inl DE_UnsupportedProtocolVersion
          else Inr \<lparr>dev_features = insert_feature Map.empty (new_dyn ''RootFeature'' device 0),
                    dev_index = device, dev_version = v\<rparr>)"

definition device_new ::
  "link \<Rightarrow> u8 \<Rightarrow> WriteCompletion \<Rightarrow> link_state \<Rightarrow> (DeviceError + Device) \<times> link_state" where
  "device_new link device completion st =
     (case determine_version_with link device completion st of
        (Inl e, st) \<Rightarrow> (Inl (DE_Channel e), st)
      | (Inr v, st) \<Rightarrow> (from_version device v, st))"

definition add_feature :: "Device \<Rightarrow> type_id \<Rightarrow> u8 \<Rightarrow> Device" where
  "add_feature d ty index =
     d\<lparr>dev_features := insert_feature (dev_features d) (new_dyn ty (dev_index d) index)\<rparr>"

definition provides_feature :: "Device \<Rightarrow> type_id \<Rightarrow> bool" where
  "provides_feature d ty \<longleftrightarrow> dev_features d ty \<noteq> None"

definition get_feature :: "Device \<Rightarrow> type_id \<Rightarrow> FeatureEndpoint option" where
  "get_feature d ty = dev_features d ty"

section \<open>Reading the feature table\<close>

definition FEATURE_READ_ATTEMPTS :: nat where "FEATURE_READ_ATTEMPTS = 4"

text \<open>The loop over the attempts, with the number still to make and the last transport error.\<close>

fun read_attempts ::
  "link \<Rightarrow> (nat \<Rightarrow> bool) \<Rightarrow> FeatureEndpoint \<Rightarrow> u8 \<Rightarrow> nat \<Rightarrow> Hidpp20Error option \<Rightarrow> link_state \<Rightarrow>
     (Hidpp20Error + FeatureInformation) \<times> link_state" where
  "read_attempts link timer ep index 0 last_error st =
     (Inl (case last_error of None \<Rightarrow> V20_Channel ChannelTimeout | Some e \<Rightarrow> e), st)"
| "read_attempts link timer ep index (Suc n) last_error st =
     (case feature_set_get_feature link ep index st of
        (result, st') \<Rightarrow>
          if timer (calls st) then read_attempts link timer ep index n last_error st'
          else (case result of
                  Inr info \<Rightarrow> (Inr info, st')
                | Inl (V20_Feature e) \<Rightarrow> (Inl (V20_Feature e), st')
                | Inl V20_UnsupportedResponse \<Rightarrow> (Inl V20_UnsupportedResponse, st')
                | Inl (V20_Channel e) \<Rightarrow>
                    read_attempts link timer ep index n (Some (V20_Channel e)) st'))"

definition read_feature_entry ::
  "link \<Rightarrow> (nat \<Rightarrow> bool) \<Rightarrow> FeatureEndpoint \<Rightarrow> u8 \<Rightarrow> link_state \<Rightarrow>
     (Hidpp20Error + FeatureInformation) \<times> link_state" where
  "read_feature_entry link timer ep index st =
     read_attempts link timer ep index FEATURE_READ_ATTEMPTS None st"

text \<open>The body of the loop for one entry: the implementations the registry has for it.\<close>

definition install_entry :: "u8 \<Rightarrow> u8 \<Rightarrow> FeatureInformation \<Rightarrow> Device \<Rightarrow> Device" where
  "install_entry fs_index i info d =
     (if i = fs_index then d
      else case lookup_version (fi_id info) (fi_version info) of
             None \<Rightarrow> d
           | Some impls \<Rightarrow>
               d\<lparr>dev_features :=
                  fold (\<lambda>impl fs. insert_feature fs (new_dyn (snd impl) (dev_index d) i))
                    impls (dev_features d)\<rparr>)"

fun enumerate_from ::
  "link \<Rightarrow> (nat \<Rightarrow> bool) \<Rightarrow> FeatureEndpoint \<Rightarrow> u8 list \<Rightarrow> FeatureInformation list \<Rightarrow> Device \<Rightarrow>
     link_state \<Rightarrow> (Hidpp20Error + FeatureInformation list) \<times> Device \<times> link_state" where
  "enumerate_from link timer ep [] features d st = (Inr features, d, st)"
| "enumerate_from link timer ep (i # is) features d st =
     (case read_feature_entry link timer ep i st of
        (Inl e, st) \<Rightarrow> (Inl e, d, st)
      | (Inr info, st) \<Rightarrow>
          enumerate_from link timer ep is (features @ [info])
            (install_entry (ep_feature_index ep) i info d) st)"

text \<open>\<open>1..=count\<close>\<close>

definition table_slots :: "u8 \<Rightarrow> u8 list" where
  "table_slots count = map of_nat [1 ..< Suc (unat count)]"

definition enumerate_features ::
  "link \<Rightarrow> (nat \<Rightarrow> bool) \<Rightarrow> Device \<Rightarrow> link_state \<Rightarrow>
     (Hidpp20Error + FeatureInformation list option) \<times> Device \<times> link_state" where
  "enumerate_features link timer d st =
     (case root_get_feature link (dev_index d) 0x0001 Bounded st of
        (Inl e, st) \<Rightarrow> (Inl e, d, st)
      | (Inr None, st) \<Rightarrow> (Inr None, d, st)
      | (Inr (Some info), st) \<Rightarrow>
          (let d = add_feature d ''FeatureSetFeature'' (rfi_index info);
               ep = \<lparr>ep_device_index = dev_index d, ep_feature_index = rfi_index info\<rparr> in
           case feature_set_count link ep st of
             (Inl e, st) \<Rightarrow> (Inl e, d, st)
           | (Inr count, st) \<Rightarrow>
               (case enumerate_from link timer ep (table_slots count) [] d st of
                  (Inl e, d, st) \<Rightarrow> (Inl e, d, st)
                | (Inr features, d, st) \<Rightarrow> (Inr (Some features), d, st))))"

section \<open>Attempts\<close>

definition lost ::
  "link \<Rightarrow> (nat \<Rightarrow> bool) \<Rightarrow> FeatureEndpoint \<Rightarrow> u8 \<Rightarrow> link_state \<Rightarrow> bool" where
  "lost link timer ep index st \<longleftrightarrow>
     timer (calls st) \<or> (case fst (feature_set_get_feature link ep index st) of
                           Inl (V20_Channel _) \<Rightarrow> True | _ \<Rightarrow> False)"

fun after_attempts :: "link \<Rightarrow> FeatureEndpoint \<Rightarrow> u8 \<Rightarrow> nat \<Rightarrow> link_state \<Rightarrow> link_state" where
  "after_attempts link ep index 0 st = st"
| "after_attempts link ep index (Suc n) st =
     after_attempts link ep index n (snd (feature_set_get_feature link ep index st))"

lemma read_attempts_lost_step:
  assumes "lost link timer ep index st"
  shows "\<exists>e. (e = err \<or> (\<exists>c. e = Some (V20_Channel c))) \<and>
    read_attempts link timer ep index (Suc n) err st =
    read_attempts link timer ep index n e (snd (feature_set_get_feature link ep index st))"
proof (cases "feature_set_get_feature link ep index st")
  case (Pair result st')
  show ?thesis
  proof (cases "timer (calls st)")
    case True
    with Pair show ?thesis by auto
  next
    case False
    with assms Pair obtain c where "result = Inl (V20_Channel c)"
      by (auto simp: lost_def split: sum.splits Hidpp20Error.splits)
    with False Pair show ?thesis by auto
  qed
qed

lemma read_attempts_answered:
  assumes "\<forall>j < k. lost link timer ep index (after_attempts link ep index j st)"
    and "\<not> lost link timer ep index (after_attempts link ep index k st)" and "k < n"
  shows "read_attempts link timer ep index n err st =
    feature_set_get_feature link ep index (after_attempts link ep index k st)"
  using assms
proof (induction k arbitrary: n err st)
  case 0
  then obtain m where "n = Suc m" by (cases n) auto
  with 0 show ?case
    by (auto simp: lost_def split: prod.splits sum.splits Hidpp20Error.splits)
next
  case (Suc k)
  then obtain m where n: "n = Suc m" and m: "k < m" by (cases n) auto
  define st1 where "st1 = snd (feature_set_get_feature link ep index st)"
  have l0: "lost link timer ep index st" using Suc.prems(1) by (metis after_attempts.simps(1) zero_less_Suc)
  have "\<forall>j < k. lost link timer ep index (after_attempts link ep index j st1)"
    using Suc.prems(1) by (auto simp: st1_def dest: spec [of _ "Suc _"])
  with Suc.IH [of st1 m] Suc.prems(2) m
  have ih: "read_attempts link timer ep index m e st1 =
      feature_set_get_feature link ep index (after_attempts link ep index k st1)" for e
    by (simp add: st1_def)
  from read_attempts_lost_step [OF l0, of err m] ih show ?case
    by (auto simp: n st1_def simp del: read_attempts.simps)
qed

lemma read_attempts_lost:
  assumes "\<forall>j < n. lost link timer ep index (after_attempts link ep index j st)"
    and "\<And>e. err = Some e \<Longrightarrow> \<exists>c. e = V20_Channel c"
  shows "\<exists>c. read_attempts link timer ep index n err st =
    (Inl (V20_Channel c), after_attempts link ep index n st)"
  using assms
proof (induction n arbitrary: err st)
  case 0
  then show ?case by (cases err) auto
next
  case (Suc n)
  define st1 where "st1 = snd (feature_set_get_feature link ep index st)"
  have l0: "lost link timer ep index st" using Suc.prems(1) by (metis after_attempts.simps(1) zero_less_Suc)
  have "\<forall>j < n. lost link timer ep index (after_attempts link ep index j st1)"
    using Suc.prems(1) by (auto simp: st1_def dest: spec [of _ "Suc _"])
  note ih = Suc.IH [OF this]
  from read_attempts_lost_step [OF l0, of err n] obtain e
    where "e = err \<or> (\<exists>c. e = Some (V20_Channel c))"
      and "read_attempts link timer ep index (Suc n) err st = read_attempts link timer ep index n e st1"
    by (auto simp: st1_def)
  with ih [of e] Suc.prems(2) show ?case by (auto simp: st1_def)
qed

section \<open>Enumeration\<close>

text \<open>The registry has an implementation of this type for this table entry.\<close>

definition supported :: "FeatureInformation \<Rightarrow> type_id \<Rightarrow> bool" where
  "supported info ty =
     (case lookup_version (fi_id info) (fi_version info) of
        None \<Rightarrow> False | Some impls \<Rightarrow> ty \<in> snd ` set impls)"

lemma fold_insert_feature:
  "fold (\<lambda>impl fs. insert_feature fs (new_dyn (snd impl) dev i)) impls fs ty =
     (if ty \<in> snd ` set impls then Some (snd (new_dyn ty dev i)) else fs ty)"
  by (induction impls arbitrary: fs) (auto simp: insert_feature_def new_dyn_def)

lemma install_entry_features:
  "dev_features (install_entry fs_index i info d) ty =
     (if i \<noteq> fs_index \<and> supported info ty then Some (snd (new_dyn ty (dev_index d) i))
      else dev_features d ty)"
  by (auto simp: install_entry_def supported_def fold_insert_feature split: option.splits)

lemma install_entry_index [simp]: "dev_index (install_entry fs_index i info d) = dev_index d"
  by (simp add: install_entry_def split: option.splits)

lemma enumerate_from_ok:
  assumes "enumerate_from link timer ep is fs d st = (Inr fs', d', st')"
  shows "\<exists>infos. fs' = fs @ infos \<and> length infos = length is
    \<and> d' = fold (\<lambda>(i, info). install_entry (ep_feature_index ep) i info) (zip is infos) d"
  using assms
proof (induction "is" arbitrary: fs d st)
  case (Cons i "is")
  then obtain info st1 where "read_feature_entry link timer ep i st = (Inr info, st1)"
    and "enumerate_from link timer ep is (fs @ [info]) (install_entry (ep_feature_index ep) i info d) st1
      = (Inr fs', d', st')"
    by (auto split: prod.splits sum.splits)
  from Cons.IH [OF this(2)] obtain infos where "fs' = fs @ info # infos" "length infos = length is"
    "d' = fold (\<lambda>(i, info). install_entry (ep_feature_index ep) i info) (zip is infos)
      (install_entry (ep_feature_index ep) i info d)" by auto
  then show ?case by (intro exI [of _ "info # infos"]) simp
qed simp

lemma fold_install_index [simp]:
  "dev_index (fold (\<lambda>(i, info). install_entry fsi i info) es d) = dev_index d"
  by (induction es arbitrary: d) auto

lemma fold_install_sound:
  assumes "dev_features (fold (\<lambda>(i, info). install_entry fsi i info) es d) ty = Some e"
  shows "dev_features d ty = Some e \<or>
    (\<exists>(i, info) \<in> set es. i \<noteq> fsi \<and> supported info ty \<and> e = snd (new_dyn ty (dev_index d) i))"
  using assms
proof (induction es arbitrary: d)
  case (Cons x es)
  obtain i info where x: "x = (i, info)" by force
  from Cons.IH [of "install_entry fsi i info d"] Cons.prems show ?case
    by (auto simp: x install_entry_features split: if_splits)
qed simp

lemma fold_install_keeps:
  "dev_features d ty \<noteq> None \<Longrightarrow>
     dev_features (fold (\<lambda>(i, info). install_entry fsi i info) es d) ty \<noteq> None"
  by (induction es arbitrary: d) (auto simp: install_entry_features)

lemma fold_install_complete:
  assumes "(i, info) \<in> set es" and "i \<noteq> fsi" and "supported info ty"
  shows "dev_features (fold (\<lambda>(i, info). install_entry fsi i info) es d) ty \<noteq> None"
  using assms(1)
proof (induction es arbitrary: d)
  case (Cons x es)
  show ?case
  proof (cases "x = (i, info)")
    case True
    have "dev_features (install_entry fsi i info d) ty \<noteq> None"
      using assms(2,3) by (simp add: install_entry_features)
    from fold_install_keeps [OF this] True show ?thesis by simp
  qed (use Cons in auto)
qed simp

lemma length_table_slots [simp]: "length (table_slots count) = unat count"
  by (simp add: table_slots_def)

lemma table_slots_nth [simp]: "j < unat count \<Longrightarrow> table_slots count ! j = of_nat (j + 1)"
  by (simp add: table_slots_def nth_append del: upt_Suc)

lemma enumerate_features_cases:
  assumes "enumerate_features link timer d st = (Inr (Some infos), d', st')"
  obtains fsi where
    "map_option rfi_index (projr (fst (root_get_feature link (dev_index d) 0x0001 Bounded st))) = Some fsi"
    "length infos < 256"
    "dev_index d' = dev_index d"
    "d' = fold (\<lambda>(i, x). install_entry (fsi) i x)
       (zip (table_slots (of_nat (length infos))) infos)
       (add_feature d ''FeatureSetFeature'' (fsi))"
proof -
  from assms obtain info st1 count st2 where
      info: "root_get_feature link (dev_index d) 0x0001 Bounded st = (Inr (Some info), st1)"
    and count: "feature_set_count link \<lparr>ep_device_index = dev_index d,
        ep_feature_index = rfi_index info\<rparr> st1 = (Inr count, st2)"
    and walk: "enumerate_from link timer \<lparr>ep_device_index = dev_index d,
        ep_feature_index = rfi_index info\<rparr> (table_slots count) []
        (add_feature d ''FeatureSetFeature'' (rfi_index info)) st2 = (Inr infos, d', st')"
    by (auto simp: enumerate_features_def Let_def add_feature_def
        split: prod.splits sum.splits option.splits)
  from enumerate_from_ok [OF walk] have len: "length infos = unat count"
    and d': "d' = fold (\<lambda>(i, x). install_entry (rfi_index info) i x) (zip (table_slots count) infos)
      (add_feature d ''FeatureSetFeature'' (rfi_index info))" by auto
  have "unat count < 2 ^ LENGTH(8)" by (rule unsigned_less)
  then have "length infos < 256" using len by simp
  moreover have "dev_index d' = dev_index d" by (simp add: d' add_feature_def)
  moreover have "(of_nat (length infos) :: u8) = count" by (simp add: len)
  ultimately show ?thesis using that [of "rfi_index info"] d' info by simp
qed

end
