(* ===== verification/Hidpp_Properties.thy ===== *)
theory Hidpp_Properties
  imports Hidpp_Device "HOL-Library.Code_Target_Nat"
begin

text \<open>
  The correctness properties of the HID++ stack, from the bytes on the wire to the feature table
  of a device, each with an evaluated instance. The schedules of the instances are played by
  \<open>run chan_step\<close> on a channel that supports both report widths.
\<close>

section \<open>Shared facts\<close>

lemma reachable_keys:
  assumes "chan_reachable ch" and "requests ch i = Some r" and "in_flight r"
  obtains m where "m \<in> set (messages (queue ch))" "pm_id m = i" "entry_of m r"
proof -
  have inv: "chan_inv ch" using assms(1) by (rule chan.reachable_inv)
  from chan_inv_request [OF inv assms(2)] assms(3) obtain m
    where m: "m \<in> set (messages (queue ch))" "pm_id m = i" by (auto simp: request_ok_def)
  from chan_inv_entry [OF inv m(1)] m(2) assms(2) have "entry_of m r" by (auto simp: entry_ok_def)
  with m show ?thesis by (rule that)
qed

lemma reachable_queue_keyed:
  assumes "chan_reachable ch" and "all_keyed ch"
  shows "queue_keyed (queue ch)"
proof -
  have inv: "chan_inv ch" using assms(1) by (rule chan.reachable_inv)
  have "keyed (pm_key m) (pm_predicate m)" if "m \<in> set (messages (queue ch))" for m
    using chan_inv_entry [OF inv that] assms(2) by (auto simp: all_keyed_def entry_ok_def entry_of_def)
  moreover have "keyed (sk_key s) (sk_predicate s)" if "s \<in> set (stale (queue ch))" for s
    using chan_inv_stale [OF inv that] assms(2) by (auto simp: all_keyed_def stale_ok_def)
  ultimately show ?thesis by (simp add: queue_keyed_def)
qed

lemma reach_new: "run chan_step (new_channel a b) es = Some ch \<Longrightarrow> a \<or> b \<Longrightarrow> chan_reachable ch"
proof -
  assume run: "run chan_step (new_channel a b) es = Some ch" and ab: "a \<or> b"
  from ab have "from_raw_channel (a, b) = Inr (new_channel a b)" by (auto simp: from_raw_channel_def)
  then have "chan_init (new_channel a b)" unfolding chan_init_def by (rule exI)
  then show ?thesis by (rule reach_run [OF reach_init run])
qed

lemma run_the:
  "a \<or> b \<Longrightarrow> \<not> Option.is_none (run chan_step (new_channel a b) es) \<Longrightarrow>
     chan_reachable (the (run chan_step (new_channel a b) es))"
  by (cases "run chan_step (new_channel a b) es") (auto intro: reach_new)

text \<open>A request to feature 5 of device 1 and its reply, and the schedules built from them.\<close>

definition example_header :: "u8 \<Rightarrow> v20_header" where
  "example_header fn =
     \<lparr>device_index = 1, feature_index = 5, function_id = from_lo fn, software_id = from_lo 1\<rparr>"

definition example_request :: "u8 \<Rightarrow> HidppMessage" where
  "example_request fn = v20_into (V20_Short (example_header fn) [7, 8, 9])"

definition example_submit :: "u8 \<Rightarrow> AbandonedReply \<Rightarrow> chan_event" where
  "example_submit fn ab =
     Submit (example_request fn) (v20_response_predicate (example_header fn)) 5000 ab False"

definition example_reply :: "u8 \<Rightarrow> u8 list" where
  "example_reply fn = wire (v20_into (V20_Short (example_header fn) [1, 2, 3]))"

lemmas example_defs = example_header_def example_request_def example_submit_def example_reply_def

section \<open>Frames\<close>

text \<open>C8: A HID++2.0 message survives the wire: the bytes written for it are read back as the same
  message, and writing what was read from a report restores the report byte for byte.\<close>

theorem v20_wire_roundtrip:
  "(wf_v20 m \<longrightarrow> (\<exists>bytes. report_bytes (v20_into m) = Some bytes
      \<and> map_option v20_from (read_raw bytes) = Some m))
   \<and> (read_raw data = Some r \<longrightarrow> report_bytes (v20_into (v20_from r)) = Some data)"
proof (intro conjI impI)
  assume m: "wf_v20 m"
  then show "\<exists>bytes. report_bytes (v20_into m) = Some bytes \<and> map_option v20_from (read_raw bytes) = Some m"
    using v20_wire.stacked.dec_enc [OF m] report_bytes_wire [OF wf_v20_into [OF m]]
    by (auto simp: bind_eq_Some_conv map_option_case split: option.splits)
next
  assume r: "read_raw data = Some r"
  from read_raw_wf [OF r] have "wf_msg r" "wire r = data" by auto
  then show "report_bytes (v20_into (v20_from r)) = Some data"
    by (simp add: v20_into_from report_bytes_wire)
qed

theorem v20_wire_roundtrip_witness:
  "report_bytes (v20_into (V20_Short (example_header 3) [7, 8, 9])) = Some [0x10, 1, 5, 0x31, 7, 8, 9]
   \<and> map_option v20_from (read_raw [0x10, 1, 5, 0x31, 7, 8, 9])
       = Some (V20_Short (example_header 3) [7, 8, 9])"
proof -
  have b: "report_bytes (v20_into (V20_Short (example_header 3) [7, 8, 9]))
      = Some [0x10, 1, 5, 0x31, 7, 8, 9]" by code_simp
  have "wf_v20 (V20_Short (example_header 3) [7, 8, 9])" by code_simp
  with v20_wire_roundtrip [of "V20_Short (example_header 3) [7, 8, 9]"] b show ?thesis by auto
qed

text \<open>The same round trip for HID++1.0 register messages.\<close>

theorem v10_wire_roundtrip:
  "(wf_v10 m \<longrightarrow> (\<exists>bytes. report_bytes (v10_into m) = Some bytes
      \<and> map_option v10_from (read_raw bytes) = Some m))
   \<and> (read_raw data = Some r \<longrightarrow> report_bytes (v10_into (v10_from r)) = Some data)"
proof (intro conjI impI)
  assume m: "wf_v10 m"
  then show "\<exists>bytes. report_bytes (v10_into m) = Some bytes \<and> map_option v10_from (read_raw bytes) = Some m"
    using v10_wire.stacked.dec_enc [OF m] report_bytes_wire [OF wf_v10_into [OF m]]
    by (auto simp: bind_eq_Some_conv map_option_case split: option.splits)
next
  assume r: "read_raw data = Some r"
  from read_raw_wf [OF r] have "wf_msg r" "wire r = data" by auto
  then show "report_bytes (v10_into (v10_from r)) = Some data"
    by (simp add: v10_into_from report_bytes_wire)
qed

theorem v10_wire_roundtrip_witness:
  "report_bytes (v10_into (v10_from (Short [0xff, 0x81, 0xb5, 3, 0, 0])))
     = Some [0x10, 0xff, 0x81, 0xb5, 3, 0, 0]"
proof -
  have "read_raw [0x10, 0xff, 0x81, 0xb5, 3, 0, 0] = Some (Short [0xff, 0x81, 0xb5, 3, 0, 0])"
    by code_simp
  then show ?thesis
    using v10_wire_roundtrip [of undefined "[0x10, 0xff, 0x81, 0xb5, 3, 0, 0]"] by blast
qed

text \<open>No report answers two different HID++2.0 requests: when the reply predicates of two
  headers both accept it, the headers are equal, whether the report is a reply or an error.\<close>

theorem v20_predicates_exclusive:
  assumes "wf_v20_header a" and "wf_v20_header b"
    and "feature_index a \<noteq> 0xff" and "feature_index b \<noteq> 0xff"
    and "v20_response_predicate a r" and "v20_response_predicate b r"
  shows "a = b"
  using assms is_error_for_unique [OF assms(1,2), of "v20_from r"]
  by (auto simp: v20_response_predicate_def Let_def) (auto simp: is_error_for_def Let_def)

theorem v20_predicates_exclusive_witness:
  "v20_response_predicate (example_header 3) (Short [1, 0xff, 5, 0x31, 2, 0])
   \<and> \<not> v20_response_predicate (example_header 4) (Short [1, 0xff, 5, 0x31, 2, 0])"
proof -
  have a: "v20_response_predicate (example_header 3) (Short [1, 0xff, 5, 0x31, 2, 0])" by code_simp
  have wf: "wf_v20_header (example_header 3)" "wf_v20_header (example_header 4)"
    "feature_index (example_header 3) \<noteq> 0xff" "feature_index (example_header 4) \<noteq> 0xff" by code_simp+
  have "example_header 3 \<noteq> example_header 4" by code_simp
  with v20_predicates_exclusive [OF wf a] a show ?thesis by blast
qed

section \<open>The channel\<close>

definition example_channel :: "chan_event list \<Rightarrow> HidppChannel" where
  "example_channel es = the (run chan_step (new_channel True True) es)"

lemma example_channel_reachable:
  "\<not> Option.is_none (run chan_step (new_channel True True) es) \<Longrightarrow> chan_reachable (example_channel es)"
  unfolding example_channel_def by (rule run_the) simp

text \<open>C3: On a reachable channel two requests in flight never share the header their replies are
  matched by, so that no reply on the wire is ambiguous.\<close>

theorem in_flight_keys_distinct:
  assumes "chan_reachable ch" and "requests ch i = Some r" and "requests ch j = Some r'"
    and "in_flight r" and "in_flight r'" and "i \<noteq> j"
  shows "header (rq_msg r) \<noteq> header (rq_msg r')"
proof
  assume same: "header (rq_msg r) = header (rq_msg r')"
  obtain m where m: "m \<in> set (messages (queue ch))" "pm_id m = i" "entry_of m r"
    using reachable_keys [OF assms(1,2,4)] .
  obtain m' where m': "m' \<in> set (messages (queue ch))" "pm_id m' = j" "entry_of m' r'"
    using reachable_keys [OF assms(1,3,5)] .
  have "distinct (map pm_key (messages (queue ch)))"
    using chan_inv_queue [OF chan.reachable_inv [OF assms(1)]] by (simp add: queue_inv_def)
  then have "inj_on pm_key (set (messages (queue ch)))" by (simp add: distinct_map)
  moreover have "pm_key m = pm_key m'" using m m' same by (simp add: entry_of_def)
  ultimately have "m = m'" using m(1) m'(1) by (rule inj_onD)
  with m(2) m'(2) assms(6) show False by simp
qed

theorem in_flight_keys_distinct_witness:
  "let ch = example_channel [example_submit 3 Quarantine, RegisterTurn 1, example_submit 4 Quarantine,
       RegisterTurn 2, WriteOk 1] in
   header (rq_msg (the (requests ch 1))) \<noteq> header (rq_msg (the (requests ch 2)))"
proof -
  let ?ch = "example_channel [example_submit 3 Quarantine, RegisterTurn 1, example_submit 4 Quarantine,
       RegisterTurn 2, WriteOk 1]"
  have r: "chan_reachable ?ch" by (rule example_channel_reachable) code_simp
  have "\<not> Option.is_none (requests ?ch 1)" "\<not> Option.is_none (requests ?ch 2)" by code_simp+
  then have s: "requests ?ch 1 = Some (the (requests ?ch 1))" "requests ?ch 2 = Some (the (requests ?ch 2))"
    by - (rule some_the, assumption)+
  have f: "in_flight (the (requests ?ch 1))" "in_flight (the (requests ?ch 2))" by code_simp+
  show ?thesis unfolding Let_def by (rule in_flight_keys_distinct [OF r s f]) simp
qed

text \<open>C1: The contract of \<open>send\<close>: whatever the interleaving, a request that returns a reply returns
  a well-formed report that its own predicate accepted.\<close>

theorem finished_reply_accepted:
  assumes "chan_reachable ch" and "requests ch i = Some r" and "rq_phase r = Finished (Response x)"
  shows "rq_predicate r x \<and> wf_msg x"
  using chan_inv_request [OF chan.reachable_inv [OF assms(1)] assms(2)] assms(3)
  by (simp add: request_ok_def accepted_def)

theorem finished_reply_accepted_witness:
  "let ch = example_channel [example_submit 3 Quarantine, RegisterTurn 1, WriteOk 1,
       ReportIn (example_reply 3), Receive 1] in
   rq_predicate (the (requests ch 1)) (Short [1, 5, 0x31, 1, 2, 3]) \<and> wf_msg (Short [1, 5, 0x31, 1, 2, 3])"
proof -
  let ?ch = "example_channel [example_submit 3 Quarantine, RegisterTurn 1, WriteOk 1,
       ReportIn (example_reply 3), Receive 1]"
  have r: "chan_reachable ?ch" by (rule example_channel_reachable) code_simp
  have "\<not> Option.is_none (requests ?ch 1)" by code_simp
  then have s: "requests ?ch 1 = Some (the (requests ?ch 1))" by (rule some_the)
  have "rq_phase (the (requests ?ch 1)) = Finished (Response (Short [1, 5, 0x31, 1, 2, 3]))" by code_simp
  from finished_reply_accepted [OF r s this] show ?thesis by (simp only: Let_def)
qed

text \<open>C4: No lost wake-up: a request parked behind one in flight is on the queue's wake list, and the
  request it waits for is still there to wake it.\<close>

theorem parked_is_woken:
  assumes "chan_reachable ch" and "requests ch i = Some r" and "rq_phase r = Parked h None"
  shows "h \<in> set (key_waiters (queue ch))
    \<and> (\<exists>j r'. requests ch j = Some r' \<and> in_flight r' \<and> header (rq_msg r') = header (rq_msg r))"
proof -
  have inv: "chan_inv ch" using assms(1) by (rule chan.reachable_inv)
  have "no_lost_wake ch" using assms(1) by (rule chan_wake.reachable_inv)
  with assms(2,3) have h: "h \<in> set (key_waiters (queue ch))"
    and "header (rq_msg r) \<in> pm_key ` set (messages (queue ch))" by (auto simp: no_lost_wake_def)
  then obtain m where m: "m \<in> set (messages (queue ch))" "pm_key m = header (rq_msg r)" by auto
  from chan_inv_entry [OF inv m(1)] obtain r' where "requests ch (pm_id m) = Some r'" "in_flight r'"
    "header (rq_msg r') = header (rq_msg r)" using m(2) by (auto simp: entry_ok_def entry_of_def)
  with h show ?thesis by blast
qed

theorem parked_is_woken_witness:
  "let ch = example_channel [example_submit 3 Quarantine, RegisterTurn 1,
       example_submit 3 Quarantine, RegisterTurn 2] in
   (0 \<in> set (key_waiters (queue ch))
    \<and> (\<exists>j r'. requests ch j = Some r' \<and> in_flight r'
          \<and> header (rq_msg r') = header (rq_msg (the (requests ch 2)))))
   \<and> rq_phase (the (requests (read_turn ch (example_reply 3)) 2)) = Registering"
proof -
  let ?ch = "example_channel [example_submit 3 Quarantine, RegisterTurn 1,
       example_submit 3 Quarantine, RegisterTurn 2]"
  have r: "chan_reachable ?ch" by (rule example_channel_reachable) code_simp
  have "\<not> Option.is_none (requests ?ch 2)" by code_simp
  then have s: "requests ?ch 2 = Some (the (requests ?ch 2))" by (rule some_the)
  have "rq_phase (the (requests ?ch 2)) = Parked 0 None" by code_simp
  note k = parked_is_woken [OF r s this]
  have w: "rq_phase (the (requests (read_turn ?ch (example_reply 3)) 2)) = Registering" by code_simp
  show ?thesis unfolding Let_def by (rule conjI [OF k w])
qed

lemma register_turn_phase:
  assumes "stale (prune_stale (queue ch) (clock ch)) = []"
  shows "\<exists>r'. requests (register_turn ch i r) i = Some r' \<and>
    (rq_phase r' = Writing \<or> (\<exists>h. rq_phase r' = Parked h None))"
proof (cases "try_register (queue ch) (pending_of i r) (clock ch)")
  case (Pair q res)
  then show ?thesis
  proof (cases rule: try_register_cases)
    case in_flight
    with Pair show ?thesis by (simp add: register_turn_def Let_def)
  next
    case (quarantined s)
    with assms show ?thesis by simp
  next
    case registered
    have "requests (register_turn ch i r) i = Some (r\<lparr>rq_phase := Writing\<rparr>)"
      unfolding register_turn_def Pair registered(4) by (simp add: Let_def split: option.splits)
    then show ?thesis by simp
  qed
qed

text \<open>C5: A reply owed to an abandoned request holds a later one back for the grace period at most:
  once it has passed, the parked request's next turn either sends it or leaves it waiting for a
  request in flight, never again for a stale reply.\<close>

theorem stale_hold_ends:
  assumes "chan_reachable ch" and "requests ch i = Some r" and "rq_phase r = Parked h (Some u)"
  shows "\<exists>ch' r'. run chan_step ch [Tick STALE_REPLY_GRACE, GraceElapsed i, RegisterTurn i] = Some ch'
    \<and> requests ch' i = Some r' \<and> (rq_phase r' = Writing \<or> (\<exists>h'. rq_phase r' = Parked h' None))"
proof -
  define ch1 where "ch1 = ch\<lparr>clock := clock ch + STALE_REPLY_GRACE\<rparr>"
  define ch2 where "ch2 = set_request ch1 i (r\<lparr>rq_phase := Registering\<rparr>)"
  have gb: "grace_bounded ch" using assms(1) by (rule chan_grace.reachable_inv)
  with assms(2,3) have "u \<le> clock ch + STALE_REPLY_GRACE" by (auto simp: grace_bounded_def)
  with assms(2,3) have step: "chan_step ch1 (GraceElapsed i) = Some ch2"
    by (simp add: on_request_def ch1_def ch2_def)
  have "stale (prune_stale (queue ch2) (clock ch2)) = []"
    using gb by (auto simp: ch2_def ch1_def prune_stale_def grace_bounded_def filter_empty_conv not_less)
  note phase = register_turn_phase [OF this, of i "r\<lparr>rq_phase := Registering\<rparr>"]
  have tick: "chan_step ch (Tick STALE_REPLY_GRACE) = Some ch1" by (simp add: ch1_def)
  have turn: "chan_step ch2 (RegisterTurn i) = Some (register_turn ch2 i (r\<lparr>rq_phase := Registering\<rparr>))"
    by (simp add: on_request_def ch2_def)
  have "run chan_step ch [Tick STALE_REPLY_GRACE, GraceElapsed i, RegisterTurn i]
      = Some (register_turn ch2 i (r\<lparr>rq_phase := Registering\<rparr>))"
    by (simp only: run.simps tick step turn Option.bind.simps)
  with phase show ?thesis by blast
qed

theorem stale_hold_ends_witness:
  "let ch = example_channel [example_submit 3 Quarantine, RegisterTurn 1, WriteOk 1, Cancel 1, Tick 400,
       example_submit 3 Quarantine, RegisterTurn 2] in
   rq_phase (the (requests ch 2)) = Parked 0 (Some 1000)
   \<and> (\<exists>ch' r'. run chan_step ch [Tick STALE_REPLY_GRACE, GraceElapsed 2, RegisterTurn 2] = Some ch'
        \<and> requests ch' 2 = Some r' \<and> (rq_phase r' = Writing \<or> (\<exists>h'. rq_phase r' = Parked h' None)))"
proof -
  let ?ch = "example_channel [example_submit 3 Quarantine, RegisterTurn 1, WriteOk 1, Cancel 1, Tick 400,
       example_submit 3 Quarantine, RegisterTurn 2]"
  have r: "chan_reachable ?ch" by (rule example_channel_reachable) code_simp
  have "\<not> Option.is_none (requests ?ch 2)" by code_simp
  then have s: "requests ?ch 2 = Some (the (requests ?ch 2))" by (rule some_the)
  have p: "rq_phase (the (requests ?ch 2)) = Parked 0 (Some 1000)" by code_simp
  show ?thesis unfolding Let_def by (rule conjI [OF p stale_hold_ends [OF r s p]])
qed

lemma read_turn_replies:
  assumes "read_raw bytes = Some msg"
  shows "map_option rq_reply (requests (read_turn ch bytes) j) =
    map_option (\<lambda>r. if map_option pm_id (fst (resolve_report (queue ch) msg (clock ch))) = Some j
      then Some msg else rq_reply r) (requests ch j)"
proof (cases "resolve_report (queue ch) msg (clock ch)")
  case (fields a st q ws)
  then show ?thesis using assms
    by (cases a; cases "requests ch j")
      (auto simp: read_turn_def Let_def deliver_requests)
qed

text \<open>Every reply reaches its own request and no other. While the predicates of all requests
  accept only reports that carry the request's header (as those of the HID++1.0 and 2.0 callers do),
  a report that an in-flight request accepts fills that request's reply slot and leaves every other
  slot alone.\<close>

theorem reply_routed:
  assumes "chan_reachable ch"
    and "all_keyed ch"
    and "requests ch i = Some r" and "in_flight r" and "read_raw bytes = Some msg"
    and "rq_predicate r msg"
  shows "map_option rq_reply (requests (read_turn ch bytes) i) = Some (Some msg)
    \<and> (\<forall>j. j \<noteq> i \<longrightarrow> map_option rq_reply (requests (read_turn ch bytes) j) = map_option rq_reply (requests ch j))"
proof -
  obtain m where m: "m \<in> set (messages (queue ch))" "pm_id m = i" "entry_of m r"
    using reachable_keys [OF assms(1,3,4)] .
  have "fst (resolve_report (queue ch) msg (clock ch)) = Some m"
    using chan_inv_queue [OF chan.reachable_inv [OF assms(1)]] reachable_queue_keyed [OF assms(1,2)]
      read_raw_wf [OF assms(5)] m(1) assms(6) m(3)
    by (intro resolve_answers) (auto simp: entry_of_def)
  with read_turn_replies [OF assms(5), of ch] assms(3) m(2) show ?thesis by simp
qed

lemma example_keyed: "keyed (header (example_request fn)) (v20_response_predicate (example_header fn))"
  using v20_predicate_keyed [of "example_header fn"]
  by (simp add: example_request_def header_v20_into example_header_def wf_v20_header_def
      del: v20_into.simps)

lemma example_channel_keyed:
  assumes "\<not> Option.is_none (run chan_step (new_channel True True) es)" and "list_all keyed_event es"
  shows "all_keyed (example_channel es)"
proof -
  have "chan_inv (new_channel True True)"
    by (rule chan.reachable_inv) (rule reach_new [of True True "[]"], simp_all)
  moreover have "all_keyed (new_channel True True)" by (simp add: all_keyed_def new_channel_def)
  ultimately show ?thesis using assms
    by (auto simp: example_channel_def Option.is_none_def intro: all_keyed_run)
qed

lemma example_submit_keyed [simp]: "keyed_event (example_submit fn ab)"
  using example_keyed by (simp add: keyed_event_def example_submit_def)

theorem reply_routed_witness:
  "let ch = example_channel [example_submit 3 Quarantine, RegisterTurn 1, example_submit 4 Quarantine,
       RegisterTurn 2, WriteOk 1, WriteOk 2] in
   map_option rq_reply (requests (read_turn ch (example_reply 4)) 2) = Some (Some (Short [1, 5, 0x41, 1, 2, 3]))
   \<and> (\<forall>j. j \<noteq> 2 \<longrightarrow> map_option rq_reply (requests (read_turn ch (example_reply 4)) j)
         = map_option rq_reply (requests ch j))"
proof -
  let ?ch = "example_channel [example_submit 3 Quarantine, RegisterTurn 1, example_submit 4 Quarantine,
       RegisterTurn 2, WriteOk 1, WriteOk 2]"
  have r: "chan_reachable ?ch" by (rule example_channel_reachable) code_simp
  have k: "all_keyed ?ch"
  proof (rule example_channel_keyed)
    show "\<not> Option.is_none (run chan_step (new_channel True True) [example_submit 3 Quarantine,
      RegisterTurn 1, example_submit 4 Quarantine, RegisterTurn 2, WriteOk 1, WriteOk 2])" by code_simp
  qed (simp, simp add: keyed_event_def)
  have "\<not> Option.is_none (requests ?ch 2)" by code_simp
  then have s: "requests ?ch 2 = Some (the (requests ?ch 2))" by (rule some_the)
  have f: "in_flight (the (requests ?ch 2))" by code_simp
  have b: "read_raw (example_reply 4) = Some (Short [1, 5, 0x41, 1, 2, 3])" by code_simp
  have p: "rq_predicate (the (requests ?ch 2)) (Short [1, 5, 0x41, 1, 2, 3])" by code_simp
  show ?thesis unfolding Let_def by (rule reply_routed [OF r k s f b p])
qed



lemma register_writing:
  assumes "requests (register_turn ch i r) i = Some r'" and "rq_phase r' = Writing"
  shows "\<exists>q. try_register (queue ch) (pending_of i r) (clock ch) = (q, Inr ())
    \<and> queue (register_turn ch i r) = q"
proof (cases "try_register (queue ch) (pending_of i r) (clock ch)")
  case (Pair q res)
  show ?thesis
  proof (cases res)
    case (Inl a)
    with Pair assms show ?thesis by (cases a) (auto simp: register_turn_def Let_def)
  next
    case (Inr u)
    with Pair show ?thesis by (simp add: register_turn_def Let_def split: option.splits)
  qed
qed

text \<open>A request that quarantines abandoned replies goes onto the wire only when no reply with
  its header is still owed, and from then on exactly its own is.\<close>

theorem quarantine_sends_alone:
  assumes "requests ch i = Some r" and "rq_abandoned r = Quarantine"
    and "chan_step ch (RegisterTurn i) = Some ch'"
    and "requests ch' i = Some r'" and "rq_phase r' = Writing"
  shows "owed (prune_stale (queue ch) (clock ch)) (header (rq_msg r)) = 0
    \<and> owed (queue ch') (header (rq_msg r)) = 1"
proof -
  from assms(1,3) have ch': "ch' = register_turn ch i r"
    by (auto simp: on_request_def split: if_splits)
  define m where "m = pending_of i r"
  from register_writing [OF assms(4)[unfolded ch'] assms(5)] have reg:
      "try_register (queue ch) m (clock ch) = (queue ch', Inr ())" by (auto simp: ch' m_def)
  have key: "pm_key m = header (rq_msg r)" "pm_abandoned m = Quarantine"
    using assms(2) by (simp_all add: m_def pending_of_def)
  from reg have "owed (prune_stale (queue ch) (clock ch)) (pm_key m) = 0"
  proof (cases rule: try_register_cases)
    case registered
    with key(2) show ?thesis
      by (auto simp: owed_def owed_messages_def owed_stale_def adopts_def)
  qed auto
  with owed_register [OF reg] key(1) show ?thesis by simp
qed

theorem quarantine_sends_alone_witness:
  "let ch = example_channel [example_submit 3 Quarantine] in
   owed (prune_stale (queue ch) (clock ch)) (header (rq_msg (the (requests ch 1)))) = 0
   \<and> owed (queue (the (chan_step ch (RegisterTurn 1)))) (header (rq_msg (the (requests ch 1)))) = 1"
proof -
  let ?ch = "example_channel [example_submit 3 Quarantine]"
  let ?ch' = "the (chan_step ?ch (RegisterTurn 1))"
  have "\<not> Option.is_none (requests ?ch 1)" "\<not> Option.is_none (chan_step ?ch (RegisterTurn 1))"
    "\<not> Option.is_none (requests ?ch' 1)" by code_simp+
  then have s: "requests ?ch 1 = Some (the (requests ?ch 1))" "chan_step ?ch (RegisterTurn 1) = Some ?ch'"
    "requests ?ch' 1 = Some (the (requests ?ch' 1))" by - (rule some_the, assumption)+
  have p: "rq_abandoned (the (requests ?ch 1)) = Quarantine" "rq_phase (the (requests ?ch' 1)) = Writing"
    by code_simp+
  show ?thesis unfolding Let_def by (rule quarantine_sends_alone [OF s(1) p(1) s(2,3) p(2)])
qed



text \<open>C6: The queue's books balance. A report that answers a request or is discarded as stale
  settles exactly one owed reply of its key and touches no other key; giving a request up changes
  nothing about what is owed; registering one adds exactly its own reply.\<close>

theorem owed_replies_balance:
  assumes "queue_inv q" and "queue_keyed q"
  shows "(wf_msg r \<longrightarrow> resolve_report q r now = (a, discarded, q1, ws) \<longrightarrow>
      owed q1 = (if a \<noteq> None \<or> discarded then (owed q)(reply_key r := owed q (reply_key r) - 1) else owed q))
    \<and> owed (fst (abandon q rid now)) = owed q
    \<and> (try_register q m now = (q2, Inr ()) \<longrightarrow>
      owed q2 = (owed (prune_stale q now))(pm_key m := owed (prune_stale q now) (pm_key m) + 1))"
  using owed_resolve [OF assms] owed_abandon owed_register by blast

definition example_entry :: "nat \<Rightarrow> u8 \<Rightarrow> PendingMessage" where
  "example_entry i fn =
     \<lparr>pm_id = i, pm_key = header (example_request fn), pm_request = example_request fn,
      pm_abandoned = AdoptIdentical, pm_predicate = v20_response_predicate (example_header fn),
      pm_extra_replies = 2\<rparr>"

definition example_queue :: PendingQueue where
  "example_queue = \<lparr>messages = [example_entry 1 3], stale = [], key_waiters = []\<rparr>"

theorem owed_replies_balance_witness:
  "owed (fst (snd (snd (resolve_report example_queue (Short [1, 5, 0x31, 1, 2, 3]) 0))))
     = (owed example_queue)((1, 5, 0x31) := owed example_queue (1, 5, 0x31) - 1)"
proof -
  have i: "queue_inv example_queue" "queue_keyed example_queue"
    using example_keyed
    by (simp_all add: queue_inv_def queue_keyed_def example_queue_def example_entry_def)
  have f: "\<not> Option.is_none (fst (resolve_report example_queue (Short [1, 5, 0x31, 1, 2, 3]) 0))" by code_simp
  have k: "reply_key (Short [1, 5, 0x31, 1, 2, 3]) = (1, 5, 0x31)"
    "wf_msg (Short [1, 5, 0x31, 1, 2, 3])" by code_simp+
  show ?thesis
    using owed_replies_balance [OF i, of "Short [1, 5, 0x31, 1, 2, 3]" 0] f k
    by (cases "resolve_report example_queue (Short [1, 5, 0x31, 1, 2, 3]) 0") (auto simp: Option.is_none_def)
qed

end
