(* ===== verification/Hidpp_Feature_Properties.thy ===== *)
theory Hidpp_Feature_Properties
  imports Hidpp_Properties
begin

text \<open>
  The properties of the layers above the channel: software ids and the event filter, HID++1.0
  registers, feature calls, the version probe and the feature table of a device, all over the
  channel model of \<^verbatim>\<open>Hidpp_Send\<close>.
\<close>

section \<open>Software ids\<close>

lemma nibble_values: "(w :: u8) \<le> 0x0f \<Longrightarrow> w \<in> set (map of_nat [0 ..< 16])"
proof -
  assume "w \<le> 0x0f"
  then have "unat w \<le> unat (0x0f :: u8)" by (simp only: word_le_nat_alt)
  then have "unat w < 16" by simp
  then have "of_nat (unat w) \<in> (of_nat :: nat \<Rightarrow> u8) ` {0 ..< 16}" by (intro imageI) simp
  then show ?thesis by simp
qed

lemma wf_u4_le: "wf_u4 n \<Longrightarrow> u4_raw n \<le> 0x0f"
proof -
  assume "wf_u4 n"
  then have "unat (drop_bit 4 (u4_raw n)) = 0" by (simp add: wf_u4_def)
  then have "drop_bit 4 (unat (u4_raw n)) = 0" by (simp only: unat_drop_bit_eq)
  then have "unat (u4_raw n) div 2 ^ 4 = 0" by (simp only: drop_bit_eq_div)
  then have "unat (u4_raw n) < 16" by (simp add: div_eq_0_iff)
  then show ?thesis by (simp add: word_le_nat_alt)
qed

lemma sw_ids_only_contains: "wf_u4 (sw_get i) \<Longrightarrow> sw_ids_contains (sw_ids_only i) (sw_get i)"
proof -
  assume "wf_u4 (sw_get i)"
  then have v: "to_lo (sw_get i) \<in> set (map of_nat [0 ..< 16])"
    using nibble_values [OF wf_u4_le] by (simp add: to_lo_def)
  have "list_all (\<lambda>w :: u8. (push_bit (unat w) 1 :: u16) \<noteq> 0) (map of_nat [0 ..< 16])" by code_simp
  with v show ?thesis by (auto simp: list_all_iff sw_ids_only_def)
qed

lemma rotating_ok:
  "list_all (\<lambda>n. case get_sw_id (Rotating n) of (i, p) \<Rightarrow>
      wf_u4 i \<and> to_lo i \<noteq> 0 \<and> sw_ids_contains sw_ids_all i \<and> wf_policy p
      \<and> (case p of Rotating _ \<Rightarrow> True | _ \<Rightarrow> False) \<and> distinct (issued 15 (Rotating n)))
     (map of_nat [1 ..< 16])"
  by code_simp

lemma rotating_values: "wf_policy (Rotating n) \<Longrightarrow> n \<in> set (map of_nat [1 ..< 16])"
proof -
  assume wf: "wf_policy (Rotating n)"
  then have "n \<le> 0x0f" "n \<noteq> 0" by (simp_all add: wf_policy_def)
  with nibble_values [OF this(1)] obtain k where k: "k < 16" "n = of_nat k" by auto
  with \<open>n \<noteq> 0\<close> have "k \<noteq> 0" by (cases k) auto
  with k show ?thesis by auto
qed

lemma rotating_case:
  assumes "wf_policy (Rotating n)" and "get_sw_id (Rotating n) = (i, p)"
  shows "wf_u4 i \<and> to_lo i \<noteq> 0 \<and> sw_ids_contains sw_ids_all i \<and> wf_policy p
    \<and> (case p of Rotating _ \<Rightarrow> True | _ \<Rightarrow> False) \<and> distinct (issued 15 (Rotating n))"
  using bspec [OF rotating_ok [unfolded list_all_iff] rotating_values [OF assms(1)]]
  unfolding assms(2) prod.case .

lemma get_sw_id_own:
  assumes "wf_policy p" and "get_sw_id p = (i, p')"
  shows "wf_u4 i \<and> to_lo i \<noteq> 0 \<and> sw_ids_contains (request_sw_ids p) i
    \<and> wf_policy p' \<and> request_sw_ids p' = request_sw_ids p"
proof (cases p)
  case (Rotating n)
  with rotating_case assms have "wf_u4 i \<and> to_lo i \<noteq> 0 \<and> sw_ids_contains sw_ids_all i \<and> wf_policy p'
    \<and> (case p' of Rotating _ \<Rightarrow> True | _ \<Rightarrow> False)" by blast
  with Rotating show ?thesis by (cases p') simp_all
qed (use assms sw_ids_only_contains in \<open>auto simp: wf_policy_def\<close>)

lemma rotating_distinct: "wf_policy (Rotating n) \<Longrightarrow> distinct (issued 15 (Rotating n))"
  using rotating_case [of n] by (metis prod.exhaust)

text \<open>Every software id the channel issues is a non-zero nibble that the channel recognises as
  its own, under each of the three policies and for every later request; a rotating policy issues
  fifteen different ids before it repeats one.\<close>

theorem issued_sw_ids:
  assumes "wf_policy p" and "get_sw_id p = (i, p')"
  shows "wf_u4 i \<and> to_lo i \<noteq> 0 \<and> sw_ids_contains (request_sw_ids p) i
    \<and> wf_policy p' \<and> request_sw_ids p' = request_sw_ids p
    \<and> (\<forall>n. p = Rotating n \<longrightarrow> distinct (issued 15 p))"
  using get_sw_id_own [OF assms] assms(1) rotating_distinct by blast

theorem issued_sw_ids_witness:
  "to_lo (fst (get_sw_id (Rotating 15))) = 15 \<and> wf_policy (snd (get_sw_id (Rotating 15)))
   \<and> distinct (issued 15 (Rotating 15))"
proof -
  have g: "wf_policy (Rotating 15)" "get_sw_id (Rotating 15) = (U4 15, Rotating 1)" by code_simp+
  from issued_sw_ids [OF g] g(2) show ?thesis by (simp add: to_lo_def)
qed

text \<open>A listener never takes the answer to one of its own channel's requests for news from
  another client: a report that carries a software id the channel can issue yields no event, even
  when no request matched it because it came late or was abandoned.\<close>

theorem own_reply_is_no_event:
  assumes "wf_policy p" and "get_sw_id p = (i, p')"
    and "software_id (v20_header_of (v20_from raw)) = i"
  shows "event_source d device feature (request_sw_ids p) raw matched = None"
  using get_sw_id_own [OF assms(1,2)] assms(3)
  by (simp add: event_source_def inbound_report_def Let_def)

definition example_decoder :: "nat decode_event" where
  "example_decoder = \<lparr>de_decode = (\<lambda>_ _. Some 1), de_min_payload_len = (\<lambda>_. 0), de_foreign = (\<lambda>_. Some 2)\<rparr>"

theorem own_reply_is_no_event_witness:
  "event_source example_decoder 1 5 (request_sw_ids sw_default) (Short [1, 5, 0x31, 1, 2, 3]) False = None
   \<and> event_source example_decoder 1 5 (request_sw_ids sw_default) (Short [1, 5, 0x3b, 1, 2, 3]) False = Some 2"
proof -
  have p: "wf_policy sw_default" "get_sw_id sw_default = (from_lo 1, sw_default)"
    "software_id (v20_header_of (v20_from (Short [1, 5, 0x31, 1, 2, 3]))) = from_lo 1" by code_simp+
  have "event_source example_decoder 1 5 (request_sw_ids sw_default) (Short [1, 5, 0x3b, 1, 2, 3]) False
      = Some 2" by code_simp
  with own_reply_is_no_event [OF p] show ?thesis by blast
qed

section \<open>Registers\<close>

text \<open>A sub-register read over the channel never returns another sub-register's data: whatever
  else is in flight, the sixteen bytes it returns start with the sub-register asked for.\<close>

theorem sub_register_read:
  assumes "read_long_sub_register (channel_send supports before after ab wt) device address sub params
    = Inr data"
  shows "length data = 16 \<and> data ! 0 = sub"
  using assms by (rule sent.sub_register_echo)

definition example_register_reply :: "u8 \<Rightarrow> u8 list" where
  "example_register_reply sub = 0x11 # [0xff, 0x83, 0xb5, sub] @ replicate 15 9"

theorem sub_register_read_witness:
  "let send = channel_send (True, True) [] [RegisterTurn 1, WriteOk 1,
       ReportIn (example_register_reply 0x21), ReportIn (example_register_reply 0x20), Receive 1] Quarantine False in
   read_long_sub_register send 0xff 0xb5 0x20 [0, 0] = Inr (0x20 # replicate 15 9)
   \<and> length (0x20 # replicate 15 (9 :: u8)) = 16 \<and> (0x20 # replicate 15 (9 :: u8)) ! 0 = 0x20"
proof -
  let ?send = "channel_send (True, True) [] [RegisterTurn 1, WriteOk 1,
       ReportIn (example_register_reply 0x21), ReportIn (example_register_reply 0x20), Receive 1] Quarantine False"
  have r: "read_long_sub_register ?send 0xff 0xb5 0x20 [0, 0] = Inr (0x20 # replicate 15 9)" by code_simp
  show ?thesis unfolding Let_def by (rule conjI [OF r sub_register_read [OF r]])
qed

section \<open>Feature calls\<close>

text \<open>The link of the instances: each request is written, meets the given reports and is received.\<close>

definition example_link :: "u8 list list \<Rightarrow> link" where
  "example_link replies =
     channel_link (True, True) (\<lambda>_. [])
       (\<lambda>k. [RegisterTurn 1, WriteOk 1] @ map ReportIn (if k < length replies then [replies ! k] else []) @ [Receive 1])"

definition example_state :: link_state where
  "example_state = \<lparr>sw_policy = sw_default, calls = 0\<rparr>"



text \<open>An echoed write-through call succeeds only with an answer to that call that repeats its
  three argument bytes, so a late answer to an earlier call with other arguments is never taken
  for it.\<close>

theorem echoed_call_is_echoed:
  assumes "call_echoed_write_through (channel_link supports before after) ep fn args st = (Inr m, st')"
  shows "v20_header_of m = fst (ep_header ep fn st) \<and> take 3 (v20_extend_payload m) = args"
  using assms by (rule channel_link.call_echoed_reply)

theorem echoed_call_is_echoed_witness:
  "let r = call_echoed_write_through (example_link [[0x10, 1, 5, 0x31, 7, 8, 9]])
       \<lparr>ep_device_index = 1, ep_feature_index = 5\<rparr> 3 [7, 8, 9] example_state in
   fst r = Inr (V20_Short (example_header 3) [7, 8, 9])
   \<and> take 3 (v20_extend_payload (V20_Short (example_header 3) [7, 8, 9])) = [7, 8, 9]"
proof -
  let ?r = "call_echoed_write_through (example_link [[0x10, 1, 5, 0x31, 7, 8, 9]])
       \<lparr>ep_device_index = 1, ep_feature_index = 5\<rparr> 3 [7, 8, 9] example_state"
  have f: "fst ?r = Inr (V20_Short (example_header 3) [7, 8, 9])" by code_simp
  then have "?r = (Inr (V20_Short (example_header 3) [7, 8, 9]), snd ?r)" by (simp only: prod.collapse flip: f)
  from echoed_call_is_echoed [OF this [unfolded example_link_def]] f show ?thesis
    unfolding Let_def example_link_def by blast
qed

section \<open>The version probe\<close>

lemma version_reply_V10:
  assumes "wf_msg r" and "version_matches device (version_probe device sw) sw r"
    and "version_of_reply (version_probe device sw) r = Some V10"
  shows "\<exists>x. r = Short [device, 0x8f, 0x00, combine (from_lo 1) sw, 0x01, x]"
proof -
  from assms(2,3) obtain p where r: "r = Short p" and h: "p ! 0 = device" "p ! 1 = 0x8f"
      "drop 2 p ! 0 = 0" "drop 2 p ! 1 = combine (from_lo 1) sw" "drop 2 p ! 2 = 1"
    by (cases r) (auto simp: version_matches_def version_of_reply_def Let_def version_probe_def
        v10_header_from_def split: if_splits)
  from assms(1) r obtain a b c d e f where "p = [a, b, c, d, e, f]"
    by (auto simp: report_consts length_Suc_conv eval_nat_numeral)
  with r h show ?thesis by (simp add: numeral_2_eq_2)
qed

lemma version_reply_V20:
  assumes "wf_msg r" and "version_of_reply (version_probe device sw) r = Some (V20 n t)"
  shows "v20_header_of (v20_from r) = v20_header_of (version_probe device sw)
    \<and> n = msg_payload r ! 3 \<and> t = msg_payload r ! 4"
  using assms
  by (cases r) (auto simp: version_of_reply_def Let_def report_consts nth_append split: if_splits)



section \<open>The feature table\<close>

text \<open>A feature-table entry survives lost reports: the read returns the answer of the first
  attempt that was neither cut off by its timer nor lost on the transport, a device's refusal
  included, and fails with a channel error only when all four attempts were lost.\<close>

theorem read_feature_entry_retries:
  "(\<exists>k < FEATURE_READ_ATTEMPTS. (\<forall>j < k. lost link timer ep index (after_attempts link ep index j st))
       \<and> \<not> lost link timer ep index (after_attempts link ep index k st)
       \<and> read_feature_entry link timer ep index st =
           feature_set_get_feature link ep index (after_attempts link ep index k st))
   \<or> (\<forall>j < FEATURE_READ_ATTEMPTS. lost link timer ep index (after_attempts link ep index j st))
       \<and> (\<exists>c. read_feature_entry link timer ep index st =
           (Inl (V20_Channel c), after_attempts link ep index FEATURE_READ_ATTEMPTS st))"
proof (cases "\<exists>k < FEATURE_READ_ATTEMPTS. \<not> lost link timer ep index (after_attempts link ep index k st)")
  case True
  define k where "k = (LEAST k. \<not> lost link timer ep index (after_attempts link ep index k st))"
  from True obtain k0 where k0: "k0 < FEATURE_READ_ATTEMPTS"
    "\<not> lost link timer ep index (after_attempts link ep index k0 st)" by blast
  have nk: "\<not> lost link timer ep index (after_attempts link ep index k st)"
    unfolding k_def using k0(2) by (rule LeastI)
  have before: "\<forall>j < k. lost link timer ep index (after_attempts link ep index j st)"
    unfolding k_def by (auto dest: not_less_Least)
  have kb: "k < FEATURE_READ_ATTEMPTS"
    using Least_le [of "\<lambda>k. \<not> lost link timer ep index (after_attempts link ep index k st)", OF k0(2)] k0(1)
    by (simp add: k_def)
  have "read_feature_entry link timer ep index st =
      feature_set_get_feature link ep index (after_attempts link ep index k st)"
    unfolding read_feature_entry_def by (rule read_attempts_answered [OF before nk kb])
  with before nk kb show ?thesis by blast
next
  case False
  then have "\<forall>j < FEATURE_READ_ATTEMPTS. lost link timer ep index (after_attempts link ep index j st)" by blast
  with read_attempts_lost [OF this, of None] show ?thesis by (auto simp: read_feature_entry_def)
qed

definition example_entry_reply :: "u8 list" where
  "example_entry_reply = 0x11 # [1, 2, 0x11, 0x10, 0x04, 0, 1] @ replicate 12 0"

theorem read_feature_entry_retries_witness:
  "let link = example_link [[0x10, 1, 2, 0x21, 0, 0, 0], example_entry_reply];
       ep = \<lparr>ep_device_index = 1, ep_feature_index = 2\<rparr> in
   (\<exists>k < FEATURE_READ_ATTEMPTS. read_feature_entry link (\<lambda>k. k = 0) ep 7 example_state =
      feature_set_get_feature link ep 7 (after_attempts link ep 7 k example_state))
   \<and> fst (read_feature_entry link (\<lambda>k. k = 0) ep 7 example_state) =
       Inr \<lparr>fi_id = 0x1004, fi_typ = FeatureType 0, fi_version = 1\<rparr>"
proof -
  let ?link = "example_link [[0x10, 1, 2, 0x21, 0, 0, 0], example_entry_reply]"
  let ?ep = "\<lparr>ep_device_index = 1, ep_feature_index = 2\<rparr> :: FeatureEndpoint"
  have f: "fst (read_feature_entry ?link (\<lambda>k. k = 0) ?ep 7 example_state) =
      Inr \<lparr>fi_id = 0x1004, fi_typ = FeatureType 0, fi_version = 1\<rparr>" by code_simp
  then have "\<not> (\<exists>c. read_feature_entry ?link (\<lambda>k. k = 0) ?ep 7 example_state =
      (Inl (V20_Channel c), after_attempts ?link ?ep 7 FEATURE_READ_ATTEMPTS example_state))" by auto
  with read_feature_entry_retries [of ?link "\<lambda>k. k = 0" ?ep 7 example_state]
  have "\<exists>k < FEATURE_READ_ATTEMPTS. read_feature_entry ?link (\<lambda>k. k = 0) ?ep 7 example_state =
      feature_set_get_feature ?link ?ep 7 (after_attempts ?link ?ep 7 k example_state)" by blast
  with f show ?thesis unfolding Let_def by blast
qed

text \<open>Enumeration installs exactly what the registry knows, where the table says it lives. After
  a full walk every implementation the device did not have before is the feature set or is bound to
  a slot whose entry the registry supports with that implementation, and every supported slot other
  than the feature set's own has its implementations installed.\<close>

theorem enumerate_installs_table:
  assumes "enumerate_features link timer d st = (Inr (Some infos), d', st')"
  shows "length infos < 256
    \<and> (\<forall>ty e. dev_features d' ty = Some e \<longrightarrow>
         dev_features d ty = Some e \<or> ty = ''FeatureSetFeature'' \<or>
         (\<exists>slot < length infos. supported (infos ! slot) ty
            \<and> e = snd (new_dyn ty (dev_index d) (of_nat (slot + 1)))))
    \<and> (\<forall>slot < length infos. \<forall>ty.
         map_option rfi_index (projr (fst (root_get_feature link (dev_index d) 0x0001 Bounded st)))
           \<noteq> Some (of_nat (slot + 1)) \<longrightarrow>
         supported (infos ! slot) ty \<longrightarrow> provides_feature d' ty)"
proof -
  obtain fsi where root: "map_option rfi_index
      (projr (fst (root_get_feature link (dev_index d) 0x0001 Bounded st))) = Some fsi"
    and len: "length infos < 256"
    and d': "d' = fold (\<lambda>(i, x). install_entry fsi i x)
       (zip (table_slots (of_nat (length infos))) infos) (add_feature d ''FeatureSetFeature'' fsi)"
    using enumerate_features_cases [OF assms] by metis
  have n: "unat (of_nat (length infos) :: u8) = length infos"
    using len by (simp add: unat_of_nat)
  show ?thesis
  proof (intro conjI allI impI)
    fix ty e assume "dev_features d' ty = Some e"
    from fold_install_sound [OF this [unfolded d']]
    show "dev_features d ty = Some e \<or> ty = ''FeatureSetFeature'' \<or>
        (\<exists>slot < length infos. supported (infos ! slot) ty
          \<and> e = snd (new_dyn ty (dev_index d) (of_nat (slot + 1))))"
      by (auto simp: set_zip n add_feature_def insert_feature_def new_dyn_def split: if_splits)
  next
    fix slot ty
    assume slot: "slot < length infos" and ne: "map_option rfi_index
        (projr (fst (root_get_feature link (dev_index d) 0x0001 Bounded st))) \<noteq> Some (of_nat (slot + 1))"
      and sup: "supported (infos ! slot) ty"
    have "(of_nat (slot + 1), infos ! slot) \<in> set (zip (table_slots (of_nat (length infos))) infos)"
      using slot n table_slots_nth [of slot "of_nat (length infos)"]
      by (auto simp: set_zip intro!: exI [of _ slot])
    moreover have "of_nat (slot + 1) \<noteq> fsi" using root ne by auto
    ultimately show "provides_feature d' ty"
      unfolding provides_feature_def d' using sup by (rule fold_install_complete)
  qed (rule len)
qed

definition example_device :: Device where
  "example_device = \<lparr>dev_features = Map.empty, dev_index = 1, dev_version = V20 4 5\<rparr>"

definition example_table :: "u8 list list" where
  "example_table = [[0x10, 1, 0, 0x01, 2, 0, 0], [0x10, 1, 2, 0x01, 1, 0, 0], example_entry_reply]"

theorem enumerate_installs_table_witness:
  "fst (enumerate_features (example_link example_table) (\<lambda>_. False) example_device example_state)
     = Inr (Some [\<lparr>fi_id = 0x1004, fi_typ = FeatureType 0, fi_version = 1\<rparr>])
   \<and> provides_feature (fst (snd (enumerate_features (example_link example_table) (\<lambda>_. False)
        example_device example_state))) ''UnifiedBatteryFeature''"
proof -
  let ?e = "enumerate_features (example_link example_table) (\<lambda>_. False) example_device example_state"
  let ?info = "\<lparr>fi_id = 0x1004, fi_typ = FeatureType 0, fi_version = 1\<rparr> :: FeatureInformation"
  have f: "fst ?e = Inr (Some [?info])" by code_simp
  have s: "supported ?info ''UnifiedBatteryFeature''" by code_simp
  have i: "map_option rfi_index (projr (fst (root_get_feature (example_link example_table)
      (dev_index example_device) 0x0001 Bounded example_state))) \<noteq> Some (of_nat (0 + 1))" by code_simp
  have "?e = (Inr (Some [?info]), fst (snd ?e), snd (snd ?e))" by (simp only: prod.collapse flip: f)
  from enumerate_installs_table [OF this] i s f show ?thesis by simp
qed

end
