(* ===== verification/Button_Debounce.thy ===== *)
theory Button_Debounce
  imports Event_System
begin

text \<open>
  The button debouncer of the Linux hook,
  \<^verbatim>\<open>crates/openlogi-hook/src/linux/button_debounce.rs\<close>. Instants are milliseconds as \<open>nat\<close>, a
  key code is its 16-bit number. The device thread feeds it reports and wakes it at its deadline;
  both are events of the state machine whose invariant is proved here.
\<close>

type_synonym KeyCode = u16

definition BOUNCE_TIMEOUT :: nat where "BOUNCE_TIMEOUT = 25"
definition SPURIOUS_TIMEOUT :: nat where "SPURIOUS_TIMEOUT = 12"

definition LOGITECH_VENDOR_ID :: u32 where "LOGITECH_VENDOR_ID = 0x046d"
definition NEVER_DEBOUNCED :: "u16 list" where "NEVER_DEBOUNCED = [0x4024, 0x404B, 0x404C, 0x404D]"

record ButtonChange =
  bc_button :: KeyCode
  bc_pressed :: bool

datatype debounce_state =
    IsUp | IsDown | IsDownWaiting | IsUpDelaying | IsUpDelayingSpurious | IsUpDetectingSpurious
  | IsDownDetectingSpurious | IsUpWaiting | IsDownDelaying | Disabled

datatype debounce_event = Press | Release | Timeout | TimeoutShort | OtherButton

record ButtonDebounce =
  db_state :: debounce_state
  db_button :: "KeyCode option"
  db_spurious :: bool
  db_bounce_at :: "nat option"
  db_spurious_at :: "nat option"
  db_report :: "ButtonChange list"

section \<open>Operations\<close>

definition for_device :: "bool \<Rightarrow> u16 \<Rightarrow> u16 \<Rightarrow> ButtonDebounce" where
  "for_device bus_usb vendor product =
     (let never = bus_usb \<and> (ucast vendor :: u32) = LOGITECH_VENDOR_ID \<and> product \<in> set NEVER_DEBOUNCED in
      \<lparr>db_state = (if never then Disabled else IsUp), db_button = None, db_spurious = False,
       db_bounce_at = None, db_spurious_at = None, db_report = []\<rparr>)"

definition changed :: "ButtonChange \<Rightarrow> ButtonDebounce \<Rightarrow> ButtonDebounce" where
  "changed change bd = bd\<lparr>db_report := db_report bd @ [change]\<rparr>"

definition db_press :: "ButtonDebounce \<Rightarrow> ButtonChange option" where
  "db_press bd = map_option (\<lambda>b. \<lparr>bc_button = b, bc_pressed = True\<rparr>) (db_button bd)"

definition db_release :: "ButtonDebounce \<Rightarrow> ButtonChange option" where
  "db_release bd = map_option (\<lambda>b. \<lparr>bc_button = b, bc_pressed = False\<rparr>) (db_button bd)"

definition start_bounce_timer :: "nat \<Rightarrow> ButtonDebounce \<Rightarrow> ButtonDebounce" where
  "start_bounce_timer now bd = bd\<lparr>db_bounce_at := Some (now + BOUNCE_TIMEOUT)\<rparr>"

definition start_spurious_timer :: "nat \<Rightarrow> ButtonDebounce \<Rightarrow> ButtonDebounce" where
  "start_spurious_timer now bd = bd\<lparr>db_spurious_at := Some (now + SPURIOUS_TIMEOUT)\<rparr>"

definition cancel_timers :: "ButtonDebounce \<Rightarrow> ButtonDebounce" where
  "cancel_timers bd = bd\<lparr>db_bounce_at := None, db_spurious_at := None\<rparr>"

lemmas timer_defs = start_bounce_timer_def start_spurious_timer_def cancel_timers_def

text \<open>The per-state handlers; the pairs not listed change nothing.\<close>

fun transition ::
  "debounce_state \<Rightarrow> debounce_event \<Rightarrow> nat \<Rightarrow> ButtonDebounce \<Rightarrow> ButtonDebounce \<times> ButtonChange option"
  where
  "transition IsUp Press now bd =
     ((start_bounce_timer now bd)\<lparr>db_state := IsDownWaiting\<rparr>, db_press bd)"
| "transition IsDown Release now bd =
     (let bd' = start_spurious_timer now (start_bounce_timer now bd) in
      if db_spurious bd then (bd'\<lparr>db_state := IsUpDelayingSpurious\<rparr>, None)
      else (bd'\<lparr>db_state := IsUpDetectingSpurious\<rparr>, db_release bd))"
| "transition IsDownWaiting Release now bd =
     ((start_bounce_timer now bd)\<lparr>db_state := IsUpDelaying\<rparr>, None)"
| "transition IsDownWaiting Timeout now bd = (bd\<lparr>db_state := IsDown\<rparr>, None)"
| "transition IsDownWaiting OtherButton now bd = (bd\<lparr>db_state := IsDown\<rparr>, None)"
| "transition IsUpDelaying Press now bd =
     ((start_bounce_timer now bd)\<lparr>db_state := IsDownWaiting\<rparr>, None)"
| "transition IsUpDelaying Timeout now bd = (bd\<lparr>db_state := IsUp\<rparr>, db_release bd)"
| "transition IsUpDelaying OtherButton now bd = (bd\<lparr>db_state := IsUp\<rparr>, db_release bd)"
| "transition IsUpDelayingSpurious OtherButton now bd = (bd\<lparr>db_state := IsUp\<rparr>, db_release bd)"
| "transition IsUpDelayingSpurious Press now bd = ((cancel_timers bd)\<lparr>db_state := IsDown\<rparr>, None)"
| "transition IsUpDelayingSpurious TimeoutShort now bd = (bd\<lparr>db_state := IsUpWaiting\<rparr>, db_release bd)"
| "transition IsUpDetectingSpurious Press now bd =
     ((start_spurious_timer now (start_bounce_timer now bd))\<lparr>db_state := IsDownDetectingSpurious\<rparr>, None)"
| "transition IsUpDetectingSpurious Timeout now bd = (bd\<lparr>db_state := IsUp\<rparr>, None)"
| "transition IsUpDetectingSpurious OtherButton now bd = (bd\<lparr>db_state := IsUp\<rparr>, None)"
| "transition IsUpWaiting Timeout now bd = (bd\<lparr>db_state := IsUp\<rparr>, None)"
| "transition IsUpWaiting OtherButton now bd = (bd\<lparr>db_state := IsUp\<rparr>, None)"
| "transition IsUpDetectingSpurious TimeoutShort now bd = (bd\<lparr>db_state := IsUpWaiting\<rparr>, None)"
| "transition IsDownDetectingSpurious Release now bd =
     ((start_spurious_timer now (start_bounce_timer now bd))\<lparr>db_state := IsUpDetectingSpurious\<rparr>, None)"
| "transition IsDownDetectingSpurious TimeoutShort now bd =
     (bd\<lparr>db_bounce_at := None, db_state := IsDown, db_spurious := True\<rparr>, db_press bd)"
| "transition IsDownDetectingSpurious Timeout now bd = (bd\<lparr>db_state := IsDown\<rparr>, db_press bd)"
| "transition IsDownDetectingSpurious OtherButton now bd = (bd\<lparr>db_state := IsDown\<rparr>, db_press bd)"
| "transition IsDownDelaying Timeout now bd = (bd\<lparr>db_state := IsDown\<rparr>, db_press bd)"
| "transition IsDownDelaying OtherButton now bd = (bd\<lparr>db_state := IsDown\<rparr>, db_press bd)"
| "transition IsUpWaiting Press now bd =
     ((start_bounce_timer now bd)\<lparr>db_state := IsDownDelaying\<rparr>, None)"
| "transition IsDownDelaying Release now bd =
     ((start_bounce_timer now bd)\<lparr>db_state := IsUpWaiting\<rparr>, None)"
| "transition Disabled Press now bd = (bd, db_press bd)"
| "transition Disabled Release now bd = (bd, db_release bd)"
| "transition _ _ now bd = (bd, None)"

definition handle ::
  "debounce_event \<Rightarrow> nat \<Rightarrow> ButtonDebounce \<Rightarrow> ButtonDebounce \<times> ButtonChange option" where
  "handle event now bd0 =
     (let bd = (if event = OtherButton then cancel_timers bd0 else bd0) in
      transition (db_state bd) event now bd)"

definition take_due :: "nat \<Rightarrow> ButtonDebounce \<Rightarrow> (debounce_event \<times> ButtonDebounce) option" where
  "take_due now bd =
     (if (case db_spurious_at bd of Some at \<Rightarrow> at \<le> now | None \<Rightarrow> False)
      then Some (TimeoutShort, bd\<lparr>db_spurious_at := None\<rparr>)
      else if (case db_bounce_at bd of Some at \<Rightarrow> at \<le> now | None \<Rightarrow> False)
      then Some (Timeout, bd\<lparr>db_bounce_at := None\<rparr>)
      else None)"

text \<open>\<open>deliver.extend(option)\<close>\<close>

definition opt_list :: "'a option \<Rightarrow> 'a list" where
  "opt_list x = (case x of None \<Rightarrow> [] | Some a \<Rightarrow> [a])"

definition timers :: "ButtonDebounce \<Rightarrow> nat" where
  "timers bd = length (opt_list (db_bounce_at bd)) + length (opt_list (db_spurious_at bd))"

lemma take_due_timers: "take_due now bd = Some (ev, bd') \<Longrightarrow> timers bd' < timers bd"
  by (auto simp: take_due_def timers_def opt_list_def split: if_splits option.splits)

lemma take_due_event: "take_due now bd = Some (ev, bd') \<Longrightarrow> ev = Timeout \<or> ev = TimeoutShort"
  by (auto simp: take_due_def split: if_splits)

lemma handle_timeout_timers:
  "ev = Timeout \<or> ev = TimeoutShort \<Longrightarrow> timers (fst (handle ev now bd)) \<le> timers bd"
  by (cases "db_state bd") (auto simp: handle_def timers_def opt_list_def)

text \<open>The loop of \<open>expire\<close> ends because every turn stops a timer and no timeout starts one.\<close>

function expire :: "nat \<Rightarrow> ButtonDebounce \<Rightarrow> ButtonDebounce \<times> ButtonChange list" where
  "expire now bd =
     (case take_due now bd of
        None \<Rightarrow> (bd, [])
      | Some (event, bd) \<Rightarrow>
          (let (bd, d) = handle event now bd;
               (bd, ds) = expire now bd in
           (bd, opt_list d @ ds)))"
  by pat_completeness auto
termination
proof (relation "measure (\<lambda>(now, bd). timers bd)")
  fix now bd p event bd1 q bd2 d
  assume "take_due now bd = Some p" "(event, bd1) = p" "q = handle event now bd1" "(bd2, d) = q"
  then show "((now, bd2), now, bd) \<in> measure (\<lambda>(now, bd). timers bd)"
    using take_due_timers [of now bd event bd1] take_due_event [of now bd event bd1]
      handle_timeout_timers [of event now bd1]
    by (metis (no_types, lifting) case_prod_conv fst_conv in_measure le_less_trans)
qed simp

definition deadline :: "ButtonDebounce \<Rightarrow> nat option" where
  "deadline bd =
     (case opt_list (db_bounce_at bd) @ opt_list (db_spurious_at bd) of
        [] \<Rightarrow> None | x # xs \<Rightarrow> Some (fold min xs x))"

definition release_held :: "nat \<Rightarrow> ButtonDebounce \<Rightarrow> ButtonDebounce \<times> ButtonChange option" where
  "release_held now bd =
     (case db_state bd of
        IsUpDelaying \<Rightarrow> handle OtherButton now bd
      | IsUpDelayingSpurious \<Rightarrow> handle OtherButton now bd
      | _ \<Rightarrow> (bd, None))"

text \<open>The loop of \<open>end_report\<close> over the changes, with its \<open>flushed\<close> flag: \<open>retarget\<close> is the start
  of its body, which puts a flushed state at rest on the change's side and names its button.\<close>

definition retarget :: "bool \<Rightarrow> ButtonChange \<Rightarrow> ButtonDebounce \<Rightarrow> ButtonDebounce" where
  "retarget flushed c bd =
     (if flushed \<and> db_state bd \<noteq> Disabled
      then bd\<lparr>db_state := (if bc_pressed c then IsUp else IsDown)\<rparr> else bd)\<lparr>db_button := Some (bc_button c)\<rparr>"

fun report_changes ::
  "nat \<Rightarrow> bool \<Rightarrow> bool \<Rightarrow> ButtonChange list \<Rightarrow> ButtonDebounce \<Rightarrow> ButtonDebounce \<times> ButtonChange list" where
  "report_changes now several flushed [] bd = (bd, [])"
| "report_changes now several flushed (change # changes) bd =
     (let (bd1, d) = handle (if bc_pressed change then Press else Release) now (retarget flushed change bd);
          (bd2, d') = (if several then handle OtherButton now bd1 else (bd1, None));
          (bd3, ds) = report_changes now several (flushed \<and> db_state bd = Disabled \<or> several) changes bd2 in
      (bd3, opt_list d @ opt_list d' @ ds))"

definition end_report :: "nat \<Rightarrow> ButtonDebounce \<Rightarrow> ButtonDebounce \<times> ButtonChange list" where
  "end_report now bd =
     (let (bd, ds0) = expire now bd;
          report = db_report bd;
          several = 1 < length report;
          other = (case report of [] \<Rightarrow> False
                   | first # _ \<Rightarrow> several \<or> db_button bd \<noteq> Some (bc_button first));
          (bd, d) = (if other then handle OtherButton now bd else (bd, None));
          (bd, ds) = report_changes now several other report bd in
      (bd\<lparr>db_report := []\<rparr>, ds0 @ opt_list d @ ds))"

declare expire.simps [simp del]

section \<open>What the switch does and what the callback saw\<close>

text \<open>
  The buttons that are down, as a set: \<open>raw\<close> follows the reports, \<open>seen\<close> the delivered changes.
  A stream flips when every change is one, so that no press follows a press of the same button.
\<close>

definition apply_change :: "ButtonChange \<Rightarrow> KeyCode set \<Rightarrow> KeyCode set" where
  "apply_change c D = (if bc_pressed c then insert (bc_button c) D else D - {bc_button c})"

fun apply_changes :: "ButtonChange list \<Rightarrow> KeyCode set \<Rightarrow> KeyCode set" where
  "apply_changes [] D = D"
| "apply_changes (c # cs) D = apply_changes cs (apply_change c D)"

fun flips :: "KeyCode set \<Rightarrow> ButtonChange list \<Rightarrow> bool" where
  "flips D [] \<longleftrightarrow> True"
| "flips D (c # cs) \<longleftrightarrow> (bc_pressed c \<longleftrightarrow> bc_button c \<notin> D) \<and> flips (apply_change c D) cs"

lemma apply_changes_append [simp]: "apply_changes (xs @ ys) D = apply_changes ys (apply_changes xs D)"
  by (induction xs arbitrary: D) auto

lemma flips_append [simp]: "flips D (xs @ ys) \<longleftrightarrow> flips D xs \<and> flips (apply_changes xs D) ys"
  by (induction xs arbitrary: D) auto

lemma opt_list_simps [simp]: "opt_list None = []" "opt_list (Some x) = [x]"
  by (simp_all add: opt_list_def)

fun raw_view :: "debounce_state \<Rightarrow> bool" where
  "raw_view IsDown = True" | "raw_view IsDownWaiting = True"
| "raw_view IsDownDetectingSpurious = True" | "raw_view IsDownDelaying = True"
| "raw_view _ = False"

fun seen_view :: "debounce_state \<Rightarrow> bool" where
  "seen_view IsDown = True" | "seen_view IsDownWaiting = True"
| "seen_view IsUpDelaying = True" | "seen_view IsUpDelayingSpurious = True"
| "seen_view _ = False"

fun timers_ok :: "debounce_state \<Rightarrow> nat option \<Rightarrow> nat option \<Rightarrow> bool" where
  "timers_ok IsUp b s \<longleftrightarrow> b = None \<and> s = None"
| "timers_ok IsDown b s \<longleftrightarrow> b = None \<and> s = None"
| "timers_ok Disabled b s \<longleftrightarrow> b = None \<and> s = None"
| "timers_ok IsUpDelayingSpurious b s \<longleftrightarrow> (\<exists>x y. b = Some x \<and> s = Some y \<and> y \<le> x)"
| "timers_ok IsUpDetectingSpurious b s \<longleftrightarrow> (\<exists>x y. b = Some x \<and> s = Some y \<and> y \<le> x)"
| "timers_ok IsDownDetectingSpurious b s \<longleftrightarrow> (\<exists>x y. b = Some x \<and> s = Some y \<and> y \<le> x)"
| "timers_ok _ b s \<longleftrightarrow> (\<exists>x. b = Some x) \<and> s = None"

text \<open>Nothing is held of a button that is not tracked; of the tracked one, the state says both.\<close>

definition views_ok :: "ButtonDebounce \<Rightarrow> KeyCode set \<Rightarrow> KeyCode set \<Rightarrow> bool" where
  "views_ok bd raw seen \<longleftrightarrow>
     (case db_button bd of
        None \<Rightarrow> raw = seen \<and> (db_state bd = IsUp \<or> db_state bd = Disabled)
      | Some b \<Rightarrow>
          raw - {b} = seen - {b} \<and>
          (if db_state bd = Disabled then b \<in> raw \<longleftrightarrow> b \<in> seen
           else (b \<in> raw \<longleftrightarrow> raw_view (db_state bd)) \<and> (b \<in> seen \<longleftrightarrow> seen_view (db_state bd))))"

definition db_inv :: "ButtonDebounce \<Rightarrow> KeyCode set \<Rightarrow> KeyCode set \<Rightarrow> bool" where
  "db_inv bd raw seen \<longleftrightarrow>
     views_ok bd raw seen \<and> timers_ok (db_state bd) (db_bounce_at bd) (db_spurious_at bd)"

definition at_rest :: "ButtonDebounce \<Rightarrow> bool" where
  "at_rest bd \<longleftrightarrow> db_state bd \<in> {IsUp, IsDown, Disabled}"

text \<open>A step that ends in \<open>bd\<close>, the switch now at \<open>raw\<close>, and delivered \<open>ds\<close>.\<close>

definition step_ok :: "KeyCode set \<Rightarrow> ButtonDebounce \<Rightarrow> KeyCode set \<Rightarrow> ButtonChange list \<Rightarrow> bool" where
  "step_ok seen bd raw ds \<longleftrightarrow> flips seen ds \<and> db_inv bd raw (apply_changes ds seen)"

lemma step_ok_nil: "db_inv bd raw seen \<Longrightarrow> step_ok seen bd raw []"
  by (simp add: step_ok_def)

lemma step_ok_append:
  "flips seen xs \<Longrightarrow> step_ok (apply_changes xs seen) bd raw ys \<Longrightarrow> step_ok seen bd raw (xs @ ys)"
  by (simp add: step_ok_def)

lemmas handle_defs = handle_def Let_def timer_defs db_press_def db_release_def

lemma handle_change_step:
  assumes "db_inv bd raw seen" and "db_button bd = Some (bc_button c)"
    and "bc_pressed c \<longleftrightarrow> bc_button c \<notin> raw"
  shows "step_ok seen (fst (handle (if bc_pressed c then Press else Release) now bd))
      (apply_change c raw) (opt_list (snd (handle (if bc_pressed c then Press else Release) now bd)))
    \<and> db_button (fst (handle (if bc_pressed c then Press else Release) now bd)) = db_button bd"
  using assms
  by (cases "db_state bd"; cases "bc_pressed c"; cases "db_spurious bd")
    (simp_all add: handle_defs step_ok_def db_inv_def views_ok_def apply_change_def
      BOUNCE_TIMEOUT_def SPURIOUS_TIMEOUT_def)

lemma handle_change:
  assumes "db_inv bd raw seen" and "db_button bd = Some (bc_button c)"
    and "bc_pressed c \<longleftrightarrow> bc_button c \<notin> raw"
    and "handle (if bc_pressed c then Press else Release) now bd = (bd', d)"
  shows "step_ok seen bd' (apply_change c raw) (opt_list d) \<and> db_button bd' = db_button bd"
  using handle_change_step [OF assms(1-3), of now] unfolding assms(4) by simp

lemma handle_other_step:
  assumes "db_inv bd raw seen"
  shows "step_ok seen (fst (handle OtherButton now bd)) raw (opt_list (snd (handle OtherButton now bd)))
    \<and> at_rest (fst (handle OtherButton now bd))"
  using assms
  by (cases "db_state bd"; cases "db_button bd")
    (simp_all add: handle_defs step_ok_def db_inv_def views_ok_def apply_change_def at_rest_def)

lemma handle_other:
  assumes "db_inv bd raw seen" and "handle OtherButton now bd = (bd', d)"
  shows "step_ok seen bd' raw (opt_list d) \<and> at_rest bd'"
  using handle_other_step [OF assms(1), of now] unfolding assms(2) by simp

lemma due_short:
  assumes "db_inv bd raw seen" and "db_spurious_at bd = Some y"
  shows "step_ok seen (fst (handle TimeoutShort now (bd\<lparr>db_spurious_at := None\<rparr>))) raw
    (opt_list (snd (handle TimeoutShort now (bd\<lparr>db_spurious_at := None\<rparr>))))"
  using assms
  by (cases "db_state bd"; cases "db_button bd")
    (simp_all add: handle_defs step_ok_def db_inv_def views_ok_def apply_change_def, blast+)

lemma due_bounce:
  assumes "db_inv bd raw seen" and "db_spurious_at bd = None" and "db_bounce_at bd = Some x"
  shows "step_ok seen (fst (handle Timeout now (bd\<lparr>db_bounce_at := None\<rparr>))) raw
    (opt_list (snd (handle Timeout now (bd\<lparr>db_bounce_at := None\<rparr>))))"
  using assms
  by (cases "db_state bd"; cases "db_button bd")
    (simp_all add: handle_defs step_ok_def db_inv_def views_ok_def apply_change_def)

text \<open>The short timer, when it runs, is due no later than the other, so it is always taken first.\<close>

lemma bounce_due_alone:
  assumes "db_inv bd raw seen" and "db_bounce_at bd = Some x" and "x \<le> now"
    and "\<not> (case db_spurious_at bd of Some at \<Rightarrow> at \<le> now | None \<Rightarrow> False)"
  shows "db_spurious_at bd = None"
  using assms by (cases "db_state bd") (auto simp: db_inv_def)

lemma handle_due:
  assumes "db_inv bd raw seen" and "take_due now bd = Some (ev, bd1)"
  shows "step_ok seen (fst (handle ev now bd1)) raw (opt_list (snd (handle ev now bd1)))"
proof (cases "case db_spurious_at bd of Some at \<Rightarrow> at \<le> now | None \<Rightarrow> False")
  case True
  then obtain y where "db_spurious_at bd = Some y" by (auto split: option.splits)
  moreover from True assms(2) have "ev = TimeoutShort" "bd1 = bd\<lparr>db_spurious_at := None\<rparr>"
    by (simp_all add: take_due_def)
  ultimately show ?thesis using due_short [OF assms(1)] by blast
next
  case False
  with assms(2) obtain x where x: "db_bounce_at bd = Some x" "x \<le> now" "ev = Timeout"
      "bd1 = bd\<lparr>db_bounce_at := None\<rparr>"
    by (auto simp: take_due_def split: if_splits option.splits)
  with bounce_due_alone [OF assms(1) x(1,2) False] due_bounce [OF assms(1)] show ?thesis by blast
qed

section \<open>Whole operations\<close>

lemma expire_rest: "take_due now bd = None \<Longrightarrow> expire now bd = (bd, [])"
  by (subst expire.simps) simp

lemma expire_turn:
  "take_due now bd = Some (ev, bd1) \<Longrightarrow> handle ev now bd1 = (bd2, d) \<Longrightarrow>
     expire now bd = (fst (expire now bd2), opt_list d @ snd (expire now bd2))"
  by (subst expire.simps) (simp split: prod.splits)

lemma expire_loop_induct [case_names rest turn]:
  assumes "\<And>bd. take_due now bd = None \<Longrightarrow> P bd"
    and "\<And>bd ev bd1 bd2 d. take_due now bd = Some (ev, bd1) \<Longrightarrow> handle ev now bd1 = (bd2, d) \<Longrightarrow>
      P bd2 \<Longrightarrow> P bd"
  shows "P bd"
proof (induction bd rule: measure_induct_rule [of timers])
  case (less bd)
  show ?case
  proof (cases "take_due now bd")
    case (Some p)
    obtain ev bd1 where p: "p = (ev, bd1)" by force
    obtain bd2 d where h: "handle ev now bd1 = (bd2, d)" by force
    have "timers bd2 < timers bd"
      using take_due_timers [OF Some [unfolded p]] take_due_event [OF Some [unfolded p]]
        handle_timeout_timers [of ev now bd1] by (simp add: h)
    from assms(2) [OF Some [unfolded p] h less [OF this]] show ?thesis .
  qed (rule assms(1))
qed

lemma expire_ok:
  "db_inv bd raw seen \<Longrightarrow> step_ok seen (fst (expire now bd)) raw (snd (expire now bd))"
proof (induction bd arbitrary: seen rule: expire_loop_induct [of now])
  case (rest bd)
  then show ?case by (simp add: expire_rest step_ok_nil)
next
  case (turn bd ev bd1 bd2 d)
  have s: "step_ok seen bd2 raw (opt_list d)"
    using handle_due [OF turn.prems turn.hyps(1)] turn.hyps(2) by simp
  then have "step_ok (apply_changes (opt_list d) seen) (fst (expire now bd2)) raw (snd (expire now bd2))"
    by (intro turn.IH) (simp add: step_ok_def)
  with s show ?case
    by (simp add: expire_turn [OF turn.hyps] step_ok_append step_ok_def)
qed

lemma expire_no_due: "take_due now (fst (expire now bd)) = None"
  by (induction bd rule: expire_loop_induct [of now]) (simp_all add: expire_rest expire_turn)

lemma handle_report [simp]: "db_report (fst (handle ev now bd)) = db_report bd"
  by (cases ev; cases "db_state bd") (simp_all add: handle_defs)

lemma take_due_report: "take_due now bd = Some (ev, bd') \<Longrightarrow> db_report bd' = db_report bd"
  by (auto simp: take_due_def split: if_splits)

lemma expire_report [simp]: "db_report (fst (expire now bd)) = db_report bd"
proof (induction bd rule: expire_loop_induct [of now])
  case (turn bd ev bd1 bd2 d)
  then show ?case
    using handle_report [of ev now bd1] take_due_report [OF turn.hyps(1)]
    by (simp add: expire_turn [OF turn.hyps])
qed (simp add: expire_rest)

lemma Diff_single_eqD: "A - {b} = B - {b} \<Longrightarrow> (b \<in> A \<longleftrightarrow> b \<in> B) \<Longrightarrow> A = B"
  by blast

lemma rest_seen:
  assumes "db_inv bd raw seen" and "at_rest bd"
  shows "raw = seen"
proof (cases "db_button bd")
  case None
  with assms show ?thesis by (simp add: db_inv_def views_ok_def)
next
  case (Some b)
  with assms have "raw - {b} = seen - {b}" "b \<in> raw \<longleftrightarrow> b \<in> seen"
    by (cases "db_state bd"; simp add: db_inv_def views_ok_def at_rest_def)+
  then show ?thesis by (rule Diff_single_eqD)
qed

text \<open>A report's change, after a flush or for the tracked button.\<close>

lemma retarget_inv:
  assumes "db_inv bd raw seen" and "at_rest bd" and "bc_pressed c \<longleftrightarrow> bc_button c \<notin> raw"
  shows "db_inv ((if db_state bd \<noteq> Disabled
      then bd\<lparr>db_state := (if bc_pressed c then IsUp else IsDown)\<rparr> else bd)\<lparr>db_button := Some (bc_button c)\<rparr>) raw seen"
  using assms rest_seen [OF assms(1,2)]
  by (cases "db_state bd") (simp_all add: db_inv_def views_ok_def at_rest_def)

lemma retarget_ok:
  assumes "db_inv bd raw seen" and "bc_pressed c \<longleftrightarrow> bc_button c \<notin> raw"
    and "if flushed then at_rest bd else db_button bd = Some (bc_button c)"
  shows "db_inv (retarget flushed c bd) raw seen"
proof (cases flushed)
  case True
  with retarget_inv [OF assms(1) _ assms(2)] assms(3) show ?thesis by (simp add: retarget_def)
next
  case False
  with assms(1,3) show ?thesis by (simp add: retarget_def db_inv_def views_ok_def)
qed

lemma report_changes_ok:
  assumes "db_inv bd raw seen" and "flips raw cs" and "several \<or> length cs \<le> 1"
    and "if flushed then at_rest bd else \<not> several \<and> (\<forall>c \<in> set cs. db_button bd = Some (bc_button c))"
  shows "step_ok seen (fst (report_changes now several flushed cs bd)) (apply_changes cs raw)
      (snd (report_changes now several flushed cs bd))"
  using assms
proof (induction cs arbitrary: bd raw seen flushed)
  case Nil
  then show ?case by (simp add: step_ok_nil)
next
  case (Cons c cs)
  from Cons.prems have phys: "bc_pressed c \<longleftrightarrow> bc_button c \<notin> raw" "flips (apply_change c raw) cs" by auto
  obtain bd1 d where h: "handle (if bc_pressed c then Press else Release) now (retarget flushed c bd) = (bd1, d)"
    by force
  have s1: "step_ok seen bd1 (apply_change c raw) (opt_list d)"
    using handle_change [OF retarget_ok [OF Cons.prems(1) phys(1)] _ phys(1) h] Cons.prems(4)
    by (simp add: retarget_def split: if_splits)
  obtain bd2 d' where o: "(if several then handle OtherButton now bd1 else (bd1, None)) = (bd2, d')" by force
  have i1: "db_inv bd1 (apply_change c raw) (apply_changes (opt_list d) seen)"
    using s1 by (simp add: step_ok_def)
  define f where "f \<longleftrightarrow> flushed \<and> db_state bd = Disabled \<or> several"
  have eq: "report_changes now several flushed (c # cs) bd = (fst (report_changes now several f cs bd2),
      opt_list d @ opt_list d' @ snd (report_changes now several f cs bd2))"
    by (simp only: report_changes.simps Let_def h o f_def [symmetric] case_prod_beta fst_conv snd_conv)
  have s2: "step_ok (apply_changes (opt_list d) seen) bd2 (apply_change c raw) (opt_list d')"
    and rest: "several \<Longrightarrow> at_rest bd2"
    using handle_other [OF i1] o step_ok_nil [OF i1] by (auto split: if_splits)
  define seen2 where "seen2 = apply_changes (opt_list d') (apply_changes (opt_list d) seen)"
  have i2: "db_inv bd2 (apply_change c raw) seen2" using s2 by (simp add: step_ok_def seen2_def)
  have "step_ok seen2 (fst (report_changes now several f cs bd2))
      (apply_changes cs (apply_change c raw)) (snd (report_changes now several f cs bd2))"
  proof (cases several)
    case True
    with rest show ?thesis by (intro Cons.IH [OF i2 phys(2)]) (auto simp: f_def)
  next
    case False
    with Cons.prems(3) have "cs = []" by simp
    with i2 show ?thesis by (simp add: step_ok_nil)
  qed
  with s1 s2 show ?case unfolding eq by (simp add: step_ok_def seen2_def)
qed

lemma db_inv_report [simp]: "db_inv (bd\<lparr>db_report := r\<rparr>) raw seen = db_inv bd raw seen"
  by (cases "db_button bd") (simp_all add: db_inv_def views_ok_def)

lemma end_report_ok:
  assumes "db_inv bd raw seen" and "flips raw (db_report bd)"
  shows "step_ok seen (fst (end_report now bd)) (apply_changes (db_report bd) raw) (snd (end_report now bd))"
proof -
  obtain bd1 ds0 where e: "expire now bd = (bd1, ds0)" by force
  define report where "report = db_report bd"
  have r1: "db_report bd1 = report" using expire_report [of now bd] by (simp add: e report_def)
  define several where "several \<longleftrightarrow> 1 < length report"
  define other where "other \<longleftrightarrow> (case report of [] \<Rightarrow> False
                   | first # _ \<Rightarrow> several \<or> db_button bd1 \<noteq> Some (bc_button first))"
  obtain bd2 d where o: "(if other then handle OtherButton now bd1 else (bd1, None)) = (bd2, d)" by force
  obtain bd3 ds where c: "report_changes now several other report bd2 = (bd3, ds)" by force
  have eq: "end_report now bd = (bd3\<lparr>db_report := []\<rparr>, ds0 @ opt_list d @ ds)"
    by (simp only: end_report_def Let_def e prod.case r1 several_def [symmetric] other_def [symmetric] o c)
  have s0: "step_ok seen bd1 raw ds0" using expire_ok [OF assms(1), of now] by (simp add: e)
  define seen1 where "seen1 = apply_changes ds0 seen"
  have i1: "db_inv bd1 raw seen1" using s0 by (simp add: step_ok_def seen1_def)
  have s1: "step_ok seen1 bd2 raw (opt_list d)" and rest: "if other then at_rest bd2 else bd2 = bd1"
    using handle_other [OF i1] o step_ok_nil [OF i1] by (auto split: if_splits)
  define seen2 where "seen2 = apply_changes (opt_list d) seen1"
  have i2: "db_inv bd2 raw seen2" using s1 by (simp add: step_ok_def seen2_def)
  have "step_ok seen2 bd3 (apply_changes report raw) ds"
    using report_changes_ok [OF i2, of report several other now] assms(2) rest c
    by (cases report) (auto simp: other_def several_def report_def [symmetric] split: if_splits)
  with s0 s1 show ?thesis
    by (simp add: eq step_ok_def seen1_def seen2_def report_def)
qed

section \<open>The device thread\<close>

text \<open>
  The thread that owns the debouncer: it hands over the changes of a report and ends it, wakes for
  the deadline, and delivers a held release when it stops. \<open>hs_raw\<close> and \<open>hs_delivered\<close> record what
  the switch did and what the callback was given. A report is one a kernel can produce: each of its
  changes is a change.
\<close>

record hook_state =
  hs_debounce :: ButtonDebounce
  hs_raw :: "KeyCode set"
  hs_delivered :: "ButtonChange list"
  hs_now :: nat

datatype hook_event = HReport nat "ButtonChange list" | HWake nat | HStop nat

fun hook_step :: "hook_state \<Rightarrow> hook_event \<Rightarrow> hook_state option" where
  "hook_step s (HReport now cs) =
     (if hs_now s \<le> now \<and> flips (hs_raw s) cs
      then (let (bd, ds) = end_report now (fold changed cs (hs_debounce s)) in
            Some \<lparr>hs_debounce = bd, hs_raw = apply_changes cs (hs_raw s),
                  hs_delivered = hs_delivered s @ ds, hs_now = now\<rparr>)
      else None)"
| "hook_step s (HWake now) =
     (if hs_now s \<le> now
      then (let (bd, ds) = expire now (hs_debounce s) in
            Some (s\<lparr>hs_debounce := bd, hs_delivered := hs_delivered s @ ds, hs_now := now\<rparr>))
      else None)"
| "hook_step s (HStop now) =
     (if hs_now s \<le> now
      then (let (bd, d) = release_held now (hs_debounce s) in
            Some (s\<lparr>hs_debounce := bd, hs_delivered := hs_delivered s @ opt_list d, hs_now := now\<rparr>))
      else None)"

definition hook_init :: "hook_state \<Rightarrow> bool" where
  "hook_init s \<longleftrightarrow> (\<exists>usb vendor product. hs_debounce s = for_device usb vendor product)
     \<and> hs_raw s = {} \<and> hs_delivered s = []"

definition hs_seen :: "hook_state \<Rightarrow> KeyCode set" where
  "hs_seen s = apply_changes (hs_delivered s) {}"

text \<open>No timer runs longer than the bounce timeout from the last event.\<close>

definition timers_before :: "nat \<Rightarrow> ButtonDebounce \<Rightarrow> bool" where
  "timers_before t bd \<longleftrightarrow> (\<forall>x. db_bounce_at bd = Some x \<longrightarrow> x \<le> t) \<and> (\<forall>x. db_spurious_at bd = Some x \<longrightarrow> x \<le> t)"

definition hook_inv :: "hook_state \<Rightarrow> bool" where
  "hook_inv s \<longleftrightarrow> db_inv (hs_debounce s) (hs_raw s) (hs_seen s) \<and> flips {} (hs_delivered s)
     \<and> db_report (hs_debounce s) = [] \<and> timers_before (hs_now s + BOUNCE_TIMEOUT) (hs_debounce s)"

lemma handle_timers_before:
  "timers_before (now + BOUNCE_TIMEOUT) bd \<Longrightarrow> timers_before (now + BOUNCE_TIMEOUT) (fst (handle ev now bd))"
  by (cases ev; cases "db_state bd")
    (simp_all add: handle_defs timers_before_def BOUNCE_TIMEOUT_def SPURIOUS_TIMEOUT_def)

lemma timers_before_mono: "timers_before t bd \<Longrightarrow> t \<le> u \<Longrightarrow> timers_before u bd"
  by (auto simp: timers_before_def intro: order.trans)

lemma take_due_timers_before: "take_due now bd = Some (ev, bd') \<Longrightarrow> timers_before t bd \<Longrightarrow> timers_before t bd'"
  by (auto simp: take_due_def timers_before_def split: if_splits)

lemma expire_timers_before:
  "timers_before (now + BOUNCE_TIMEOUT) bd \<Longrightarrow> timers_before (now + BOUNCE_TIMEOUT) (fst (expire now bd))"
proof (induction bd rule: expire_loop_induct [of now])
  case (turn bd ev bd1 bd2 d)
  then show ?case
    using handle_timers_before [of now bd1 ev] take_due_timers_before [OF turn.hyps(1)]
    by (simp add: expire_turn [OF turn.hyps])
qed (simp add: expire_rest)

lemma retarget_timers_before [simp]: "timers_before t (retarget f c bd) = timers_before t bd"
  by (simp add: retarget_def timers_before_def)

lemma report_changes_timers_before:
  "timers_before (now + BOUNCE_TIMEOUT) bd \<Longrightarrow>
     timers_before (now + BOUNCE_TIMEOUT) (fst (report_changes now several f cs bd))"
proof (induction cs arbitrary: f bd)
  case (Cons c cs)
  define bd1 where "bd1 = fst (handle (if bc_pressed c then Press else Release) now (retarget f c bd))"
  define bd2 where "bd2 = fst (if several then handle OtherButton now bd1 else (bd1, None))"
  have "timers_before (now + BOUNCE_TIMEOUT) bd1" using Cons.prems by (simp only: bd1_def handle_timers_before retarget_timers_before)
  then have "timers_before (now + BOUNCE_TIMEOUT) bd2" by (auto simp: bd2_def intro: handle_timers_before)
  from Cons.IH [OF this] show ?case
    by (simp only: report_changes.simps Let_def case_prod_beta fst_conv bd1_def [symmetric] bd2_def [symmetric])
qed simp

lemma fold_changed: "fold changed cs bd = bd\<lparr>db_report := db_report bd @ cs\<rparr>"
  by (induction cs arbitrary: bd) (simp_all add: changed_def)

lemma end_report_timers_before:
  "timers_before (now + BOUNCE_TIMEOUT) bd \<Longrightarrow> timers_before (now + BOUNCE_TIMEOUT) (fst (end_report now bd))"
  unfolding end_report_def Let_def case_prod_beta fst_conv
  by (auto simp: timers_before_def [where bd = "_\<lparr>db_report := []\<rparr>"] simp flip: timers_before_def
      intro!: report_changes_timers_before handle_timers_before expire_timers_before)

lemma release_held_step:
  assumes "db_inv bd raw seen"
  shows "step_ok seen (fst (release_held now bd)) raw (opt_list (snd (release_held now bd)))"
  using handle_other_step [OF assms, of now] step_ok_nil [OF assms]
  by (simp add: release_held_def split: debounce_state.splits)

lemma release_held_frame:
  "db_report (fst (release_held now bd)) = db_report bd"
  "timers_before (now + BOUNCE_TIMEOUT) bd \<Longrightarrow> timers_before (now + BOUNCE_TIMEOUT) (fst (release_held now bd))"
  using handle_timers_before [of now bd OtherButton]
  by (simp_all add: release_held_def split: debounce_state.splits)

lemma end_report_report [simp]: "db_report (fst (end_report now bd)) = []"
  by (simp add: end_report_def Let_def case_prod_beta)

lemma hook_inv_extend:
  assumes "hook_inv s" and "step_ok (hs_seen s) bd raw ds" and "db_report bd = []"
    and "timers_before (now + BOUNCE_TIMEOUT) bd"
  shows "hook_inv \<lparr>hs_debounce = bd, hs_raw = raw, hs_delivered = hs_delivered s @ ds, hs_now = now\<rparr>"
  using assms by (simp add: hook_inv_def step_ok_def hs_seen_def)

lemma hook_step_inv:
  assumes inv: "hook_inv s" and st: "hook_step s e = Some s'"
  shows "hook_inv s'"
proof -
  have dbi: "db_inv (hs_debounce s) (hs_raw s) (hs_seen s)" and rep: "db_report (hs_debounce s) = []"
    and tb: "hs_now s \<le> now \<Longrightarrow> timers_before (now + BOUNCE_TIMEOUT) (hs_debounce s)" for now
    using inv timers_before_mono [of "hs_now s + BOUNCE_TIMEOUT" "hs_debounce s" "now + BOUNCE_TIMEOUT"]
    by (auto simp: hook_inv_def)
  show ?thesis
  proof (cases e)
    case (HReport now cs)
    define bd0 where "bd0 = fold changed cs (hs_debounce s)"
    have bd0: "db_inv bd0 (hs_raw s) (hs_seen s)" "db_report bd0 = cs"
      using dbi rep by (simp_all add: bd0_def fold_changed)
    from st HReport have pre: "hs_now s \<le> now" "flips (hs_raw s) cs"
      and s': "s' = \<lparr>hs_debounce = fst (end_report now bd0), hs_raw = apply_changes cs (hs_raw s),
        hs_delivered = hs_delivered s @ snd (end_report now bd0), hs_now = now\<rparr>"
      by (auto simp: bd0_def case_prod_beta Let_def split: if_splits)
    have "timers_before (now + BOUNCE_TIMEOUT) bd0"
      using tb [OF pre(1)] by (simp add: bd0_def fold_changed timers_before_def)
    with end_report_ok [OF bd0(1), of now] bd0(2) pre(2) show ?thesis
      unfolding s' by (intro hook_inv_extend [OF inv]) (simp_all add: end_report_timers_before)
  next
    case (HWake now)
    with st have pre: "hs_now s \<le> now"
      and s': "s' = s\<lparr>hs_debounce := fst (expire now (hs_debounce s)),
        hs_delivered := hs_delivered s @ snd (expire now (hs_debounce s)), hs_now := now\<rparr>"
      by (auto simp: case_prod_beta Let_def split: if_splits)
    have "hook_inv \<lparr>hs_debounce = fst (expire now (hs_debounce s)), hs_raw = hs_raw s,
        hs_delivered = hs_delivered s @ snd (expire now (hs_debounce s)), hs_now = now\<rparr>"
      using expire_ok [OF dbi, of now] rep tb [OF pre]
      by (intro hook_inv_extend [OF inv]) (simp_all add: expire_timers_before)
    then show ?thesis by (simp add: s' hook_inv_def hs_seen_def)
  next
    case (HStop now)
    with st have pre: "hs_now s \<le> now"
      and s': "s' = s\<lparr>hs_debounce := fst (release_held now (hs_debounce s)),
        hs_delivered := hs_delivered s @ opt_list (snd (release_held now (hs_debounce s))), hs_now := now\<rparr>"
      by (auto simp: case_prod_beta Let_def split: if_splits)
    have "hook_inv \<lparr>hs_debounce = fst (release_held now (hs_debounce s)), hs_raw = hs_raw s,
        hs_delivered = hs_delivered s @ opt_list (snd (release_held now (hs_debounce s))), hs_now = now\<rparr>"
      using release_held_step [OF dbi, of now] rep release_held_frame [of now "hs_debounce s"] tb [OF pre]
      by (intro hook_inv_extend [OF inv]) simp_all
    then show ?thesis by (simp add: s' hook_inv_def hs_seen_def)
  qed
qed

lemma hook_init_inv: "hook_init s \<Longrightarrow> hook_inv s"
  by (auto simp: hook_init_def hook_inv_def hs_seen_def for_device_def Let_def db_inv_def views_ok_def
      timers_before_def)

interpretation hook: invariant_system hook_init hook_step hook_inv
  by unfold_locales (auto intro: hook_init_inv hook_step_inv)

section \<open>Properties\<close>

lemma no_timers_at_rest:
  "db_inv bd raw seen \<Longrightarrow> db_bounce_at bd = None \<Longrightarrow> db_spurious_at bd = None \<Longrightarrow> at_rest bd"
  by (cases "db_state bd") (auto simp: db_inv_def at_rest_def)

lemma no_due_before:
  "take_due now bd = None \<Longrightarrow> timers_before now bd \<Longrightarrow> db_bounce_at bd = None \<and> db_spurious_at bd = None"
  by (auto simp: take_due_def timers_before_def split: if_splits option.splits)

lemma expire_shrinks: "timers_before t bd \<Longrightarrow> timers_before t (fst (expire now bd))"
proof (induction bd rule: expire_loop_induct [of now])
  case (turn bd ev bd1 bd2 d)
  have "timers_before t bd1" using take_due_timers_before [OF turn.hyps(1) turn.prems] .
  moreover have "timers_before t (fst (handle ev now bd1))" if "timers_before t bd1"
    using take_due_event [OF turn.hyps(1)] that
    by (cases "db_state bd1") (auto simp: handle_defs timers_before_def)
  ultimately show ?case using turn.hyps(2) turn.IH by (simp add: expire_turn [OF turn.hyps])
qed (simp add: expire_rest)

text \<open>C11: The callback never sees a double press or a double release: whatever the switch bounces,
  the delivered stream flips the buttons it names, and every button but the tracked one has been
  reported as it is.\<close>

theorem debounced_stream_flips:
  assumes "reach hook_init hook_step s"
  shows "flips {} (hs_delivered s)
    \<and> (\<forall>b. db_button (hs_debounce s) \<noteq> Some b \<longrightarrow> (b \<in> hs_seen s \<longleftrightarrow> b \<in> hs_raw s))"
  using hook.reachable_inv [OF assms]
  by (auto simp: hook_inv_def db_inv_def views_ok_def split: option.splits)

definition example_hook :: hook_state where
  "example_hook = \<lparr>hs_debounce = for_device True 0x046d 0xb034, hs_raw = {}, hs_delivered = [], hs_now = 0\<rparr>"

definition example_click :: "bool \<Rightarrow> ButtonChange" where
  "example_click pressed = \<lparr>bc_button = 0x110, bc_pressed = pressed\<rparr>"

lemma example_hook_reach:
  assumes "\<not> Option.is_none (run hook_step example_hook es)"
  shows "reach hook_init hook_step (the (run hook_step example_hook es))"
proof -
  have "hook_init example_hook" by (auto simp: hook_init_def example_hook_def)
  moreover have "run hook_step example_hook es = Some (the (run hook_step example_hook es))"
    using assms by (cases "run hook_step example_hook es") auto
  ultimately show ?thesis by (blast intro: reach_run [OF reach_init])
qed

theorem debounced_stream_flips_witness:
  "let s = the (run hook_step example_hook [HReport 0 [example_click True], HReport 3 [example_click False],
       HReport 5 [example_click True], HWake 30]) in
   hs_delivered s = [example_click True] \<and> flips {} (hs_delivered s)"
proof -
  let ?es = "[HReport 0 [example_click True], HReport 3 [example_click False],
       HReport 5 [example_click True], HWake 30]"
  let ?s = "the (run hook_step example_hook ?es)"
  have "reach hook_init hook_step ?s" by (rule example_hook_reach) code_simp
  from debounced_stream_flips [OF this] have "flips {} (hs_delivered ?s)" by blast
  moreover have "hs_delivered ?s = [example_click True]" by code_simp
  ultimately show ?thesis unfolding Let_def by blast
qed

text \<open>C12: Nothing is lost: once the buttons have been still for the bounce timeout, waking the
  debouncer leaves no timer running and the callback has been told exactly which buttons are down.\<close>

theorem debounce_settles:
  assumes "reach hook_init hook_step s" and "hs_now s + BOUNCE_TIMEOUT \<le> now"
  shows "\<exists>s'. hook_step s (HWake now) = Some s' \<and> hs_raw s' = hs_raw s \<and> hs_seen s' = hs_raw s
    \<and> deadline (hs_debounce s') = None"
proof -
  define bd where "bd = fst (expire now (hs_debounce s))"
  define s' where "s' = s\<lparr>hs_debounce := bd, hs_delivered := hs_delivered s @ snd (expire now (hs_debounce s)),
    hs_now := now\<rparr>"
  have inv: "hook_inv s" using assms(1) by (rule hook.reachable_inv)
  have st: "hook_step s (HWake now) = Some s'"
    using assms(2) by (simp add: s'_def bd_def case_prod_beta Let_def)
  have "timers_before now bd" unfolding bd_def
    using inv timers_before_mono [OF _ assms(2)] by (intro expire_shrinks) (simp add: hook_inv_def)
  then have none: "db_bounce_at bd = None" "db_spurious_at bd = None"
    using no_due_before [OF expire_no_due] by (simp_all add: bd_def)
  have "db_inv bd (hs_raw s') (hs_seen s')"
    using hook_step_inv [OF inv st] by (simp add: hook_inv_def s'_def)
  from rest_seen [OF this no_timers_at_rest [OF this none]] none st show ?thesis
    by (simp add: s'_def deadline_def)
qed

theorem debounce_settles_witness:
  "let s = the (run hook_step example_hook [HReport 0 [example_click True], HReport 30 [example_click False],
       HReport 32 [example_click True]]) in
   hs_seen s \<noteq> hs_raw s
   \<and> (\<exists>s'. hook_step s (HWake 57) = Some s' \<and> hs_raw s' = hs_raw s \<and> hs_seen s' = hs_raw s
        \<and> deadline (hs_debounce s') = None)"
proof -
  let ?es = "[HReport 0 [example_click True], HReport 30 [example_click False], HReport 32 [example_click True]]"
  let ?s = "the (run hook_step example_hook ?es)"
  have r: "reach hook_init hook_step ?s" by (rule example_hook_reach) code_simp
  have t: "hs_now ?s + BOUNCE_TIMEOUT \<le> 57" by code_simp
  have d: "hs_seen ?s \<noteq> hs_raw ?s" by code_simp
  show ?thesis unfolding Let_def by (rule conjI [OF d debounce_settles [OF r t]])
qed

text \<open>A thread that stops leaves no button stuck: after the held release is delivered, every button
  the callback takes to be down is one the user still holds.\<close>

theorem stop_releases_buttons:
  assumes "reach hook_init hook_step s" and "hs_now s \<le> now"
  shows "\<exists>s'. hook_step s (HStop now) = Some s' \<and> hs_seen s' \<subseteq> hs_raw s"
proof -
  let ?bd = "fst (release_held now (hs_debounce s))"
  define s' where "s' = s\<lparr>hs_debounce := ?bd, hs_delivered := hs_delivered s @
    opt_list (snd (release_held now (hs_debounce s))), hs_now := now\<rparr>"
  have inv: "hook_inv s" using assms(1) by (rule hook.reachable_inv)
  have st: "hook_step s (HStop now) = Some s'"
    using assms(2) by (simp add: s'_def case_prod_beta Let_def)
  have i: "db_inv ?bd (hs_raw s) (hs_seen s')"
    using hook_step_inv [OF inv st] by (simp add: hook_inv_def s'_def)
  have "db_state ?bd \<notin> {IsUpDelaying, IsUpDelayingSpurious}"
    by (cases "db_state (hs_debounce s)") (simp_all add: release_held_def handle_defs)
  then have "seen_view (db_state ?bd) \<Longrightarrow> raw_view (db_state ?bd)" by (cases "db_state ?bd") simp_all
  with i have "hs_seen s' \<subseteq> hs_raw s"
    by (auto simp: db_inv_def views_ok_def split: option.splits if_splits)
  with st show ?thesis by blast
qed

theorem stop_releases_buttons_witness:
  "let s = the (run hook_step example_hook [HReport 0 [example_click True], HReport 3 [example_click False]]) in
   \<not> hs_seen s \<subseteq> hs_raw s \<and> (\<exists>s'. hook_step s (HStop 4) = Some s' \<and> hs_seen s' \<subseteq> hs_raw s)"
proof -
  let ?es = "[HReport 0 [example_click True], HReport 3 [example_click False]]"
  let ?s = "the (run hook_step example_hook ?es)"
  have r: "reach hook_init hook_step ?s" by (rule example_hook_reach) code_simp
  have t: "hs_now ?s \<le> 4" by code_simp
  have d: "\<not> hs_seen ?s \<subseteq> hs_raw ?s" by code_simp
  show ?thesis unfolding Let_def by (rule conjI [OF d stop_releases_buttons [OF r t]])
qed

end
