(* ===== verification/Write_Order.thy ===== *)
theory Write_Order
  imports Event_System
begin

text \<open>
  The write queue of one setting on one route,
  \<^verbatim>\<open>crates/openlogi-agent-core/src/hardware/write_order.rs\<close>: the turns that strictly ordered writes
  reserve, and the intents by which a newer request, an accepted choice and the saved policy are told
  apart. Counters are \<open>nat\<close> (the source's are 64 bits wide); a \<open>BTreeSet\<close> is a list without
  duplicates where it is consumed and a set elsewhere. A mutex-protected operation is one step; the
  handles that callers hold are part of the state the steps run on.
\<close>

section \<open>Turns\<close>

record Finished =
  issued :: nat
  through :: nat
  early :: "nat list"

definition finished_default :: Finished where
  "finished_default = \<lparr>issued = 0, through = 0, early = []\<rparr>"

definition reserve :: "Finished \<Rightarrow> nat \<times> Finished" where
  "reserve f = (issued f + 1, f\<lparr>issued := issued f + 1\<rparr>)"

text \<open>The loop of \<open>finish\<close>: \<open>BTreeSet::remove\<close> tells whether the ticket was there.\<close>

function advance :: "nat \<Rightarrow> nat list \<Rightarrow> nat \<times> nat list" where
  "advance t e = (if t + 1 \<in> set e then advance (t + 1) (removeAll (t + 1) e) else (t, e))"
  by pat_completeness auto
termination
  by (relation "measure (length \<circ> snd)") (auto intro: length_removeAll_less)

declare advance.simps [simp del]

definition finish_turn :: "nat \<Rightarrow> Finished \<Rightarrow> Finished" where
  "finish_turn number f =
     (if number = through f + 1
      then (let (t, e) = advance number (early f) in f\<lparr>through := t, early := e\<rparr>)
      else f\<lparr>early := List.insert number (early f)\<rparr>)"

definition is_turn_of :: "nat \<Rightarrow> Finished \<Rightarrow> bool" where
  "is_turn_of number f \<longleftrightarrow> number \<le> through f + 1"

text \<open>The queue with the reservations that are alive; a \<open>ReservedTurn\<close> calls \<open>finish\<close> when dropped.\<close>

record turn_state =
  ts_finished :: Finished
  ts_held :: "nat set"

datatype turn_event = Reserve | DropTurn nat

fun turn_step :: "turn_state \<Rightarrow> turn_event \<Rightarrow> turn_state option" where
  "turn_step s Reserve =
     (let (n, f) = reserve (ts_finished s) in Some \<lparr>ts_finished = f, ts_held = insert n (ts_held s)\<rparr>)"
| "turn_step s (DropTurn n) =
     (if n \<in> ts_held s
      then Some \<lparr>ts_finished = finish_turn n (ts_finished s), ts_held = ts_held s - {n}\<rparr> else None)"

definition turn_init :: "turn_state \<Rightarrow> bool" where
  "turn_init s \<longleftrightarrow> s = \<lparr>ts_finished = finished_default, ts_held = {}\<rparr>"

text \<open>The tickets a \<open>Finished\<close> stands for.\<close>

definition finished_set :: "Finished \<Rightarrow> nat set" where
  "finished_set f = {1 .. through f} \<union> set (early f)"

definition finished_ok :: "Finished \<Rightarrow> bool" where
  "finished_ok f \<longleftrightarrow> (\<forall>n \<in> set (early f). through f + 1 < n)"

lemma advance_spec:
  assumes "\<forall>n \<in> set e. t < n" and "advance t e = (t', e')"
  shows "{1 .. t'} \<union> set e' = {1 .. t} \<union> set e \<and> (\<forall>n \<in> set e'. t' + 1 < n)"
  using assms
proof (induction t e rule: advance.induct)
  case (1 t e)
  show ?case
  proof (cases "t + 1 \<in> set e")
    case True
    with "1.prems" have a: "advance (t + 1) (removeAll (t + 1) e) = (t', e')"
      by (simp add: advance.simps)
    have "\<forall>n \<in> set (removeAll (t + 1) e). t + 1 < n"
      using "1.prems"(1) by (auto simp: Suc_lessI)
    from "1.IH" [OF True this a] have "{1 .. t'} \<union> set e' = {1 .. t + 1} \<union> (set e - {t + 1})"
      and "\<forall>n \<in> set e'. t' + 1 < n" by auto
    moreover have "{1 .. t + 1} \<union> (set e - {t + 1}) = {1 .. t} \<union> set e"
      using True by (auto simp: le_Suc_eq)
    ultimately show ?thesis by simp
  next
    case False
    with "1.prems" have "t' = t" "e' = e" by (simp_all add: advance.simps)
    moreover have "t + 1 < n" if "n \<in> set e" for n
      using False "1.prems"(1) that by (metis Suc_eq_plus1 Suc_lessI)
    ultimately show ?thesis by simp
  qed
qed

lemma finish_turn_spec:
  assumes "finished_ok f" and "through f < n"
  shows "finished_set (finish_turn n f) = insert n (finished_set f)" and "finished_ok (finish_turn n f)"
    and "issued (finish_turn n f) = issued f"
proof -
  have "finished_set (finish_turn n f) = insert n (finished_set f) \<and> finished_ok (finish_turn n f)
    \<and> issued (finish_turn n f) = issued f"
  proof (cases "n = through f + 1")
    case True
    obtain t e where a: "advance n (early f) = (t, e)" by force
    have "\<forall>m \<in> set (early f). n < m" using assms(1) True by (simp add: finished_ok_def)
    from advance_spec [OF this a] have "{1 .. t} \<union> set e = {1 .. n} \<union> set (early f)"
      and "\<forall>m \<in> set e. t + 1 < m" by auto
    moreover have "{1 .. n} = insert n {1 .. through f}" using True by auto
    ultimately show ?thesis using True a by (simp add: finish_turn_def finished_set_def finished_ok_def)
  next
    case False
    with assms show ?thesis by (auto simp: finish_turn_def finished_set_def finished_ok_def)
  qed
  then show "finished_set (finish_turn n f) = insert n (finished_set f)" "finished_ok (finish_turn n f)"
    "issued (finish_turn n f) = issued f" by auto
qed

definition turn_inv :: "turn_state \<Rightarrow> bool" where
  "turn_inv s \<longleftrightarrow> finished_ok (ts_finished s) \<and> ts_held s \<subseteq> {1 .. issued (ts_finished s)}
     \<and> finished_set (ts_finished s) = {1 .. issued (ts_finished s)} - ts_held s"

lemma held_not_finished: "turn_inv s \<Longrightarrow> n \<in> ts_held s \<Longrightarrow> 1 \<le> n \<and> n \<notin> finished_set (ts_finished s)"
  by (auto simp: turn_inv_def)

lemma held_after_through: "turn_inv s \<Longrightarrow> n \<in> ts_held s \<Longrightarrow> through (ts_finished s) < n"
  using held_not_finished [of s n] by (auto simp: finished_set_def not_le)

lemma turn_step_inv:
  assumes "turn_inv s" and "turn_step s e = Some s'"
  shows "turn_inv s'"
proof (cases e)
  case Reserve
  then have s': "s' = \<lparr>ts_finished = (ts_finished s)\<lparr>issued := issued (ts_finished s) + 1\<rparr>,
      ts_held = insert (issued (ts_finished s) + 1) (ts_held s)\<rparr>"
    using assms(2) by (simp add: reserve_def)
  have "finished_set (ts_finished s) = {1 .. issued (ts_finished s)} - ts_held s"
    using assms(1) by (simp add: turn_inv_def)
  moreover have "{1 .. Suc k} - insert (Suc k) H = {1 .. k} - H" for k :: nat and H
    by (auto simp: le_Suc_eq)
  ultimately show ?thesis
    using assms(1) unfolding turn_inv_def s'
    by (auto simp: finished_ok_def finished_set_def)
next
  case (DropTurn n)
  with assms(2) have n: "n \<in> ts_held s"
    and s': "s' = \<lparr>ts_finished = finish_turn n (ts_finished s), ts_held = ts_held s - {n}\<rparr>"
    by (auto split: if_splits)
  have ok: "finished_ok (ts_finished s)" using assms(1) by (simp add: turn_inv_def)
  note f = finish_turn_spec [OF ok held_after_through [OF assms(1) n]]
  from n assms(1) have "n \<in> {1 .. issued (ts_finished s)}" by (auto simp: turn_inv_def)
  with n assms(1) f show ?thesis by (auto simp: turn_inv_def s')
qed

lemma turn_init_inv: "turn_init s \<Longrightarrow> turn_inv s"
  by (simp add: turn_init_def turn_inv_def finished_default_def finished_ok_def finished_set_def)

interpretation turns: invariant_system turn_init turn_step turn_inv
  by unfold_locales (auto intro: turn_init_inv turn_step_inv)

text \<open>C13: Ordered writes take turns: a live reservation has its turn exactly when every reservation
  made before it is gone, so two of them never write at once, and as long as any is alive one of
  them, the oldest, may go.\<close>

theorem turns_in_order:
  assumes "reach turn_init turn_step s" and "n \<in> ts_held s"
  shows "(is_turn_of n (ts_finished s) \<longleftrightarrow> (\<forall>m \<in> ts_held s. n \<le> m))
    \<and> (\<exists>k \<in> ts_held s. is_turn_of k (ts_finished s))"
proof -
  have inv: "turn_inv s" using assms(1) by (rule turns.reachable_inv)
  have turn: "is_turn_of k (ts_finished s) \<longleftrightarrow> (\<forall>m \<in> ts_held s. k \<le> m)" if k: "k \<in> ts_held s" for k
  proof
    assume "is_turn_of k (ts_finished s)"
    then show "\<forall>m \<in> ts_held s. k \<le> m"
      using held_after_through [OF inv] by (fastforce simp: is_turn_of_def)
  next
    assume all: "\<forall>m \<in> ts_held s. k \<le> m"
    show "is_turn_of k (ts_finished s)"
    proof (rule ccontr)
      assume "\<not> is_turn_of k (ts_finished s)"
      then have less: "through (ts_finished s) + 1 < k" by (simp add: is_turn_of_def)
      have "k \<le> issued (ts_finished s)" using inv k by (auto simp: turn_inv_def)
      moreover have "through (ts_finished s) + 1 \<notin> ts_held s" using all less by fastforce
      ultimately have "through (ts_finished s) + 1 \<in> finished_set (ts_finished s)"
        using inv less by (auto simp: turn_inv_def)
      then have "through (ts_finished s) + 1 \<in> set (early (ts_finished s))"
        by (simp add: finished_set_def)
      moreover have "finished_ok (ts_finished s)" using inv by (simp add: turn_inv_def)
      ultimately show False by (auto simp: finished_ok_def)
    qed
  qed
  have fin: "finite (ts_held s)" using inv by (auto simp: turn_inv_def dest: finite_subset)
  have "Min (ts_held s) \<in> ts_held s" "\<forall>m \<in> ts_held s. Min (ts_held s) \<le> m"
    using fin assms(2) by (auto intro: Min_in)
  with turn turn [OF assms(2)] show ?thesis by blast
qed

definition example_turns :: "turn_event list \<Rightarrow> turn_state" where
  "example_turns es = the (run turn_step \<lparr>ts_finished = finished_default, ts_held = {}\<rparr> es)"

theorem turns_in_order_witness:
  "let s = example_turns [Reserve, Reserve, Reserve, Reserve, DropTurn 2, DropTurn 1] in
   through (ts_finished s) = 2
   \<and> (is_turn_of 4 (ts_finished s) \<longleftrightarrow> (\<forall>m \<in> ts_held s. 4 \<le> m))
   \<and> (\<exists>k \<in> ts_held s. is_turn_of k (ts_finished s))"
proof -
  let ?es = "[Reserve, Reserve, Reserve, Reserve, DropTurn 2, DropTurn 1]"
  let ?i = "\<lparr>ts_finished = finished_default, ts_held = {}\<rparr>"
  have "\<not> Option.is_none (run turn_step ?i ?es)" by code_simp
  then have "run turn_step ?i ?es = Some (example_turns ?es)"
    unfolding example_turns_def by (cases "run turn_step ?i ?es") auto
  moreover have "turn_init ?i" by (simp add: turn_init_def)
  ultimately have r: "reach turn_init turn_step (example_turns ?es)" by (blast intro: reach_run [OF reach_init])
  have h: "4 \<in> ts_held (example_turns ?es)" by code_simp
  have t: "through (ts_finished (example_turns ?es)) = 2" by code_simp
  show ?thesis unfolding Let_def by (rule conjI [OF t turns_in_order [OF r h]])
qed

section \<open>Intents\<close>

datatype Recovery = RecoveryNone | Requested | Scheduled

type_synonym 'v Intent = "nat \<times> 'v"

record 'v wo_state =
  ws_next :: nat
  ws_committed :: "'v Intent option"
  ws_policy :: "'v Intent option"
  ws_pending :: "nat set"
  ws_recovery :: Recovery

definition wo_default :: "'v wo_state" where
  "wo_default = \<lparr>ws_next = 0, ws_committed = None, ws_policy = None, ws_pending = {}, ws_recovery = RecoveryNone\<rparr>"

definition intent :: "'v \<Rightarrow> 'v wo_state \<Rightarrow> 'v Intent \<times> 'v wo_state" where
  "intent value st = ((ws_next st + 1, value), st\<lparr>ws_next := ws_next st + 1\<rparr>)"

definition intent_number :: "'v Intent option \<Rightarrow> nat" where
  "intent_number i = (case i of None \<Rightarrow> 0 | Some (n, _) \<Rightarrow> n)"

definition latest :: "'v wo_state \<Rightarrow> nat" where
  "latest st = max (if ws_pending st = {} then 0 else Max (ws_pending st)) (intent_number (ws_committed st))"

definition is_current :: "nat \<Rightarrow> 'v wo_state \<Rightarrow> bool" where
  "is_current number st \<longleftrightarrow> latest st = number"

definition request_value :: "'v \<Rightarrow> 'v wo_state \<Rightarrow> nat \<times> 'v wo_state" where
  "request_value value st =
     (let (i, st) = intent value st in (fst i, st\<lparr>ws_committed := Some i\<rparr>))"

definition sync_policy :: "'v \<Rightarrow> 'v wo_state \<Rightarrow> bool \<times> 'v wo_state" where
  "sync_policy value st =
     (if (case ws_committed st of Some i \<Rightarrow> snd i = value | None \<Rightarrow> False)
      then (False, st\<lparr>ws_policy := ws_committed st\<rparr>)
      else if (case ws_policy st of Some i \<Rightarrow> snd i = value | None \<Rightarrow> False)
      then (False, st)
      else if ws_policy st = None
      then (let i = (0, value);
                st = (if ws_committed st = None then st\<lparr>ws_committed := Some i\<rparr> else st) in
            (True, st\<lparr>ws_policy := Some i\<rparr>))
      else (let (i, st) = intent value st in
            (True, st\<lparr>ws_committed := Some i, ws_policy := Some i, ws_recovery := RecoveryNone\<rparr>)))"

text \<open>\<open>dflt\<close> is \<open>T::default()\<close>.\<close>

definition retire :: "'v \<Rightarrow> 'v wo_state \<Rightarrow> 'v wo_state" where
  "retire dflt st =
     (let (i, st) = intent dflt st in
      st\<lparr>ws_committed := Some i, ws_policy := Some i, ws_recovery := RecoveryNone\<rparr>)"

definition policy :: "'v wo_state \<Rightarrow> ('v \<times> nat) option" where
  "policy st =
     map_option (\<lambda>i. (snd i, fst i)) (if ws_recovery st = Scheduled then ws_committed st else ws_policy st)"

definition schedule_recovery :: "'v wo_state \<Rightarrow> bool \<times> 'v wo_state" where
  "schedule_recovery st =
     (if ws_pending st \<noteq> {} \<or> ws_recovery st \<noteq> Requested then (False, st)
      else (True, st\<lparr>ws_recovery := Scheduled\<rparr>))"

definition finish_recovery :: "'v wo_state \<Rightarrow> 'v wo_state" where
  "finish_recovery st = (if ws_recovery st = Scheduled then st\<lparr>ws_recovery := RecoveryNone\<rparr> else st)"

definition begin_write :: "'v \<Rightarrow> 'v wo_state \<Rightarrow> 'v Intent \<times> 'v wo_state" where
  "begin_write value st =
     (let (i, st) = intent value st in (i, st\<lparr>ws_pending := insert (fst i) (ws_pending st)\<rparr>))"

definition confirm :: "'v Intent \<Rightarrow> 'v wo_state \<Rightarrow> bool \<times> 'v wo_state" where
  "confirm i st =
     (if latest st \<noteq> fst i then (False, st)
      else (True, st\<lparr>ws_committed := Some i, ws_recovery := RecoveryNone\<rparr>))"

text \<open>Dropping a \<open>PendingWrite\<close>; the flag is whether its \<open>abandoned\<close> callback is notified.\<close>

definition drop_write :: "'v Intent \<Rightarrow> 'v wo_state \<Rightarrow> bool \<times> 'v wo_state" where
  "drop_write i st =
     (let st = st\<lparr>ws_pending := ws_pending st - {fst i}\<rparr>;
          abandoned = (case ws_committed st of None \<Rightarrow> True | Some c \<Rightarrow> fst c < fst i) in
      (abandoned, if abandoned then st\<lparr>ws_recovery := Requested\<rparr> else st))"

text \<open>
  The queue with the pending writes that callers hold. \<open>confirm\<close> consumes its write, which is then
  dropped; the flag of a held write says that it went through \<open>confirm\<close>.
\<close>

record 'v intents =
  it_state :: "'v wo_state"
  it_held :: "nat \<rightharpoonup> 'v \<times> bool"

datatype 'v intent_event =
    RequestValue 'v | SyncPolicy 'v | Retire 'v | ScheduleRecovery | FinishRecovery
  | Begin 'v | Confirm nat | DropWrite nat

fun intent_step :: "'v intents \<Rightarrow> 'v intent_event \<Rightarrow> 'v intents option" where
  "intent_step s (RequestValue v) = Some (s\<lparr>it_state := snd (request_value v (it_state s))\<rparr>)"
| "intent_step s (SyncPolicy v) = Some (s\<lparr>it_state := snd (sync_policy v (it_state s))\<rparr>)"
| "intent_step s (Retire v) = Some (s\<lparr>it_state := retire v (it_state s)\<rparr>)"
| "intent_step s ScheduleRecovery = Some (s\<lparr>it_state := snd (schedule_recovery (it_state s))\<rparr>)"
| "intent_step s FinishRecovery = Some (s\<lparr>it_state := finish_recovery (it_state s)\<rparr>)"
| "intent_step s (Begin v) =
     (let (i, st) = begin_write v (it_state s) in
      Some \<lparr>it_state = st, it_held = (it_held s)(fst i \<mapsto> (v, False))\<rparr>)"
| "intent_step s (Confirm n) =
     (case it_held s n of
        Some (v, False) \<Rightarrow>
          Some \<lparr>it_state = snd (confirm (n, v) (it_state s)), it_held = (it_held s)(n \<mapsto> (v, True))\<rparr>
      | _ \<Rightarrow> None)"
| "intent_step s (DropWrite n) =
     (case it_held s n of
        Some (v, _) \<Rightarrow>
          Some \<lparr>it_state = snd (drop_write (n, v) (it_state s)), it_held = (it_held s)(n := None)\<rparr>
      | None \<Rightarrow> None)"

definition intents_init :: "'v intents \<Rightarrow> bool" where
  "intents_init s \<longleftrightarrow> s = \<lparr>it_state = wo_default, it_held = Map.empty\<rparr>"

definition wo_ok :: "'v wo_state \<Rightarrow> bool" where
  "wo_ok st \<longleftrightarrow> ws_pending st \<subseteq> {1 .. ws_next st}
     \<and> intent_number (ws_committed st) \<le> ws_next st
     \<and> intent_number (ws_policy st) \<le> intent_number (ws_committed st)
     \<and> (ws_policy st \<noteq> None \<longrightarrow> ws_committed st \<noteq> None)"

definition intents_inv :: "'v intents \<Rightarrow> bool" where
  "intents_inv s \<longleftrightarrow> wo_ok (it_state s) \<and> (\<forall>n. it_held s n = None \<longleftrightarrow> n \<notin> ws_pending (it_state s))"

lemmas wo_defs = intent_def request_value_def sync_policy_def retire_def schedule_recovery_def
  finish_recovery_def begin_write_def confirm_def drop_write_def intent_number_def

lemma pending_finite: "wo_ok st \<Longrightarrow> finite (ws_pending st)"
  by (auto simp: wo_ok_def dest: finite_subset)

lemma latest_bounds:
  assumes "wo_ok st"
  shows "latest st \<le> ws_next st" and "intent_number (ws_committed st) \<le> latest st"
    and "n \<in> ws_pending st \<Longrightarrow> n \<le> latest st"
proof -
  have fin: "finite (ws_pending st)" using assms by (rule pending_finite)
  have "ws_pending st \<noteq> {} \<Longrightarrow> Max (ws_pending st) \<le> ws_next st"
    using assms fin by (simp add: wo_ok_def subset_iff)
  with assms show "latest st \<le> ws_next st" by (simp add: latest_def wo_ok_def)
  show "intent_number (ws_committed st) \<le> latest st" by (simp add: latest_def)
  show "n \<in> ws_pending st \<Longrightarrow> n \<le> latest st"
    using Max_ge [OF fin] by (auto simp: latest_def le_max_iff_disj)
qed

text \<open>Every operation keeps the numbering and never lowers the accepted intent.\<close>

definition wo_grows :: "'v wo_state \<Rightarrow> 'v wo_state \<Rightarrow> bool" where
  "wo_grows st st' \<longleftrightarrow> wo_ok st' \<and> intent_number (ws_committed st) \<le> intent_number (ws_committed st')
     \<and> ws_next st \<le> ws_next st'"

lemma wo_ok_grows:
  assumes "wo_ok st"
  shows "wo_grows st (snd (request_value v st))" "wo_grows st (snd (sync_policy v st))"
    "wo_grows st (retire v st)" "wo_grows st (snd (schedule_recovery st))"
    "wo_grows st (finish_recovery st)" "wo_grows st (snd (begin_write v st))"
    "wo_grows st (snd (drop_write i st))"
  using assms
  by (auto simp: wo_grows_def wo_ok_def wo_defs Let_def split: option.splits)

lemma confirm_grows:
  assumes "wo_ok st"
  shows "wo_grows st (snd (confirm (n, v) st))"
proof (cases "latest st = n")
  case True
  with assms latest_bounds(1,2) [OF assms] show ?thesis
    by (auto simp: wo_grows_def wo_ok_def confirm_def intent_number_def)
next
  case False
  with assms show ?thesis by (simp add: wo_grows_def confirm_def)
qed

lemma intent_step_grows:
  assumes "intents_inv s" and "intent_step s e = Some s'"
  shows "wo_grows (it_state s) (it_state s')"
proof -
  have "wo_ok (it_state s)" using assms(1) by (simp add: intents_inv_def)
  note g = wo_ok_grows [OF this] confirm_grows [OF this]
  show ?thesis
    using assms(2) g by (cases e) (auto simp: Let_def case_prod_beta split: option.splits prod.splits bool.splits)
qed

lemma pending_frame:
  "ws_pending (snd (request_value v st)) = ws_pending st"
  "ws_pending (snd (sync_policy v st)) = ws_pending st"
  "ws_pending (retire v st) = ws_pending st"
  "ws_pending (snd (schedule_recovery st)) = ws_pending st"
  "ws_pending (finish_recovery st) = ws_pending st"
  "ws_pending (snd (confirm i st)) = ws_pending st"
  "ws_pending (snd (begin_write v st)) = insert (fst (fst (begin_write v st))) (ws_pending st)"
  "ws_pending (snd (drop_write i st)) = ws_pending st - {fst i}"
  by (simp_all add: wo_defs Let_def split: option.splits)

lemma intent_step_inv:
  assumes "intents_inv s" and "intent_step s e = Some s'"
  shows "intents_inv s'"
proof -
  have "wo_ok (it_state s')" using intent_step_grows [OF assms] by (simp add: wo_grows_def)
  moreover have h: "it_held s m = None \<longleftrightarrow> m \<notin> ws_pending (it_state s)" for m
    using assms(1) by (simp add: intents_inv_def)
  have "m \<in> ws_pending (it_state s)" if "it_held s m = Some x" for m x
    using h [of m] that by simp
  with assms(2) have "it_held s' n = None \<longleftrightarrow> n \<notin> ws_pending (it_state s')" for n
    by (cases e) (auto simp: h pending_frame Let_def case_prod_beta
        split: option.splits prod.splits bool.splits if_splits)
  ultimately show ?thesis by (simp add: intents_inv_def)
qed

interpretation intents: invariant_system intents_init intent_step intents_inv
proof
  show "intents_inv s" if "intents_init s" for s :: "'a intents"
    using that by (simp add: intents_init_def intents_inv_def wo_ok_def wo_default_def intent_number_def)
qed (rule intent_step_inv)

lemma intents_run_grows:
  "intents_inv s \<Longrightarrow> run intent_step s es = Some s' \<Longrightarrow> wo_grows (it_state s) (it_state s')"
proof (induction es arbitrary: s)
  case Nil
  then show ?case by (simp add: wo_grows_def intents_inv_def)
next
  case (Cons e es)
  then obtain s1 where s1: "intent_step s e = Some s1" "run intent_step s1 es = Some s'"
    by (auto simp: bind_eq_Some_conv)
  from intent_step_grows [OF Cons.prems(1) s1(1)] Cons.IH [OF intent_step_inv [OF Cons.prems(1) s1(1)] s1(2)]
  show ?case by (simp add: wo_grows_def)
qed

text \<open>C14: An accepted choice is never undone by an older one: a confirmation succeeds only for the
  newest request, and along every later history the number of the accepted intent only grows, so a
  write that lost to it cannot become the accepted one again.\<close>

theorem accepted_intent_only_grows:
  assumes "reach intents_init intent_step s"
  shows "(fst (confirm (n, v) (it_state s)) \<longrightarrow>
      intent_number (ws_committed (it_state s)) \<le> n \<and> (\<forall>m \<in> ws_pending (it_state s). m \<le> n))
    \<and> (\<forall>es s'. run intent_step s es = Some s' \<longrightarrow>
      intent_number (ws_committed (it_state s)) \<le> intent_number (ws_committed (it_state s')))"
proof (intro conjI impI allI ballI)
  have inv: "intents_inv s" using assms by (rule intents.reachable_inv)
  then have ok: "wo_ok (it_state s)" by (simp add: intents_inv_def)
  assume "fst (confirm (n, v) (it_state s))"
  then have l: "latest (it_state s) = n" by (simp add: confirm_def split: if_splits)
  show "intent_number (ws_committed (it_state s)) \<le> n" using latest_bounds(2) [OF ok] l by simp
  show "m \<le> n" if "m \<in> ws_pending (it_state s)" for m using latest_bounds(3) [OF ok that] l by simp
next
  fix es s' assume "run intent_step s es = Some s'"
  then show "intent_number (ws_committed (it_state s)) \<le> intent_number (ws_committed (it_state s'))"
    using intents_run_grows intents.reachable_inv [OF assms] by (auto simp: wo_grows_def)
qed

definition example_intents :: "nat intent_event list \<Rightarrow> nat intents" where
  "example_intents es = the (run intent_step \<lparr>it_state = wo_default, it_held = Map.empty\<rparr> es)"

lemma example_intents_reach:
  assumes "\<not> Option.is_none (run intent_step \<lparr>it_state = wo_default, it_held = Map.empty\<rparr> es)"
  shows "reach intents_init intent_step (example_intents es)"
proof -
  let ?i = "\<lparr>it_state = wo_default, it_held = Map.empty\<rparr> :: nat intents"
  have "run intent_step ?i es = Some (example_intents es)"
    unfolding example_intents_def using assms by (cases "run intent_step ?i es") auto
  moreover have "intents_init ?i" by (simp add: intents_init_def)
  ultimately show ?thesis by (blast intro: reach_run [OF reach_init])
qed

theorem accepted_intent_only_grows_witness:
  "let s = example_intents [SyncPolicy 5, Begin 6, Begin 7] in
   fst (confirm (2, 7) (it_state s)) \<and> \<not> fst (confirm (1, 6) (it_state s))
   \<and> intent_number (ws_committed (it_state s)) \<le> 2 \<and> (\<forall>m \<in> ws_pending (it_state s). m \<le> 2)"
proof -
  let ?s = "example_intents [SyncPolicy 5, Begin 6, Begin 7]"
  have r: "reach intents_init intent_step ?s" by (rule example_intents_reach) code_simp
  have c: "fst (confirm (2, 7) (it_state ?s))" "\<not> fst (confirm (1, 6) (it_state ?s))" by code_simp+
  from accepted_intent_only_grows [OF r, of 2 7] c show ?thesis unfolding Let_def by blast
qed

text \<open>C15: A failed or cancelled request gives its authority back: when the last pending write is
  dropped unaccepted, recovery can be scheduled at once and then hands out the accepted intent with a
  ticket that is current.\<close>

theorem abandoned_write_recovers:
  assumes "reach intents_init intent_step s" and "it_held s n = Some (v, False)"
    and "ws_pending (it_state s) = {n}" and "ws_committed (it_state s) = Some (c, w)" and "c < n"
  shows "\<exists>s'. run intent_step s [DropWrite n, ScheduleRecovery] = Some s'
    \<and> fst (schedule_recovery (snd (drop_write (n, v) (it_state s))))
    \<and> policy (it_state s') = Some (w, c) \<and> is_current c (it_state s')"
  using assms(2-5)
  by (simp add: drop_write_def schedule_recovery_def policy_def is_current_def latest_def
      intent_number_def Let_def)

theorem abandoned_write_recovers_witness:
  "let s = example_intents [SyncPolicy 5, Begin 6] in
   \<exists>s'. run intent_step s [DropWrite 1, ScheduleRecovery] = Some s'
    \<and> fst (schedule_recovery (snd (drop_write (1, 6) (it_state s))))
    \<and> policy (it_state s') = Some (5, 0) \<and> is_current 0 (it_state s')"
proof -
  let ?s = "example_intents [SyncPolicy 5, Begin 6]"
  have r: "reach intents_init intent_step ?s" by (rule example_intents_reach) code_simp
  have c: "it_held ?s 1 = Some (6, False)" "ws_pending (it_state ?s) = {1}"
    "ws_committed (it_state ?s) = Some (0, 5)" by code_simp+
  show ?thesis unfolding Let_def by (rule abandoned_write_recovers [OF r c]) simp
qed

end
