(* ===== verification/Rust_Text.thy ===== *)
theory Rust_Text
  imports Prelude
begin

text \<open>
  The string operations of the Rust standard library that the sources use. A Rust string is the
  list of its UTF-8 bytes, here a \<open>string\<close>; every operation below searches for ASCII patterns, so
  working on bytes and on characters is the same. Numbers are printed by \<open>{}\<close>, \<open>{:02x}\<close> and
  \<open>{:04x}\<close> and read back by \<open>str::parse\<close> and \<open>from_str_radix\<close>.
\<close>

definition is_some_and :: "('a \<Rightarrow> bool) \<Rightarrow> 'a option \<Rightarrow> bool" where
  "is_some_and P x = (case x of None \<Rightarrow> False | Some y \<Rightarrow> P y)"

lemma is_some_and_simps [simp]: "is_some_and P None = False" "is_some_and P (Some y) = P y"
  by (simp_all add: is_some_and_def)

lemma is_some_and_iff: "is_some_and P x \<longleftrightarrow> (\<exists>y. x = Some y \<and> P y)"
  by (cases x) simp_all

section \<open>Splitting\<close>

definition strip_prefix :: "string \<Rightarrow> string \<Rightarrow> string option" where
  "strip_prefix p s = (if take (length p) s = p then Some (drop (length p) s) else None)"

definition split_once :: "char \<Rightarrow> string \<Rightarrow> (string \<times> string) option" where
  "split_once d s =
     (if d \<in> set s then Some (takeWhile (\<lambda>c. c \<noteq> d) s, tl (dropWhile (\<lambda>c. c \<noteq> d) s)) else None)"

text \<open>\<open>rsplit_once\<close> splits at the last occurrence of a pattern.\<close>

fun rsplit_once :: "string \<Rightarrow> string \<Rightarrow> (string \<times> string) option" where
  "rsplit_once p [] = (if p = [] then Some ([], []) else None)"
| "rsplit_once p (c # s) =
     (case rsplit_once p s of
        Some (a, b) \<Rightarrow> Some (c # a, b)
      | None \<Rightarrow> map_option (Pair []) (strip_prefix p (c # s)))"

fun splitn :: "nat \<Rightarrow> char \<Rightarrow> string \<Rightarrow> string list" where
  "splitn 0 d s = []"
| "splitn (Suc 0) d s = [s]"
| "splitn (Suc (Suc n)) d s =
     (case split_once d s of None \<Rightarrow> [s] | Some (a, b) \<Rightarrow> a # splitn (Suc n) d b)"

lemma strip_prefix_append [simp]: "strip_prefix p (p @ s) = Some s"
  by (simp add: strip_prefix_def)

lemma strip_prefix_Some: "strip_prefix p s = Some r \<longleftrightarrow> s = p @ r"
  by (metis append_take_drop_id option.inject option.simps(3) strip_prefix_append strip_prefix_def)

lemma strip_prefix_Cons [simp]:
  "strip_prefix (x # p) (y # s) = (if x = y then strip_prefix p s else None)"
  "strip_prefix (x # p) [] = None" "strip_prefix [] s = Some s"
  by (simp_all add: strip_prefix_def)

lemma split_once_append [simp]: "d \<notin> set a \<Longrightarrow> split_once d (a @ d # b) = Some (a, b)"
  by (simp add: split_once_def takeWhile_append dropWhile_append takeWhile_eq_all_conv [THEN iffD2])

lemma split_once_None: "split_once d s = None \<longleftrightarrow> d \<notin> set s"
  by (simp add: split_once_def)

lemma split_once_Some: "split_once d s = Some (a, b) \<longleftrightarrow> d \<notin> set a \<and> s = a @ d # b"
proof
  assume "split_once d s = Some (a, b)"
  then have s: "d \<in> set s" "a = takeWhile (\<lambda>c. c \<noteq> d) s" "b = tl (dropWhile (\<lambda>c. c \<noteq> d) s)"
    by (simp_all add: split_once_def split: if_splits)
  then have "dropWhile (\<lambda>c. c \<noteq> d) s = d # b"
    by (metis (mono_tags, lifting) dropWhile_eq_Nil_conv hd_dropWhile list.collapse)
  with s show "d \<notin> set a \<and> s = a @ d # b"
    by (metis (mono_tags, lifting) set_takeWhileD takeWhile_dropWhile_id)
qed auto

lemma rsplit_once_no_match:
  assumes "p \<noteq> []" and "hd p \<notin> set s"
  shows "rsplit_once p s = None"
  using assms by (induction s) (auto simp: strip_prefix_def take_Cons split: nat.splits)

text \<open>Where the pattern cannot start again inside its own tail, the last occurrence is that one.\<close>

lemma rsplit_once_append:
  assumes "rsplit_once p (tl p @ b) = None" and "p \<noteq> []"
  shows "rsplit_once p (a @ p @ b) = Some (a, b)"
proof (induction a)
  case Nil
  obtain x q where p: "p = x # q" using assms(2) by (cases p) auto
  then show ?case using assms(1) strip_prefix_append [of p b] by (simp add: p)
qed simp

lemma sep_inject:
  assumes "d \<notin> set a" and "d \<notin> set b"
  shows "a @ d # x = b @ d # (y :: string) \<longleftrightarrow> a = b \<and> x = y"
proof
  assume "a @ d # x = b @ d # y"
  then have "Some (a, x) = Some (b, y)" by (metis assms split_once_append)
  then show "a = b \<and> x = y" by simp
qed simp

lemma rsplit_once_Some: "rsplit_once p s = Some (a, b) \<Longrightarrow> s = a @ p @ b"
proof (induction p s arbitrary: a b rule: rsplit_once.induct)
  case (2 p c s)
  then show ?case by (cases "rsplit_once p s") (auto simp: strip_prefix_Some)
qed (simp split: if_splits)

section \<open>Digits\<close>

definition digit_char :: "nat \<Rightarrow> char" where
  "digit_char d = (if d < 10 then char_of (48 + d) else char_of (87 + d))"

definition to_digit :: "nat \<Rightarrow> char \<Rightarrow> nat option" where
  "to_digit radix c =
     (let n = of_char c :: nat;
          d = (if 48 \<le> n \<and> n \<le> 57 then n - 48
               else if 97 \<le> n \<and> n \<le> 122 then n - 87
               else if 65 \<le> n \<and> n \<le> 90 then n - 55 else radix) in
      if d < radix then Some d else None)"

definition is_ascii_hexdigit :: "char \<Rightarrow> bool" where
  "is_ascii_hexdigit c = (to_digit 16 c \<noteq> None)"

definition ascii_lower :: "char \<Rightarrow> char" where
  "ascii_lower c = (let n = of_char c :: nat in if 65 \<le> n \<and> n \<le> 90 then char_of (n + 32) else c)"

abbreviation to_ascii_lowercase :: "string \<Rightarrow> string" where
  "to_ascii_lowercase \<equiv> map ascii_lower"

lemma of_char_small: "n < 256 \<Longrightarrow> of_char (char_of n :: char) = (n :: nat)"
  by (simp only: of_char_of mod_less)

lemma of_digit_char: "d < 16 \<Longrightarrow> of_char (digit_char d) = (if d < 10 then 48 + d else 87 + d :: nat)"
  unfolding digit_char_def by (simp only: if_distrib [of of_char] of_char_small split: if_split)

lemma to_digit_digit_char [simp]:
  assumes "d < radix" and "radix \<le> 16"
  shows "to_digit radix (digit_char d) = Some d"
proof -
  from assms have "of_char (digit_char d) = (if d < 10 then 48 + d else 87 + d :: nat)"
    by (intro of_digit_char) simp
  with assms show ?thesis unfolding to_digit_def Let_def by (cases "d < 10") simp_all
qed

lemma digit_char_inj: "d < 16 \<Longrightarrow> e < 16 \<Longrightarrow> digit_char d = digit_char e \<Longrightarrow> d = e"
  by (metis option.inject order_refl to_digit_digit_char)

lemma is_ascii_hexdigit_digit_char [simp]: "d < 16 \<Longrightarrow> is_ascii_hexdigit (digit_char d)"
  by (simp add: is_ascii_hexdigit_def)

lemma digit_char_not_special:
  assumes "d < 16"
  shows "digit_char d \<noteq> CHR '':''" and "digit_char d \<noteq> CHR ''+''"
proof -
  have "to_digit 16 (CHR '':'') = None" "to_digit 16 (CHR ''+'') = None"
    by (simp_all add: to_digit_def Let_def)
  with assms show "digit_char d \<noteq> CHR '':''" "digit_char d \<noteq> CHR ''+''"
    by (metis option.distinct(1) order_refl to_digit_digit_char)+
qed

lemma digit_chars_not_special:
  assumes "set s \<subseteq> digit_char ` {..<16}"
  shows "CHR '':'' \<notin> set s" and "CHR ''+'' \<notin> set s"
proof -
  have "c \<noteq> CHR '':'' \<and> c \<noteq> CHR ''+''" if "c \<in> set s" for c
  proof -
    from that assms obtain d where "d < 16" "c = digit_char d" by auto
    then show ?thesis by (simp only: digit_char_not_special not_False_eq_True simp_thms)
  qed
  then show "CHR '':'' \<notin> set s" "CHR ''+'' \<notin> set s" by metis+
qed

lemma ascii_lower_upper:
  assumes "65 \<le> (of_char c :: nat)" and "(of_char c :: nat) \<le> 90"
  shows "of_char (ascii_lower c) = (of_char c + 32 :: nat)"
proof -
  from assms have "ascii_lower c = char_of (of_char c + 32 :: nat)"
    unfolding ascii_lower_def Let_def by (intro if_P conjI)
  with assms(2) show ?thesis by (simp add: of_char_small)
qed

lemma ascii_lower_other:
  "\<not> (65 \<le> (of_char c :: nat) \<and> (of_char c :: nat) \<le> 90) \<Longrightarrow> ascii_lower c = c"
  unfolding ascii_lower_def Let_def by (rule if_not_P)

lemma ascii_lower_idem [simp]: "ascii_lower (ascii_lower c) = ascii_lower c"
proof (cases "65 \<le> (of_char c :: nat) \<and> (of_char c :: nat) \<le> 90")
  case True
  then show ?thesis by (intro ascii_lower_other) (simp add: ascii_lower_upper)
qed (simp add: ascii_lower_other)

lemma to_ascii_lowercase_idem [simp]: "to_ascii_lowercase (to_ascii_lowercase s) = to_ascii_lowercase s"
  by simp

lemma unat_u8: "unat (v :: u8) < 256" and unat_u16: "unat (w :: u16) < 65536"
proof -
  have "unat v < 2 ^ LENGTH(8)" "unat w < 2 ^ LENGTH(16)" by (rule unsigned_less)+
  then show "unat v < 256" "unat w < 65536" by simp_all
qed

section \<open>Printing\<close>

text \<open>\<open>{}\<close> of an unsigned integer.\<close>

fun dec_string :: "nat \<Rightarrow> string" where
  "dec_string n = (if n < 10 then [digit_char n] else dec_string (n div 10) @ [digit_char (n mod 10)])"

declare dec_string.simps [simp del]

text \<open>\<open>{:02x}\<close> of a byte and \<open>{:04x}\<close> of a 16-bit word, which fill their width exactly.\<close>

definition hex2 :: "u8 \<Rightarrow> string" where
  "hex2 w = (let n = unat w in map digit_char [n div 16, n mod 16])"

definition hex4 :: "u16 \<Rightarrow> string" where
  "hex4 w = (let n = unat w in map digit_char [n div 4096, n div 256 mod 16, n div 16 mod 16, n mod 16])"

section \<open>Reading\<close>

text \<open>
  \<open>from_str_radix\<close> of an unsigned type with maximum \<open>limit\<close>: one leading plus sign may be dropped, at
  least one digit must remain, and every accumulation is checked.
\<close>

fun parse_digits :: "nat \<Rightarrow> nat \<Rightarrow> nat \<Rightarrow> string \<Rightarrow> nat option" where
  "parse_digits radix limit acc [] = Some acc"
| "parse_digits radix limit acc (c # s) =
     (case to_digit radix c of
        None \<Rightarrow> None
      | Some d \<Rightarrow>
          (let acc = acc * radix + d in if acc \<le> limit then parse_digits radix limit acc s else None))"

definition from_str_radix :: "nat \<Rightarrow> nat \<Rightarrow> string \<Rightarrow> nat option" where
  "from_str_radix radix limit s =
     (let digits = (case s of c # r \<Rightarrow> if c = CHR ''+'' \<and> r \<noteq> [] then r else s | [] \<Rightarrow> []) in
      if digits = [] then None else parse_digits radix limit 0 digits)"

definition parse_u8 :: "string \<Rightarrow> u8 option" where
  "parse_u8 s = map_option of_nat (from_str_radix 10 255 s)"

definition u16_from_hex :: "string \<Rightarrow> u16 option" where
  "u16_from_hex s = map_option of_nat (from_str_radix 16 65535 s)"

lemma from_str_radix_digits:
  "s \<noteq> [] \<Longrightarrow> hd s \<noteq> CHR ''+'' \<Longrightarrow> from_str_radix radix limit s = parse_digits radix limit 0 s"
  by (cases s) (auto simp: from_str_radix_def)

lemma parse_digits_append:
  "parse_digits radix limit acc (s @ r)
     = Option.bind (parse_digits radix limit acc s) (\<lambda>n. parse_digits radix limit n r)"
  by (induction radix limit acc s rule: parse_digits.induct) (auto split: option.splits simp: Let_def)

lemma parse_digits_bad: "to_digit radix c = None \<Longrightarrow> c \<in> set s \<Longrightarrow> parse_digits radix limit acc s = None"
  by (induction radix limit acc s rule: parse_digits.induct) (auto split: option.splits simp: Let_def)

lemma from_str_radix_bad:
  assumes "to_digit radix c = None" and "c \<noteq> CHR ''+''" and "c \<in> set s"
  shows "from_str_radix radix limit s = None"
proof -
  define digits where "digits = (case s of c # r \<Rightarrow> if c = CHR ''+'' \<and> r \<noteq> [] then r else s | [] \<Rightarrow> [])"
  have "c \<in> set digits" using assms(2,3) by (cases s) (auto simp: digits_def)
  with assms(1) have "parse_digits radix limit 0 digits = None" by (rule parse_digits_bad)
  then show ?thesis unfolding from_str_radix_def digits_def [symmetric] Let_def by simp
qed

lemma parse_dec_string: "n \<le> limit \<Longrightarrow> parse_digits 10 limit 0 (dec_string n) = Some n"
proof (induction n rule: less_induct)
  case (less n)
  show ?case
  proof (cases "n < 10")
    case True
    with less.prems show ?thesis by (subst dec_string.simps) simp
  next
    case False
    then have "parse_digits 10 limit 0 (dec_string (n div 10)) = Some (n div 10)"
      using less.prems by (intro less.IH) simp_all
    with False less.prems show ?thesis
      by (subst dec_string.simps) (simp add: parse_digits_append)
  qed
qed

lemma dec_string_nonempty [simp]: "dec_string n \<noteq> []"
  by (subst dec_string.simps) simp

lemma dec_string_chars: "set (dec_string n) \<subseteq> digit_char ` {..<16}"
proof (induction n rule: less_induct)
  case (less n)
  have "digit_char (n mod 10) \<in> digit_char ` {..<16}" by (rule imageI) simp
  moreover have "n < 10 \<Longrightarrow> digit_char n \<in> digit_char ` {..<16}" by (rule imageI) simp
  ultimately show ?case using less.IH [of "n div 10"] by (subst dec_string.simps) simp
qed

lemmas dec_string_no_special [simp] = digit_chars_not_special [OF dec_string_chars]

lemma dec_string_hd [simp]: "hd (dec_string n) \<noteq> CHR ''+''"
  using hd_in_set [OF dec_string_nonempty, of n] dec_string_no_special(2) [of n] by metis

lemma parse_u8_dec [simp]: "parse_u8 (dec_string (unat (w :: u8))) = Some w"
proof -
  have "unat w \<le> 255" using unat_u8 [of w] by simp
  then show ?thesis by (simp add: parse_u8_def from_str_radix_digits parse_dec_string)
qed

lemma dec_string_inj: "dec_string m = dec_string n \<longleftrightarrow> m = n"
  by (metis max.cobounded1 max.cobounded2 option.inject parse_dec_string)

lemma hex_chars:
  "set (hex2 v) \<subseteq> digit_char ` {..<16}" "set (hex4 w) \<subseteq> digit_char ` {..<16}"
proof -
  have "unat v div 16 < 16" "unat w div 4096 < 16"
    using unat_u8 [of v] unat_u16 [of w] by simp_all
  then show "set (hex2 v) \<subseteq> digit_char ` {..<16}" "set (hex4 w) \<subseteq> digit_char ` {..<16}"
    unfolding hex2_def hex4_def Let_def by (simp_all add: image_eqI)
qed

lemma hex_length [simp]: "length (hex2 v) = 2" "length (hex4 w) = 4"
  by (simp_all add: hex2_def hex4_def Let_def)

lemma digit_chars_hex: "set s \<subseteq> digit_char ` {..<16} \<Longrightarrow> list_all is_ascii_hexdigit s"
  unfolding list_all_iff
proof
  fix c assume "set s \<subseteq> digit_char ` {..<16}" and "c \<in> set s"
  then have "c \<in> digit_char ` {..<16}" by (rule subsetD)
  then obtain d where "d < 16" "c = digit_char d" by (rule imageE) (simp only: lessThan_iff)
  then show "is_ascii_hexdigit c" by (simp only: is_ascii_hexdigit_digit_char)
qed

lemmas hex_digits [simp] = digit_chars_hex [OF hex_chars(1)] digit_chars_hex [OF hex_chars(2)]

lemmas hex_no_special [simp] =
  digit_chars_not_special [OF hex_chars(1)] digit_chars_not_special [OF hex_chars(2)]

lemma hex4_value: "parse_digits 16 65535 0 (hex4 w) = Some (unat w)"
proof -
  define n where "n = unat w"
  have n: "n < 65536" unfolding n_def by (rule unat_u16)
  have d: "n div 4096 = n div 16 div 16 div 16" "n div 256 = n div 16 div 16"
    by (simp_all add: div_mult2_eq [symmetric])
  have b: "n div 16 div 16 div 16 < 16" "n div 16 div 16 \<le> 65535" "n div 16 \<le> 65535"
    using n by simp_all
  have h: "hex4 w = map digit_char [n div 16 div 16 div 16, n div 16 div 16 mod 16, n div 16 mod 16, n mod 16]"
    unfolding hex4_def Let_def n_def [symmetric] d by (rule refl)
  show ?thesis unfolding h n_def [symmetric] using b n
    by (simp del: div_mult_mod_eq add: div_mult_mod_eq Let_def)
qed

lemma u16_from_hex_hex4 [simp]: "u16_from_hex (hex4 w) = Some w"
proof -
  have n: "hex4 w \<noteq> []" using hex_length(2) [of w] by force
  with hd_in_set [OF n] have "hd (hex4 w) \<noteq> CHR ''+''" using hex_no_special(4) [of w] by metis
  with n show ?thesis by (simp add: u16_from_hex_def from_str_radix_digits hex4_value)
qed

lemma hex4_inj [simp]: "hex4 v = hex4 w \<longleftrightarrow> v = w"
  by (metis option.inject u16_from_hex_hex4)

lemma hex2_inj [simp]: "hex2 v = hex2 w \<longleftrightarrow> v = w"
proof
  assume "hex2 v = hex2 w"
  moreover have "unat v div 16 < 16" "unat w div 16 < 16"
    using unat_u8 [of v] unat_u8 [of w] by simp_all
  ultimately have "unat v div 16 = unat w div 16" "unat v mod 16 = unat w mod 16"
    using digit_char_inj by (simp_all add: hex2_def Let_def)
  then have "unat v = unat w" by (metis div_mult_mod_eq)
  then show "v = w" by (simp add: word_unat_eq_iff)
qed simp

end
