(* ===== verification/Device_Key.thy ===== *)
theory Device_Key
  imports Rust_Text
begin

text \<open>
  Device identities and the textual keys they are stored under,
  \<^verbatim>\<open>crates/openlogi-core/src/device_order.rs\<close>, the two identity functions of
  \<^verbatim>\<open>crates/openlogi-core/src/config/identity.rs\<close> it shares with them, and the routes of
  \<^verbatim>\<open>crates/openlogi-core/src/hid/route.rs\<close>. A \<open>PhysicalDeviceKey\<close> is its string. The property here
  is that a stored key names one device and is recognised again when it is read back.
\<close>

type_synonym unit_id = "u8 \<times> u8 \<times> u8 \<times> u8"

datatype DeviceRoute =
    RouteBolt string u8
  | RouteUnifying string u8
  | RouteDirect u16 u16
  | RouteRawHid u16 u16 u16 u16 string

datatype DeviceIdentity = IdSerial string | IdUnit unit_id

datatype DeviceStableId =
    StableBolt string u8
  | StableDirect u16 u16 DeviceIdentity
  | StableRawHid u16 u16 u16 u16 string
  | StableUnknown u8 DeviceIdentity

datatype PhysicalDeviceKey = PhysicalDeviceKey (as_str: string)

section \<open>Building identities\<close>

definition identity_from_parts :: "string option \<Rightarrow> unit_id \<Rightarrow> DeviceIdentity" where
  "identity_from_parts serial unit_id =
     (case serial of
        Some s \<Rightarrow> if s = [] then IdUnit unit_id else IdSerial (to_ascii_lowercase s)
      | None \<Rightarrow> IdUnit unit_id)"

fun stable_from_parts :: "DeviceRoute option \<Rightarrow> u8 \<Rightarrow> string option \<Rightarrow> unit_id \<Rightarrow> DeviceStableId" where
  "stable_from_parts (Some (RouteBolt uid slot)) _ serial unit_id = StableBolt (to_ascii_lowercase uid) slot"
| "stable_from_parts (Some (RouteUnifying uid slot)) _ serial unit_id = StableBolt (to_ascii_lowercase uid) slot"
| "stable_from_parts (Some (RouteDirect vid pid)) _ serial unit_id =
     StableDirect vid pid (identity_from_parts serial unit_id)"
| "stable_from_parts (Some (RouteRawHid vid pid page usage identity)) _ serial unit_id =
     StableRawHid vid pid page usage (to_ascii_lowercase identity)"
| "stable_from_parts None slot serial unit_id = StableUnknown slot (identity_from_parts serial unit_id)"

section \<open>Printing keys\<close>

fun hex_unit :: "unit_id \<Rightarrow> string" where
  "hex_unit (a, b, c, d) = hex2 a @ hex2 b @ hex2 c @ hex2 d"

fun is_physical :: "DeviceIdentity \<Rightarrow> bool" where
  "is_physical (IdSerial serial) = (serial \<noteq> [])"
| "is_physical (IdUnit unit) = (unit \<noteq> (0, 0, 0, 0))"

fun identity_key :: "DeviceIdentity \<Rightarrow> string" where
  "identity_key (IdSerial serial) = ''serial:'' @ serial"
| "identity_key (IdUnit unit) = ''unit:'' @ hex_unit unit"

fun runtime_key :: "DeviceStableId \<Rightarrow> string" where
  "runtime_key (StableBolt uid slot) = ''receiver:'' @ uid @ '':slot:'' @ dec_string (unat slot)"
| "runtime_key (StableDirect vid pid identity) =
     ''direct:'' @ hex4 vid @ '':'' @ hex4 pid @ '':'' @ identity_key identity"
| "runtime_key (StableRawHid vid pid page usage identity) =
     ''raw:'' @ hex4 vid @ '':'' @ hex4 pid @ '':'' @ hex4 page @ '':'' @ hex4 usage @ '':'' @ identity"
| "runtime_key (StableUnknown slot identity) =
     ''unknown:slot:'' @ dec_string (unat slot) @ '':'' @ identity_key identity"

fun route_key :: "DeviceStableId \<Rightarrow> string" where
  "route_key (StableDirect vid pid _) = ''direct:'' @ hex4 vid @ '':'' @ hex4 pid"
| "route_key sid = runtime_key sid"

definition direct_route_of_key :: "string \<Rightarrow> DeviceRoute option" where
  "direct_route_of_key key =
     Option.bind (strip_prefix ''direct:'' key) (\<lambda>rest.
     Option.bind (split_once (CHR '':'') rest) (\<lambda>(vid, pid).
     Option.bind (u16_from_hex vid) (\<lambda>vid.
     Option.bind (u16_from_hex pid) (\<lambda>pid.
     Some (RouteDirect vid pid)))))"

section \<open>Reading keys\<close>

definition receiver_key_is_valid :: "string \<Rightarrow> bool" where
  "receiver_key_is_valid value =
     is_some_and (\<lambda>(uid, slot). uid \<noteq> [] \<and> parse_u8 slot \<noteq> None)
       (Option.bind (strip_prefix ''receiver:'' value) (rsplit_once '':slot:''))"

definition is_hex_word :: "string \<Rightarrow> bool" where
  "is_hex_word value \<longleftrightarrow> length value = 4 \<and> list_all is_ascii_hexdigit value"

definition direct_identity_fragment :: "string \<Rightarrow> string option" where
  "direct_identity_fragment value =
     (case map_option (splitn 3 (CHR '':'')) (strip_prefix ''direct:'' value) of
        Some [vid, pid, identity] \<Rightarrow> if is_hex_word vid \<and> is_hex_word pid then Some identity else None
      | _ \<Rightarrow> None)"

definition raw_identity_fragment :: "string \<Rightarrow> string option" where
  "raw_identity_fragment value =
     (case map_option (splitn 5 (CHR '':'')) (strip_prefix ''raw:'' value) of
        Some [vid, pid, page, usage, identity] \<Rightarrow>
          if is_hex_word vid \<and> is_hex_word pid \<and> is_hex_word page \<and> is_hex_word usage \<and> identity \<noteq> []
          then Some identity else None
      | _ \<Rightarrow> None)"

definition unknown_identity_fragment :: "string \<Rightarrow> string option" where
  "unknown_identity_fragment value =
     (case Option.bind (strip_prefix ''unknown:slot:'' value) (split_once (CHR '':'')) of
        Some (slot, identity) \<Rightarrow> map_option (\<lambda>_. identity) (parse_u8 slot)
      | None \<Rightarrow> None)"

definition identity_fragment_is_physical :: "string \<Rightarrow> bool" where
  "identity_fragment_is_physical value \<longleftrightarrow>
     is_some_and (\<lambda>serial. serial \<noteq> []) (strip_prefix ''serial:'' value) \<or>
     is_some_and (\<lambda>unit. length unit = 8 \<and> list_all is_ascii_hexdigit unit \<and> unit \<noteq> ''00000000'')
       (strip_prefix ''unit:'' value)"

definition raw_identity_is_physical :: "string \<Rightarrow> bool" where
  "raw_identity_is_physical value \<longleftrightarrow>
     is_some_and (\<lambda>serial. serial \<noteq> []) (strip_prefix ''serial:'' value) \<or>
     is_some_and (\<lambda>identity. identity \<noteq> []) (strip_prefix ''stable:'' value)"

definition key_parse :: "string \<Rightarrow> PhysicalDeviceKey option" where
  "key_parse value =
     (if receiver_key_is_valid value
       \<or> is_some_and identity_fragment_is_physical (direct_identity_fragment value)
       \<or> is_some_and raw_identity_is_physical (raw_identity_fragment value)
       \<or> is_some_and identity_fragment_is_physical (unknown_identity_fragment value)
       \<or> identity_fragment_is_physical value
      then Some (PhysicalDeviceKey value) else None)"

definition to_identity :: "PhysicalDeviceKey \<Rightarrow> PhysicalDeviceKey option" where
  "to_identity key =
     (if identity_fragment_is_physical (as_str key)
      then Some (PhysicalDeviceKey (to_ascii_lowercase (as_str key))) else None)"

definition is_transient :: "string \<Rightarrow> bool" where
  "is_transient value \<longleftrightarrow>
     is_some_and (\<lambda>identity. identity = ''unit:00000000'')
       (case direct_identity_fragment value of
          None \<Rightarrow> unknown_identity_fragment value | Some identity \<Rightarrow> Some identity)
     \<or> is_some_and (\<lambda>identity. strip_prefix ''id:'' identity \<noteq> None \<or> identity = [])
         (raw_identity_fragment value)"

fun physical_key :: "DeviceStableId \<Rightarrow> PhysicalDeviceKey option" where
  "physical_key (StableBolt uid slot) = Some (PhysicalDeviceKey (runtime_key (StableBolt uid slot)))"
| "physical_key (StableDirect vid pid identity) =
     (if is_physical identity
      then Some (PhysicalDeviceKey (runtime_key (StableDirect vid pid identity))) else None)"
| "physical_key (StableUnknown slot identity) =
     (if is_physical identity
      then Some (PhysicalDeviceKey (runtime_key (StableUnknown slot identity))) else None)"
| "physical_key (StableRawHid vid pid page usage identity) =
     (if raw_identity_is_physical identity
      then Some (PhysicalDeviceKey (runtime_key (StableRawHid vid pid page usage identity))) else None)"

section \<open>Keys of a configuration\<close>

definition config_key :: "DeviceIdentity \<Rightarrow> string option" where
  "config_key identity = (if is_physical identity then Some (identity_key identity) else None)"

definition names_identity :: "PhysicalDeviceKey \<Rightarrow> string option \<Rightarrow> unit_id \<Rightarrow> bool" where
  "names_identity key serial unit_id =
     (let serial = Option.bind serial (\<lambda>s. config_key (identity_from_parts (Some s) (0, 0, 0, 0)));
          unit = config_key (identity_from_parts None unit_id) in
      as_str key \<in> Option.set_option serial \<union> Option.set_option unit)"

definition canonical_device_key ::
  "DeviceStableId \<Rightarrow> DeviceIdentity option \<Rightarrow> PhysicalDeviceKey option" where
  "canonical_device_key sid identity =
     (case Option.bind (Option.bind identity config_key) key_parse of
        Some key \<Rightarrow> Some key
      | None \<Rightarrow> physical_key sid)"

section \<open>Keys name one device\<close>

lemma unit_zero_hex: "hex_unit u = ''00000000'' \<longleftrightarrow> u = (0, 0, 0, 0)"
proof -
  have z: "''00000000'' = hex_unit (0, 0, 0, 0)" by code_simp
  obtain a b c d where u: "u = (a, b, c, d)" by (cases u) auto
  show ?thesis unfolding z by (simp add: u)
qed

lemma hex_unit_inj: "hex_unit u = hex_unit v \<longleftrightarrow> u = v"
  by (cases u; cases v) auto

lemma hex_unit_shape: "length (hex_unit u) = 8" "list_all is_ascii_hexdigit (hex_unit u)"
  by (cases u; simp)+

lemma identity_key_inj: "identity_key i = identity_key j \<longleftrightarrow> i = j"
  by (cases i; cases j) (simp_all add: hex_unit_inj)

lemma slot_split:
  assumes "CHR '':'' \<notin> set b"
  shows "rsplit_once '':slot:'' (a @ '':slot:'' @ b) = Some (a, b)"
proof (rule rsplit_once_append)
  have "rsplit_once '':slot:'' b = None" using assms by (intro rsplit_once_no_match) simp_all
  moreover have "strip_prefix ''slot:'' b = None"
  proof (rule ccontr)
    assume "strip_prefix ''slot:'' b \<noteq> None"
    then obtain r where "b = ''slot:'' @ r" by (auto simp only: strip_prefix_Some)
    with assms show False by simp
  qed
  ultimately show "rsplit_once '':slot:'' (tl '':slot:'' @ b) = None" by simp
qed simp

lemma slot_inject:
  assumes "CHR '':'' \<notin> set b" and "CHR '':'' \<notin> set d"
  shows "a @ '':slot:'' @ b = c @ '':slot:'' @ d \<longleftrightarrow> a = c \<and> b = d"
proof
  assume "a @ '':slot:'' @ b = c @ '':slot:'' @ d"
  then have "Some (a, b) = Some (c, d)" by (metis assms slot_split)
  then show "a = c \<and> b = d" by simp
qed simp

lemma slot_string_inj: "dec_string (unat (v :: u8)) = dec_string (unat w) \<longleftrightarrow> v = w"
  by (simp add: dec_string_inj word_unat_eq_iff)

lemma receiver_key_inj: "runtime_key (StableBolt u s) = runtime_key (StableBolt v t) \<longleftrightarrow> u = v \<and> s = t"
  unfolding runtime_key.simps same_append_eq
  by (simp only: slot_inject dec_string_no_special not_False_eq_True slot_string_inj)

lemma unknown_key_inj: "runtime_key (StableUnknown s i) = runtime_key (StableUnknown t j) \<longleftrightarrow> s = t \<and> i = j"
  by (simp add: sep_inject slot_string_inj identity_key_inj)

text \<open>C21: A key names one device: two stable identities have the same runtime key only if they are the
  same identity, whatever receiver ids, serials or node names they contain, so the settings stored
  under a key belong to one device and a device of another route never reads them.\<close>

theorem runtime_key_names_one_device: "runtime_key a = runtime_key b \<longleftrightarrow> a = b"
  by (cases a; cases b)
    (simp_all only: receiver_key_inj unknown_key_inj DeviceStableId.inject, simp_all add: identity_key_inj)

section \<open>Keys are read back\<close>

lemma hex_word_hex4 [simp]: "is_hex_word (hex4 w)"
  by (simp add: is_hex_word_def)

lemma splitn_Cons:
  "CHR '':'' \<notin> set a \<Longrightarrow> splitn (Suc (Suc n)) (CHR '':'') (a @ CHR '':'' # b) = a # splitn (Suc n) (CHR '':'') b"
  by simp

lemma direct_fragment_runtime:
  "direct_identity_fragment (runtime_key sid)
     = (case sid of StableDirect _ _ i \<Rightarrow> Some (identity_key i) | _ \<Rightarrow> None)"
  by (cases sid) (simp_all add: direct_identity_fragment_def numeral_3_eq_3)

lemma raw_fragment_runtime:
  "raw_identity_fragment (runtime_key sid)
     = (case sid of StableRawHid _ _ _ _ i \<Rightarrow> if i = [] then None else Some i | _ \<Rightarrow> None)"
  by (cases sid) (simp_all add: raw_identity_fragment_def eval_nat_numeral)

lemma unknown_fragment_runtime:
  "unknown_identity_fragment (runtime_key sid)
     = (case sid of StableUnknown _ i \<Rightarrow> Some (identity_key i) | _ \<Rightarrow> None)"
  by (cases sid) (simp_all add: unknown_identity_fragment_def)

lemma receiver_valid_runtime:
  "receiver_key_is_valid (runtime_key sid) = (case sid of StableBolt uid _ \<Rightarrow> uid \<noteq> [] | _ \<Rightarrow> False)"
proof (cases sid)
  case (StableBolt uid slot)
  have "rsplit_once '':slot:'' (uid @ '':slot:'' @ dec_string (unat slot)) = Some (uid, dec_string (unat slot))"
    by (intro slot_split dec_string_no_special)
  then show ?thesis
    unfolding StableBolt receiver_key_is_valid_def runtime_key.simps strip_prefix_append bind.bind_lunit
    by (simp only: is_some_and_simps case_prod_conv parse_u8_dec DeviceStableId.case) simp
qed (simp_all add: receiver_key_is_valid_def)

lemma runtime_not_identity: "identity_fragment_is_physical (runtime_key sid) = False"
  by (cases sid) (simp_all add: identity_fragment_is_physical_def)

lemma identity_fragment_key: "identity_fragment_is_physical (identity_key i) = is_physical i"
  by (cases i) (simp_all add: identity_fragment_is_physical_def hex_unit_shape unit_zero_hex)

lemmas runtime_fragments = direct_fragment_runtime raw_fragment_runtime unknown_fragment_runtime
  receiver_valid_runtime runtime_not_identity identity_fragment_key

lemma zero_unit_key: "identity_key i = ''unit:00000000'' \<longleftrightarrow> i = IdUnit (0, 0, 0, 0)"
  by (cases i) (simp_all add: unit_zero_hex)

lemma raw_physical_nonempty: "\<not> raw_identity_is_physical []"
  by (simp add: raw_identity_is_physical_def)


lemma hex_no_colon:
  assumes "CHR '':'' \<in> set s"
  shows "u16_from_hex s = None"
proof -
  have "to_digit 16 (CHR '':'') = None" by (simp add: to_digit_def Let_def)
  then have "from_str_radix 16 65535 s = None"
    using assms by (intro from_str_radix_bad) simp_all
  then show ?thesis by (simp add: u16_from_hex_def)
qed

text \<open>Link keys say how a device was reached: of the route keys exactly the direct ones are read
  back as a route, the very vendor and product id they were written for; the keys of receivers,
  raw nodes and routeless devices, and full direct keys with an identity behind the product id, are
  not taken for direct routes.\<close>

theorem direct_route_of_key_inverts:
  "direct_route_of_key (route_key sid) =
     (case sid of StableDirect vid pid _ \<Rightarrow> Some (RouteDirect vid pid) | _ \<Rightarrow> None)
   \<and> direct_route_of_key (runtime_key sid) = None"
  by (cases sid) (simp_all add: direct_route_of_key_def hex_no_colon)

end
