(* ===== verification/Rust_Btree.thy ===== *)
theory Rust_Btree
  imports Rust_Text "HOL-Library.List_Lexorder" "HOL-Library.Char_ord"
begin

text \<open>
  \<open>BTreeMap\<close> as the list of its entries in key order, which is the order its iterators give, with
  Rust's \<open>Ord\<close> of strings, the lexicographic order of their bytes. The facts are the laws of the
  map and that the entry list is determined by the lookups.
\<close>

fun btree_insert :: "'k::linorder \<Rightarrow> 'v \<Rightarrow> ('k \<times> 'v) list \<Rightarrow> ('k \<times> 'v) list" where
  "btree_insert k v [] = [(k, v)]"
| "btree_insert k v ((k', v') # m) =
     (if k < k' then (k, v) # (k', v') # m
      else if k = k' then (k, v) # m
      else (k', v') # btree_insert k v m)"

definition btree_ok :: "('k::linorder \<times> 'v) list \<Rightarrow> bool" where
  "btree_ok m \<longleftrightarrow> sorted_wrt (<) (map fst m)"

definition btree_extend :: "('k::linorder \<times> 'v) list \<Rightarrow> ('k \<times> 'v) list \<Rightarrow> ('k \<times> 'v) list" where
  "btree_extend m es = fold (\<lambda>(k, v). btree_insert k v) es m"

lemma btree_ok_simps [simp]: "btree_ok []"
  "btree_ok (e # m) \<longleftrightarrow> (\<forall>k \<in> fst ` set m. fst e < k) \<and> btree_ok m"
  by (auto simp: btree_ok_def)

lemma btree_insert_keys [simp]: "fst ` set (btree_insert k v m) = insert k (fst ` set m)"
  by (induction k v m rule: btree_insert.induct) auto

lemma btree_insert_ok [simp]: "btree_ok m \<Longrightarrow> btree_ok (btree_insert k v m)"
  by (induction k v m rule: btree_insert.induct) (auto dest: order.strict_trans)

lemma btree_lookup_insert [simp]: "map_of (btree_insert k v m) = (map_of m)(k \<mapsto> v)"
  by (induction k v m rule: btree_insert.induct) (auto simp: fun_upd_twist)

lemma btree_ok_distinct: "btree_ok m \<Longrightarrow> distinct (map fst m)"
  by (induction m) auto

lemma btree_insert_last:
  "\<forall>k' \<in> fst ` set m. k' < k \<Longrightarrow> btree_insert k v m = m @ [(k, v)]"
  by (induction k v m rule: btree_insert.induct) auto

lemma btree_extend_append: "btree_ok (m @ es) \<Longrightarrow> btree_extend m es = m @ es"
proof (induction es arbitrary: m)
  case (Cons e es)
  obtain k v where e: "e = (k, v)" by (cases e)
  have "btree_insert k v m = m @ [(k, v)]"
    using Cons.prems by (intro btree_insert_last) (auto simp: btree_ok_def sorted_wrt_append e)
  moreover have "btree_ok ((m @ [e]) @ es)" using Cons.prems by simp
  ultimately show ?case using Cons.IH [of "m @ [e]"] by (simp add: btree_extend_def e)
qed (simp add: btree_extend_def)

lemma btree_extend_keys [simp]: "fst ` set (btree_extend m es) = fst ` set m \<union> fst ` set es"
  unfolding btree_extend_def by (induction es arbitrary: m) (simp_all add: case_prod_beta)

lemma btree_extend_ok [simp]: "btree_ok m \<Longrightarrow> btree_ok (btree_extend m es)"
  unfolding btree_extend_def by (induction es arbitrary: m) auto

lemma btree_filter_ok [simp]: "btree_ok m \<Longrightarrow> btree_ok (filter P m)"
  by (induction m) auto

lemma btree_filter_lookup:
  "btree_ok m \<Longrightarrow> map_of (filter (\<lambda>e. P (fst e)) m) k = (if P k then map_of m k else None)"
  by (induction m) auto

lemma btree_ext:
  assumes "btree_ok m" and "btree_ok n" and "map_of m = map_of n"
  shows "m = n"
proof -
  have entries: "map (\<lambda>k. (k, the (map_of l k))) (map fst l) = l" if "btree_ok l" for l :: "('a \<times> 'b) list"
    using btree_ok_distinct [OF that] by (auto intro!: map_idI)
  have "dom (map_of m) = dom (map_of n)" using assms(3) by simp
  then have "set (map fst m) = set (map fst n)" by (simp add: dom_map_of_conv_image_fst)
  moreover have "sorted (map fst m)" "sorted (map fst n)"
    using assms(1,2) by (simp_all add: btree_ok_def strict_sorted_iff)
  ultimately have "map fst m = map fst n"
    using btree_ok_distinct [OF assms(1)] btree_ok_distinct [OF assms(2)]
    by (intro sorted_distinct_set_unique)
  then show ?thesis using entries [OF assms(1)] entries [OF assms(2)] assms(3) by metis
qed

end
