(* ===== verification/Utf8.thy ===== *)
theory Utf8
  imports Rust_Text
begin

text \<open>
  UTF-8 as \<open>std::str::from_utf8\<close> checks it: shortest forms only, no surrogates, nothing above
  \<open>U+10FFFF\<close>. A Rust string is well-formed by construction; \<open>chars\<close> gives its code points, on which
  \<open>str::trim\<close> and \<open>char::is_control\<close> work.
\<close>

definition string_bytes :: "string \<Rightarrow> u8 list" where
  "string_bytes s = map (\<lambda>c. of_nat (of_char c)) s"

definition bytes_string :: "u8 list \<Rightarrow> string" where
  "bytes_string bs = map (\<lambda>b. char_of (unat b)) bs"

definition cont :: "nat \<Rightarrow> bool" where
  "cont b \<longleftrightarrow> 0x80 \<le> b \<and> b \<le> 0xBF"

fun utf8_decode :: "nat list \<Rightarrow> nat list option" where
  "utf8_decode [] = Some []"
| "utf8_decode (b0 # r) =
     (if b0 < 0x80 then map_option ((#) b0) (utf8_decode r)
      else case r of
        [] \<Rightarrow> None
      | b1 # r1 \<Rightarrow>
          if 0xC2 \<le> b0 \<and> b0 \<le> 0xDF
          then (if cont b1 then map_option ((#) ((b0 - 0xC0) * 64 + (b1 - 0x80))) (utf8_decode r1) else None)
          else case r1 of
            [] \<Rightarrow> None
          | b2 # r2 \<Rightarrow>
              if 0xE0 \<le> b0 \<and> b0 \<le> 0xEF
              then (if (if b0 = 0xE0 then 0xA0 else 0x80) \<le> b1 \<and> b1 \<le> (if b0 = 0xED then 0x9F else 0xBF) \<and> cont b2
                    then map_option ((#) ((b0 - 0xE0) * 4096 + (b1 - 0x80) * 64 + (b2 - 0x80))) (utf8_decode r2)
                    else None)
              else case r2 of
                [] \<Rightarrow> None
              | b3 # r3 \<Rightarrow>
                  if 0xF0 \<le> b0 \<and> b0 \<le> 0xF4
                     \<and> (if b0 = 0xF0 then 0x90 else 0x80) \<le> b1 \<and> b1 \<le> (if b0 = 0xF4 then 0x8F else 0xBF)
                     \<and> cont b2 \<and> cont b3
                  then map_option ((#) ((b0 - 0xF0) * 262144 + (b1 - 0x80) * 4096 + (b2 - 0x80) * 64 + (b3 - 0x80)))
                         (utf8_decode r3)
                  else None)"

declare utf8_decode.simps(2) [simp del]

definition from_utf8 :: "u8 list \<Rightarrow> string option" where
  "from_utf8 bs = (if utf8_decode (map unat bs) = None then None else Some (bytes_string bs))"

definition wf_string :: "string \<Rightarrow> bool" where
  "wf_string s \<longleftrightarrow> utf8_decode (map of_char s) \<noteq> None"

definition str_chars :: "string \<Rightarrow> nat list" where
  "str_chars s = (case utf8_decode (map of_char s) of Some cs \<Rightarrow> cs | None \<Rightarrow> [])"

definition is_whitespace :: "nat \<Rightarrow> bool" where
  "is_whitespace c \<longleftrightarrow> 0x9 \<le> c \<and> c \<le> 0xD \<or> c = 0x20 \<or> c = 0x85 \<or> c = 0xA0 \<or> c = 0x1680
     \<or> 0x2000 \<le> c \<and> c \<le> 0x200A \<or> c = 0x2028 \<or> c = 0x2029 \<or> c = 0x202F \<or> c = 0x205F \<or> c = 0x3000"

definition is_control :: "nat \<Rightarrow> bool" where
  "is_control c \<longleftrightarrow> c \<le> 0x1F \<or> 0x7F \<le> c \<and> c \<le> 0x9F"

definition trim_chars :: "nat list \<Rightarrow> nat list" where
  "trim_chars cs = rev (dropWhile is_whitespace (rev (dropWhile is_whitespace cs)))"

section \<open>Bytes and strings\<close>

lemma of_char_byte: "(of_char c :: nat) < 256"
  by simp

lemma unat_of_char [simp]: "unat (of_nat (of_char c) :: u8) = of_char c"
  using of_char_byte [of c] by (simp add: unat_of_nat del: of_char_of of_nat_of_char)

lemma bytes_string_bytes [simp]: "bytes_string (string_bytes s) = s"
  unfolding bytes_string_def string_bytes_def by (simp add: o_def del: of_nat_of_char)

lemma string_bytes_string [simp]: "string_bytes (bytes_string bs) = bs"
proof -
  have "(of_nat (of_char (char_of (unat b) :: char)) :: u8) = b" for b :: u8
    using of_char_small [OF unat_u8 [of b]] by (simp del: of_nat_of_char)
  then show ?thesis unfolding bytes_string_def string_bytes_def by (simp add: o_def del: of_nat_of_char)
qed

lemma string_bytes_unat: "map unat (string_bytes s) = map of_char s"
  unfolding string_bytes_def by (simp add: o_def del: of_nat_of_char)

lemma string_bytes_empty [simp]: "string_bytes s = [] \<longleftrightarrow> s = []"
  by (simp add: string_bytes_def)

lemma from_utf8_bytes: "from_utf8 (string_bytes s) = (if wf_string s then Some s else None)"
  by (simp add: from_utf8_def wf_string_def string_bytes_unat)

lemma from_utf8_Some: "from_utf8 bs = Some s \<longleftrightarrow> wf_string s \<and> bs = string_bytes s"
proof
  assume "from_utf8 bs = Some s"
  then have "s = bytes_string bs" and d: "utf8_decode (map unat bs) \<noteq> None"
    by (simp_all add: from_utf8_def split: if_splits)
  then have "bs = string_bytes s" by simp
  with d show "wf_string s \<and> bs = string_bytes s" by (simp add: wf_string_def string_bytes_unat)
qed (simp add: from_utf8_bytes)

lemma wf_ascii: "list_all (\<lambda>c. (of_char c :: nat) < 128) s \<Longrightarrow> wf_string s"
  unfolding wf_string_def by (induction s) (auto simp: utf8_decode.simps)

end
