(* ===== verification/Flow_Config.thy ===== *)
theory Flow_Config
  imports Device_Key Rust_Btree Utf8 Codec
begin

text \<open>
  The \<open>[flow]\<close> configuration, \<^verbatim>\<open>crates/openlogi-core/src/config/flow.rs\<close>: pinned public keys and their
  text form, peer names, Easy-Switch slots, devices with their persisted form, and the validation
  every configuration goes through. A peer name is its string, a public key its 32 bytes, a slot its
  byte; what their constructors refuse is an error value here. Serialisation to TOML is \<open>serde\<close>'s and
  not modelled.
\<close>

definition SELF_CHANNEL :: string where "SELF_CHANNEL = ''self''"
definition PUBLIC_KEY_PREFIX :: string where "PUBLIC_KEY_PREFIX = ''ed25519:''"
definition MAX_HOSTS :: u8 where "MAX_HOSTS = 3"

datatype FlowPublicKey = FlowPublicKey (fpk_bytes: "u8 list")
datatype FlowEdge = EdgeLeft | EdgeRight | EdgeTop | EdgeBottom

datatype FlowConfigError =
    InvalidPublicKey string
  | InvalidPeerName string
  | SlotOutOfRange u8
  | InvalidDeviceKey string
  | DuplicatePeerName string
  | DuplicatePeerKey FlowPublicKey
  | UnknownLayoutPeer string
  | DuplicateLayoutEdge FlowEdge
  | DuplicateDevice string
  | MissingSelfSlot string
  | UnknownDevicePeer string string
  | DuplicateSlot string u8

section \<open>Public keys\<close>

definition lower_hex_digit :: "char \<Rightarrow> u8 option" where
  "lower_hex_digit c =
     (let n = of_char c :: nat in
      if 48 \<le> n \<and> n \<le> 57 then Some (of_nat (n - 48))
      else if 97 \<le> n \<and> n \<le> 102 then Some (of_nat (n - 97 + 10)) else None)"

text \<open>The loop of \<open>from_str\<close> over \<open>as_chunks::<2>\<close>, which leaves an odd last byte out.\<close>

fun hex_pairs :: "string \<Rightarrow> u8 list option" where
  "hex_pairs (high # low # rest) =
     (case (lower_hex_digit high, lower_hex_digit low) of
        (Some high, Some low) \<Rightarrow> map_option ((#) (push_bit 4 high OR low)) (hex_pairs rest)
      | _ \<Rightarrow> None)"
| "hex_pairs _ = Some []"

definition public_key_from_str :: "string \<Rightarrow> FlowConfigError + FlowPublicKey" where
  "public_key_from_str value =
     (case strip_prefix PUBLIC_KEY_PREFIX value of
        None \<Rightarrow> Inl (InvalidPublicKey value)
      | Some hex \<Rightarrow>
          if length hex \<noteq> 64 then Inl (InvalidPublicKey value)
          else case hex_pairs hex of
            None \<Rightarrow> Inl (InvalidPublicKey value)
          | Some bytes \<Rightarrow> Inr (FlowPublicKey bytes))"

definition public_key_to_string :: "FlowPublicKey \<Rightarrow> string" where
  "public_key_to_string key = PUBLIC_KEY_PREFIX @ concat (map hex2 (fpk_bytes key))"

section \<open>Names, slots and devices\<close>

definition peer_name_new :: "string \<Rightarrow> FlowConfigError + string" where
  "peer_name_new name =
     (if name = [] \<or> trim_chars (str_chars name) \<noteq> str_chars name
         \<or> list_ex is_control (str_chars name) \<or> name = SELF_CHANNEL
      then Inl (InvalidPeerName name) else Inr name)"

definition host_slot_new :: "u8 \<Rightarrow> FlowConfigError + u8" where
  "host_slot_new slot = (if slot < MAX_HOSTS then Inr slot else Inl (SlotOutOfRange slot))"

record FlowPeer =
  fp_name :: string
  fp_public_key :: FlowPublicKey
  fp_addresses :: "string list"

record FlowLayout =
  fl_edge :: FlowEdge
  fl_peer :: string

record FlowDevice =
  fd_key :: PhysicalDeviceKey
  fd_self_slot :: u8
  fd_peer_slots :: "(string \<times> u8) list"

record FlowDeviceWire =
  fw_key :: string
  fw_peer_channels :: "(string \<times> u8) list"

fun find_reused :: "u8 set \<Rightarrow> u8 list \<Rightarrow> u8 option" where
  "find_reused used [] = None"
| "find_reused used (slot # slots) =
     (if slot \<in> used then Some slot else find_reused (insert slot used) slots)"

definition flow_device_new ::
  "PhysicalDeviceKey \<Rightarrow> u8 \<Rightarrow> (string \<times> u8) list \<Rightarrow> FlowConfigError + FlowDevice" where
  "flow_device_new key self_slot peer_slots =
     (case to_identity key of
        None \<Rightarrow> Inl (InvalidDeviceKey (as_str key))
      | Some key \<Rightarrow>
          (case find_reused {self_slot} (map snd peer_slots) of
             Some slot \<Rightarrow> Inl (DuplicateSlot (as_str key) slot)
           | None \<Rightarrow> Inr \<lparr>fd_key = key, fd_self_slot = self_slot, fd_peer_slots = peer_slots\<rparr>))"

definition peer_slot :: "FlowDevice \<Rightarrow> string \<Rightarrow> u8 option" where
  "peer_slot device peer = map_of (fd_peer_slots device) peer"

text \<open>The loop of \<open>FlowDevice::try_from\<close> over the persisted channels.\<close>

fun read_channels ::
  "(string \<times> u8) list \<Rightarrow> u8 option \<Rightarrow> (string \<times> u8) list \<Rightarrow> FlowConfigError + u8 option \<times> (string \<times> u8) list"
  where
  "read_channels [] self_slot peer_slots = Inr (self_slot, peer_slots)"
| "read_channels ((name, slot) # channels) self_slot peer_slots =
     (case host_slot_new slot of
        Inl e \<Rightarrow> Inl e
      | Inr slot \<Rightarrow>
          if name = SELF_CHANNEL then read_channels channels (Some slot) peer_slots
          else case peer_name_new name of
            Inl e \<Rightarrow> Inl e
          | Inr name \<Rightarrow> read_channels channels self_slot (btree_insert name slot peer_slots))"

definition flow_device_try_from :: "FlowDeviceWire \<Rightarrow> FlowConfigError + FlowDevice" where
  "flow_device_try_from wire =
     (case key_parse (fw_key wire) of
        None \<Rightarrow> Inl (InvalidDeviceKey (fw_key wire))
      | Some key \<Rightarrow>
          (case read_channels (fw_peer_channels wire) None [] of
             Inl e \<Rightarrow> Inl e
           | Inr (None, _) \<Rightarrow> Inl (MissingSelfSlot (fw_key wire))
           | Inr (Some self_slot, peer_slots) \<Rightarrow> flow_device_new key self_slot peer_slots))"

definition flow_device_into :: "FlowDevice \<Rightarrow> FlowDeviceWire" where
  "flow_device_into device =
     \<lparr>fw_key = as_str (fd_key device),
      fw_peer_channels = btree_extend [(SELF_CHANNEL, fd_self_slot device)] (fd_peer_slots device)\<rparr>"

section \<open>Validation\<close>

record FlowConfig =
  fc_enabled :: bool
  fc_require_modifier :: bool
  fc_peers :: "FlowPeer list"
  fc_layout :: "FlowLayout list"
  fc_devices :: "FlowDevice list"

fun validate_peers ::
  "string set \<Rightarrow> FlowPublicKey set \<Rightarrow> FlowPeer list \<Rightarrow> FlowConfigError + string set" where
  "validate_peers names keys [] = Inr names"
| "validate_peers names keys (peer # peers) =
     (if fp_name peer \<in> names then Inl (DuplicatePeerName (fp_name peer))
      else if fp_public_key peer \<in> keys then Inl (DuplicatePeerKey (fp_public_key peer))
      else validate_peers (insert (fp_name peer) names) (insert (fp_public_key peer) keys) peers)"

fun validate_layout :: "string set \<Rightarrow> FlowEdge set \<Rightarrow> FlowLayout list \<Rightarrow> FlowConfigError + unit" where
  "validate_layout names edges [] = Inr ()"
| "validate_layout names edges (placement # layout) =
     (if fl_peer placement \<notin> names then Inl (UnknownLayoutPeer (fl_peer placement))
      else if fl_edge placement \<in> edges then Inl (DuplicateLayoutEdge (fl_edge placement))
      else validate_layout names (insert (fl_edge placement) edges) layout)"

fun validate_devices :: "string set \<Rightarrow> string set \<Rightarrow> FlowDevice list \<Rightarrow> FlowConfigError + unit" where
  "validate_devices names devices [] = Inr ()"
| "validate_devices names devices (device # rest) =
     (if as_str (fd_key device) \<in> devices then Inl (DuplicateDevice (as_str (fd_key device)))
      else case find (\<lambda>peer. peer \<notin> names) (map fst (fd_peer_slots device)) of
        Some peer \<Rightarrow> Inl (UnknownDevicePeer (as_str (fd_key device)) peer)
      | None \<Rightarrow> validate_devices names (insert (as_str (fd_key device)) devices) rest)"

definition validate :: "FlowConfig \<Rightarrow> FlowConfigError + unit" where
  "validate parts =
     (case validate_peers {} {} (fc_peers parts) of
        Inl e \<Rightarrow> Inl e
      | Inr names \<Rightarrow>
          (case validate_layout names {} (fc_layout parts) of
             Inl e \<Rightarrow> Inl e
           | Inr _ \<Rightarrow> validate_devices names {} (fc_devices parts)))"

definition flow_config_try_from :: "FlowConfig \<Rightarrow> FlowConfigError + FlowConfig" where
  "flow_config_try_from parts =
     (case validate parts of
        Inl e \<Rightarrow> Inl e
      | Inr _ \<Rightarrow> Inr \<lparr>fc_enabled = fc_enabled parts, fc_require_modifier = fc_require_modifier parts,
          fc_peers = fc_peers parts, fc_layout = fc_layout parts, fc_devices = fc_devices parts\<rparr>)"

definition find_peer :: "FlowConfig \<Rightarrow> string \<Rightarrow> FlowPeer option" where
  "find_peer config name = find (\<lambda>peer. fp_name peer = name) (fc_peers config)"

section \<open>Public keys have one text form\<close>

lemma nibble_join:
  assumes "a < 16" and "b < 16"
  shows "unat (push_bit 4 (of_nat a :: u8) OR of_nat b) = 16 * a + b"
proof -
  have "list_all (\<lambda>a. list_all (\<lambda>b. unat (push_bit 4 (of_nat a :: u8) OR of_nat b) = 16 * a + b) [0..<16]) [0..<16]"
    by code_simp
  with assms show ?thesis by (auto simp: list_all_iff)
qed

lemma lower_hex_digit_char: "d < 16 \<Longrightarrow> lower_hex_digit (digit_char d) = Some (of_nat d)"
  unfolding lower_hex_digit_def Let_def by (cases "d < 10") (simp_all add: of_digit_char)

lemma lower_hex_digit_Some:
  assumes "lower_hex_digit c = Some w"
  obtains d where "d < 16" "c = digit_char d" "w = of_nat d"
proof -
  obtain n where n: "c = char_of n" "of_char c = (n :: nat)" by (metis char_of_char)
  have "48 \<le> n \<and> n \<le> 57 \<and> w = of_nat (n - 48) \<or> 97 \<le> n \<and> n \<le> 102 \<and> w = of_nat (n - 97 + 10)"
    using assms unfolding lower_hex_digit_def Let_def n(2) by (simp only: option.inject option.distinct split: if_splits) auto
  then consider d where "n = 48 + d" "d < 10" "w = of_nat d" | d where "n = 87 + d" "10 \<le> d" "d < 16" "w = of_nat d"
    by (elim disjE conjE) (fastforce intro: that(1) [of "n - 48"], fastforce intro: that(2) [of "n - 97 + 10"])
  then show thesis by cases (rule that, auto simp: n(1) digit_char_def)+
qed

lemma hex_pairs_hex2: "hex_pairs (hex2 b @ r) = map_option ((#) b) (hex_pairs r)"
proof -
  have n: "unat b div 16 < 16" "unat b mod 16 < 16" using unat_u8 [of b] by simp_all
  have "push_bit 4 (of_nat (unat b div 16)) OR of_nat (unat b mod 16) = b"
    by (simp add: word_unat_eq_iff nibble_join [OF n])
  with n show ?thesis by (simp add: hex2_def Let_def lower_hex_digit_char)
qed

lemma hex_pairs_print: "hex_pairs (concat (map hex2 bs)) = Some bs"
  by (induction bs) (simp_all add: hex_pairs_hex2)

lemma hex2_join: "a < 16 \<Longrightarrow> b < 16 \<Longrightarrow> hex2 (push_bit 4 (of_nat a) OR of_nat b) = [digit_char a, digit_char b]"
  by (simp add: hex2_def Let_def nibble_join)

lemma hex_pairs_Some:
  assumes "hex_pairs s = Some bs" and "even (length s)"
  shows "concat (map hex2 bs) = s \<and> length s = 2 * length bs"
  using assms
proof (induction s arbitrary: bs rule: hex_pairs.induct)
  case (1 high low rest)
  from 1(2) obtain h l bs' where h: "lower_hex_digit high = Some h" "lower_hex_digit low = Some l"
    and bs: "hex_pairs rest = Some bs'" "bs = (push_bit 4 h OR l) # bs'"
    by (auto split: option.splits)
  obtain a where a: "a < 16" "high = digit_char a" "h = of_nat a" using lower_hex_digit_Some [OF h(1)] .
  obtain b where b: "b < 16" "low = digit_char b" "l = of_nat b" using lower_hex_digit_Some [OF h(2)] .
  have "concat (map hex2 bs') = rest \<and> length rest = 2 * length bs'"
    using 1(3) by (intro 1(1) [OF _ h(1) h(2) bs(1)]) simp_all
  then show ?case by (simp add: bs(2) hex2_join a b)
qed simp_all

interpretation public_keys: codec public_key_to_string
  "\<lambda>s. case public_key_from_str s of Inl _ \<Rightarrow> None | Inr k \<Rightarrow> Some k" "\<lambda>k. length (fpk_bytes k) = 32" "\<lambda>_. True"
proof unfold_locales
  fix k assume "length (fpk_bytes k) = 32"
  then have "length (concat (map hex2 (fpk_bytes k))) = 64" by (simp add: length_concat o_def sum_list_triv)
  then show "(case public_key_from_str (public_key_to_string k) of Inl _ \<Rightarrow> None | Inr k \<Rightarrow> Some k) = Some k"
    by (simp add: public_key_from_str_def public_key_to_string_def hex_pairs_print)
next
  fix s k assume "(case public_key_from_str s of Inl _ \<Rightarrow> None | Inr k \<Rightarrow> Some k) = Some k"
  then obtain h bs where s: "s = PUBLIC_KEY_PREFIX @ h" "length h = 64" "hex_pairs h = Some bs" "k = FlowPublicKey bs"
    by (auto simp: public_key_from_str_def strip_prefix_Some split: sum.splits option.splits if_splits)
  then show "length (fpk_bytes k) = 32" "public_key_to_string k = s"
    using hex_pairs_Some [OF s(3)] by (simp_all add: public_key_to_string_def)
qed simp

section \<open>Devices survive being stored\<close>

lemma find_reused_None: "find_reused used slots = None \<longleftrightarrow> distinct slots \<and> used \<inter> set slots = {}"
  by (induction used slots rule: find_reused.induct) auto

definition wf_channel :: "string \<times> u8 \<Rightarrow> bool" where
  "wf_channel e \<longleftrightarrow> snd e < MAX_HOSTS \<and> (fst e = SELF_CHANNEL \<or> peer_name_new (fst e) = Inr (fst e))"

lemma self_is_no_peer [simp]: "peer_name_new SELF_CHANNEL \<noteq> Inr n"
  by (simp add: peer_name_new_def)

lemma peer_name_Inr: "peer_name_new n = Inr m \<Longrightarrow> m = n"
  by (simp add: peer_name_new_def split: if_splits)

lemma host_slot_Inr: "host_slot_new s = Inr t \<longleftrightarrow> s < MAX_HOSTS \<and> t = s"
  by (auto simp: host_slot_new_def)

lemma read_channels_ok:
  assumes "list_all wf_channel cs" and "distinct (map fst cs)"
  shows "read_channels cs self_slot acc = Inr
    (case map_of cs SELF_CHANNEL of None \<Rightarrow> self_slot | Some s \<Rightarrow> Some s,
     btree_extend acc (filter (\<lambda>e. fst e \<noteq> SELF_CHANNEL) cs))"
  using assms
proof (induction cs arbitrary: self_slot acc)
  case (Cons e cs)
  obtain n s where e: "e = (n, s)" by (cases e)
  have s: "host_slot_new s = Inr s" using Cons.prems by (simp add: host_slot_Inr wf_channel_def e)
  show ?case
  proof (cases "n = SELF_CHANNEL")
    case True
    with Cons.prems have "map_of cs SELF_CHANNEL = None" by (simp add: e map_of_eq_None_iff)
    with Cons True s show ?thesis by (simp add: e)
  next
    case False
    with Cons.prems have "peer_name_new n = Inr n" by (simp add: wf_channel_def e)
    with Cons False s show ?thesis by (simp add: e btree_extend_def)
  qed
qed (simp add: btree_extend_def)

lemma read_channels_wf:
  assumes "read_channels cs self_slot acc = Inr (s, slots)"
    and "btree_ok acc" and "list_all (\<lambda>e. wf_channel e \<and> fst e \<noteq> SELF_CHANNEL) acc"
    and "\<And>t. self_slot = Some t \<Longrightarrow> t < MAX_HOSTS"
  shows "btree_ok slots \<and> list_all (\<lambda>e. wf_channel e \<and> fst e \<noteq> SELF_CHANNEL) slots
    \<and> (\<forall>t. s = Some t \<longrightarrow> t < MAX_HOSTS)"
  using assms
proof (induction cs arbitrary: self_slot acc)
  case (Cons e cs)
  obtain n t where e: "e = (n, t)" by (cases e)
  have ins: "list_all (\<lambda>e. wf_channel e \<and> fst e \<noteq> SELF_CHANNEL) (btree_insert n t acc)"
    if "wf_channel (n, t)" "n \<noteq> SELF_CHANNEL" for n t
    using that Cons.prems(3) by (induction n t acc rule: btree_insert.induct) auto
  from Cons.prems(1) have t: "t < MAX_HOSTS" and "n = SELF_CHANNEL \<or> peer_name_new n = Inr n"
    by (auto simp: e host_slot_Inr peer_name_Inr split: sum.splits if_splits dest: peer_name_Inr)
  then have wf: "wf_channel (n, t)" by (simp add: wf_channel_def)
  show ?case
  proof (cases "n = SELF_CHANNEL")
    case True
    then show ?thesis using Cons.prems t by (intro Cons.IH [of "Some t" acc]) (simp_all add: e host_slot_new_def)
  next
    case False
    then have "peer_name_new n = Inr n" using wf by (simp add: wf_channel_def)
    with False show ?thesis using Cons.prems t ins [OF wf False]
      by (intro Cons.IH [of self_slot "btree_insert n t acc"]) (simp_all add: e host_slot_new_def)
  qed
qed simp

lemma ascii_lower_zero: "ascii_lower c = CHR ''0'' \<longleftrightarrow> c = CHR ''0''"
proof (cases "65 \<le> (of_char c :: nat) \<and> (of_char c :: nat) \<le> 90")
  case True
  then have "(of_char (ascii_lower c) :: nat) \<noteq> of_char (CHR ''0'')" by (simp add: ascii_lower_upper)
  moreover have "(of_char c :: nat) \<noteq> of_char (CHR ''0'')" using True by simp
  ultimately show ?thesis by metis
qed (simp add: ascii_lower_other)

lemma hexdigit_lower: "is_ascii_hexdigit c \<Longrightarrow> is_ascii_hexdigit (ascii_lower c)"
proof (cases "65 \<le> (of_char c :: nat) \<and> (of_char c :: nat) \<le> 90")
  case True
  assume "is_ascii_hexdigit c"
  then have "(of_char c :: nat) \<le> 70"
    using True by (auto simp: is_ascii_hexdigit_def to_digit_def Let_def split: if_splits)
  then show ?thesis
    using True unfolding is_ascii_hexdigit_def to_digit_def ascii_lower_upper [OF conjunct1 [OF True] conjunct2 [OF True]]
    by (simp add: Let_def)
qed (simp add: ascii_lower_other)

lemma identity_fragment_lower:
  assumes "identity_fragment_is_physical s"
  shows "identity_fragment_is_physical (to_ascii_lowercase s)"
proof -
  consider r where "s = ''serial:'' @ r" "r \<noteq> []"
    | u where "s = ''unit:'' @ u" "length u = 8" "list_all is_ascii_hexdigit u" "u \<noteq> ''00000000''"
    using assms by (auto simp only: identity_fragment_is_physical_def is_some_and_iff strip_prefix_Some)
  then show ?thesis
  proof cases
    case 1
    have "to_ascii_lowercase s = ''serial:'' @ to_ascii_lowercase r" unfolding 1(1) map_append by code_simp
    with 1(2) show ?thesis by (simp add: identity_fragment_is_physical_def)
  next
    case 2
    have "to_ascii_lowercase s = ''unit:'' @ to_ascii_lowercase u" unfolding 2(1) map_append by code_simp
    moreover have "to_ascii_lowercase u \<noteq> ''00000000''"
    proof
      assume "to_ascii_lowercase u = ''00000000''"
      then have "ascii_lower ` set u = {CHR ''0''}" by (metis list.set_map list.simps(15) empty_set insert_absorb2)
      then have "list_all (\<lambda>c. ascii_lower c = CHR ''0'') u" by (auto simp: list_all_iff)
      then have "u = replicate (length u) (CHR ''0'')"
        by (intro replicate_eqI) (simp_all add: list_all_iff ascii_lower_zero)
      with 2(2,4) show False by (simp add: eval_nat_numeral)
    qed
    ultimately show ?thesis using 2(2,3)
      by (simp add: identity_fragment_is_physical_def list_all_iff hexdigit_lower)
  qed
qed

lemma to_identity_idem: "to_identity k = Some k' \<Longrightarrow> to_identity k' = Some k'"
  by (auto simp: to_identity_def identity_fragment_lower split: if_splits)

lemma to_identity_parse: "to_identity k = Some k \<Longrightarrow> key_parse (as_str k) = Some k"
  by (auto simp: to_identity_def key_parse_def split: if_splits)

definition wf_flow_device :: "FlowDevice \<Rightarrow> bool" where
  "wf_flow_device d \<longleftrightarrow>
     to_identity (fd_key d) = Some (fd_key d) \<and> fd_self_slot d < MAX_HOSTS
     \<and> btree_ok (fd_peer_slots d) \<and> list_all (\<lambda>e. wf_channel e \<and> fst e \<noteq> SELF_CHANNEL) (fd_peer_slots d)
     \<and> distinct (fd_self_slot d # map snd (fd_peer_slots d))"

lemma flow_device_new_Inr:
  "flow_device_new k s slots = Inr d \<longleftrightarrow>
     (\<exists>k'. to_identity k = Some k' \<and> distinct (s # map snd slots)
       \<and> d = \<lparr>fd_key = k', fd_self_slot = s, fd_peer_slots = slots\<rparr>)"
proof -
  have r: "distinct (s # map snd slots) \<longleftrightarrow> find_reused {s} (map snd slots) = None"
    by (auto simp: find_reused_None)
  show ?thesis unfolding r
    by (cases "to_identity k"; cases "find_reused {s} (map snd slots)") (auto simp: flow_device_new_def)
qed

lemma flow_device_try_from_wf:
  assumes "flow_device_try_from w = Inr d"
  shows "wf_flow_device d"
proof -
  from assms obtain k s slots where r: "read_channels (fw_peer_channels w) None [] = Inr (Some s, slots)"
    and n: "flow_device_new k s slots = Inr d"
    by (auto simp: flow_device_try_from_def split: option.splits sum.splits prod.splits)
  have "btree_ok slots \<and> list_all (\<lambda>e. wf_channel e \<and> fst e \<noteq> SELF_CHANNEL) slots
      \<and> (\<forall>t. Some s = Some t \<longrightarrow> t < MAX_HOSTS)"
    by (rule read_channels_wf [OF r]) simp_all
  moreover from n obtain k' where "to_identity k = Some k'" "distinct (s # map snd slots)"
    "d = \<lparr>fd_key = k', fd_self_slot = s, fd_peer_slots = slots\<rparr>" by (simp only: flow_device_new_Inr) blast
  ultimately show ?thesis by (simp add: wf_flow_device_def to_identity_idem)
qed

lemma map_of_btree_extend: "btree_ok es \<Longrightarrow> map_of (btree_extend m es) = map_of m ++ map_of es"
proof (induction es arbitrary: m)
  case (Cons e es)
  obtain k v where e: "e = (k, v)" by (cases e)
  have "map_of es k = None" using btree_ok_distinct [OF Cons.prems] by (simp add: e map_of_eq_None_iff)
  then have "map_of (btree_insert k v m) ++ map_of es = map_of m ++ map_of (e # es)"
    by (auto simp: map_add_def e fun_eq_iff split: option.splits)
  moreover have "map_of (btree_extend (btree_insert k v m) es) = map_of (btree_insert k v m) ++ map_of es"
    using Cons.prems by (intro Cons.IH) simp
  moreover have "btree_extend m (e # es) = btree_extend (btree_insert k v m) es"
    by (simp add: btree_extend_def e)
  ultimately show ?case by (simp only:)
qed (simp add: btree_extend_def)

lemma stored_channels:
  assumes "wf_flow_device d"
  defines "cs \<equiv> fw_peer_channels (flow_device_into d)"
  shows "list_all wf_channel cs" and "distinct (map fst cs)"
    and "map_of cs SELF_CHANNEL = Some (fd_self_slot d)"
    and "filter (\<lambda>e. fst e \<noteq> SELF_CHANNEL) cs = fd_peer_slots d"
proof -
  let ?slots = "fd_peer_slots d"
  have ok: "btree_ok ?slots" and peers: "\<And>e. e \<in> set ?slots \<Longrightarrow> wf_channel e \<and> fst e \<noteq> SELF_CHANNEL"
    using assms(1) by (auto simp: wf_flow_device_def list_all_iff)
  have cs_ok: "btree_ok cs" by (simp add: cs_def flow_device_into_def)
  then show d: "distinct (map fst cs)" by (rule btree_ok_distinct)
  have m: "map_of cs = [SELF_CHANNEL \<mapsto> fd_self_slot d] ++ map_of ?slots"
    using ok by (simp add: cs_def flow_device_into_def map_of_btree_extend)
  have none: "map_of ?slots SELF_CHANNEL = None" using peers by (fastforce simp: map_of_eq_None_iff)
  then show "map_of cs SELF_CHANNEL = Some (fd_self_slot d)" by (simp add: m map_add_def)
  have "wf_channel e" if "e \<in> set cs" for e
  proof -
    from that d have "map_of cs (fst e) = Some (snd e)" by simp
    then consider "map_of ?slots (fst e) = Some (snd e)" | "fst e = SELF_CHANNEL" "snd e = fd_self_slot d"
      by (auto simp: m map_add_Some_iff split: if_splits)
    then show ?thesis
    proof cases
      case 1
      then have "e \<in> set ?slots" by (metis map_of_SomeD prod.collapse)
      then show ?thesis using peers by blast
    next
      case 2
      then show ?thesis using assms(1) by (simp add: wf_channel_def wf_flow_device_def)
    qed
  qed
  then show "list_all wf_channel cs" by (simp add: list_all_iff)
  have "map_of (filter (\<lambda>e. fst e \<noteq> SELF_CHANNEL) cs) = map_of ?slots"
  proof
    fix k show "map_of (filter (\<lambda>e. fst e \<noteq> SELF_CHANNEL) cs) k = map_of ?slots k"
      unfolding btree_filter_lookup [OF cs_ok, of "\<lambda>n. n \<noteq> SELF_CHANNEL"]
      using none by (cases "map_of ?slots k") (auto simp: m map_add_def)
  qed
  with cs_ok ok show "filter (\<lambda>e. fst e \<noteq> SELF_CHANNEL) cs = ?slots" by (intro btree_ext) simp_all
qed

text \<open>C23: Stored Flow devices come back unchanged, and only valid ones come back: reading a persisted
  entry gives a device whose key is a lower-case identity key, whose slots are in range and pairwise
  different and whose peer names are valid, and every such device is read back from what it is
  stored as.\<close>

theorem flow_device_persists:
  "(wf_flow_device d \<longleftrightarrow> (\<exists>w. flow_device_try_from w = Inr d))
   \<and> (wf_flow_device d \<longleftrightarrow> flow_device_try_from (flow_device_into d) = Inr d)"
proof -
  have "flow_device_try_from (flow_device_into d) = Inr d" if wf: "wf_flow_device d"
  proof -
    have id: "to_identity (fd_key d) = Some (fd_key d)" and dist: "distinct (fd_self_slot d # map snd (fd_peer_slots d))"
      using wf by (auto simp: wf_flow_device_def)
    have "read_channels (fw_peer_channels (flow_device_into d)) None [] = Inr (Some (fd_self_slot d), fd_peer_slots d)"
      using read_channels_ok [OF stored_channels(1,2) [OF wf], of None "[]"] wf
      by (simp add: stored_channels(3,4) [OF wf] btree_extend_append wf_flow_device_def)
    with id dist show ?thesis
      by (simp add: flow_device_try_from_def flow_device_into_def to_identity_parse flow_device_new_Inr)
  qed
  then show ?thesis using flow_device_try_from_wf by blast
qed

section \<open>Validation decides the invariants\<close>

lemma validate_peers_Inr:
  "validate_peers names keys peers = Inr r \<longleftrightarrow>
     r = names \<union> fp_name ` set peers
     \<and> distinct (map fp_name peers) \<and> names \<inter> fp_name ` set peers = {}
     \<and> distinct (map fp_public_key peers) \<and> keys \<inter> fp_public_key ` set peers = {}"
  by (induction names keys peers rule: validate_peers.induct) auto

lemma validate_layout_Inr:
  "validate_layout names edges layout = Inr r \<longleftrightarrow>
     fl_peer ` set layout \<subseteq> names \<and> distinct (map fl_edge layout) \<and> edges \<inter> fl_edge ` set layout = {}"
  by (induction names edges layout rule: validate_layout.induct) auto

definition mapped_peers :: "FlowDevice \<Rightarrow> string set" where
  "mapped_peers d = fst ` set (fd_peer_slots d)"

lemma find_unknown_None: "find (\<lambda>p. p \<notin> names) (map fst (fd_peer_slots d)) = None \<longleftrightarrow> mapped_peers d \<subseteq> names"
  by (auto simp: find_None_iff mapped_peers_def)

lemma validate_devices_Inr:
  "validate_devices names seen devices = Inr r \<longleftrightarrow>
     (\<forall>d \<in> set devices. mapped_peers d \<subseteq> names)
     \<and> distinct (map (\<lambda>d. as_str (fd_key d)) devices) \<and> seen \<inter> (\<lambda>d. as_str (fd_key d)) ` set devices = {}"
proof (induction names seen devices rule: validate_devices.induct)
  case (2 names seen d rest)
  then show ?case
    by (cases "find (\<lambda>p. p \<notin> names) (map fst (fd_peer_slots d))")
      (auto simp: find_unknown_None [symmetric] simp del: find_None_iff)
qed simp

definition wf_flow_config :: "FlowConfig \<Rightarrow> bool" where
  "wf_flow_config c \<longleftrightarrow>
     (let names = fp_name ` set (fc_peers c) in
      distinct (map fp_name (fc_peers c)) \<and> distinct (map fp_public_key (fc_peers c))
      \<and> fl_peer ` set (fc_layout c) \<subseteq> names \<and> distinct (map fl_edge (fc_layout c))
      \<and> distinct (map fd_key (fc_devices c)) \<and> (\<forall>d \<in> set (fc_devices c). mapped_peers d \<subseteq> names))"

lemma device_keys_distinct: "distinct (map (\<lambda>d. as_str (fd_key d)) ds) \<longleftrightarrow> distinct (map fd_key ds)"
  by (induction ds) (auto simp: PhysicalDeviceKey.expand image_iff)

text \<open>C24: Loading a configuration accepts exactly the valid ones: validation lets a configuration through,
  unchanged, if and only if peer names, peer keys, layout edges and device keys are each unique and
  every peer the layout or a device names is configured; so every configuration in use has these
  properties and none that has them is refused.\<close>

theorem flow_config_validated:
  "flow_config_try_from parts = Inr c \<longleftrightarrow> wf_flow_config parts \<and> c = parts"
proof -
  have "validate parts = Inr () \<longleftrightarrow>
      (\<exists>names. validate_peers {} {} (fc_peers parts) = Inr names
        \<and> validate_layout names {} (fc_layout parts) = Inr () \<and> validate_devices names {} (fc_devices parts) = Inr ())"
    by (simp add: validate_def split: sum.splits)
  then have "validate parts = Inr () \<longleftrightarrow> wf_flow_config parts"
    unfolding validate_peers_Inr validate_layout_Inr validate_devices_Inr wf_flow_config_def Let_def
      device_keys_distinct by auto
  then show ?thesis by (cases "validate parts") (auto simp: flow_config_try_from_def)
qed

end
