(* ===== verification/Flow_Identity.thy ===== *)
theory Flow_Identity
  imports Utf8 Bytes Codec
begin

text \<open>
  Device identifiers on the wire, \<^verbatim>\<open>crates/openlogi-flow/src/identity.rs\<close>: the canonical forms, their
  validation, and the correlation of two identities. A generated enumeration field is the signed
  number the wire carries; the messages \<open>DeviceIdentifier\<close> and \<open>DeviceIdentity\<close> are those of
  \<^verbatim>\<open>proto/flow.v1.proto\<close> with the fields the program reads or writes.
\<close>

datatype CanonicalDeviceIdentifier =
    Serial string
  | UnitId u32
  | BluetoothAddress "u8 list"

datatype IdentifierKind = IK_Unspecified | IK_Serial | IK_UnitId | IK_BluetoothAddress

record WireDeviceIdentifier =
  wd_kind :: int
  wd_value :: "u8 list"

datatype DeviceIdentifierError =
    UnspecifiedKind
  | UnknownKind int
  | InvalidSerialUtf8
  | EmptySerial
  | InvalidLength IdentifierKind nat nat

fun identifier_number :: "IdentifierKind \<Rightarrow> int" where
  "identifier_number IK_Unspecified = 0"
| "identifier_number IK_Serial = 1"
| "identifier_number IK_UnitId = 2"
| "identifier_number IK_BluetoothAddress = 3"

definition identifier_known :: "int \<Rightarrow> IdentifierKind option" where
  "identifier_known n =
     (if n = 0 then Some IK_Unspecified else if n = 1 then Some IK_Serial
      else if n = 2 then Some IK_UnitId else if n = 3 then Some IK_BluetoothAddress else None)"

fun identifier_kind :: "CanonicalDeviceIdentifier \<Rightarrow> IdentifierKind" where
  "identifier_kind (Serial _) = IK_Serial"
| "identifier_kind (UnitId _) = IK_UnitId"
| "identifier_kind (BluetoothAddress _) = IK_BluetoothAddress"

definition u32_to_be_bytes :: "u32 \<Rightarrow> u8 list" where
  "u32_to_be_bytes w = rev (u32_to_le_bytes w)"

definition u32_from_be_bytes :: "u8 list \<Rightarrow> u32" where
  "u32_from_be_bytes bs = u32_from_le_bytes (bs ! 3) (bs ! 2) (bs ! 1) (bs ! 0)"

fun canonical_bytes :: "CanonicalDeviceIdentifier \<Rightarrow> u8 list" where
  "canonical_bytes (Serial serial) = string_bytes serial"
| "canonical_bytes (UnitId unit_id) = u32_to_be_bytes unit_id"
| "canonical_bytes (BluetoothAddress address) = address"

definition exact_bytes :: "nat \<Rightarrow> IdentifierKind \<Rightarrow> u8 list \<Rightarrow> DeviceIdentifierError + u8 list" where
  "exact_bytes n kind value =
     (if length value = n then Inr value else Inl (InvalidLength kind n (length value)))"

definition identifier_try_from ::
  "WireDeviceIdentifier \<Rightarrow> DeviceIdentifierError + CanonicalDeviceIdentifier" where
  "identifier_try_from w =
     (case identifier_known (wd_kind w) of
        Some IK_Serial \<Rightarrow>
          (case from_utf8 (wd_value w) of
             None \<Rightarrow> Inl InvalidSerialUtf8
           | Some serial \<Rightarrow> if serial = [] then Inl EmptySerial else Inr (Serial serial))
      | Some IK_UnitId \<Rightarrow>
          (case exact_bytes 4 IK_UnitId (wd_value w) of
             Inl e \<Rightarrow> Inl e | Inr bytes \<Rightarrow> Inr (UnitId (u32_from_be_bytes bytes)))
      | Some IK_BluetoothAddress \<Rightarrow>
          (case exact_bytes 6 IK_BluetoothAddress (wd_value w) of
             Inl e \<Rightarrow> Inl e | Inr bytes \<Rightarrow> Inr (BluetoothAddress bytes))
      | Some IK_Unspecified \<Rightarrow> Inl UnspecifiedKind
      | None \<Rightarrow> Inl (UnknownKind (wd_kind w)))"

fun identifier_into :: "CanonicalDeviceIdentifier \<Rightarrow> WireDeviceIdentifier" where
  "identifier_into (Serial serial) = \<lparr>wd_kind = identifier_number IK_Serial, wd_value = string_bytes serial\<rparr>"
| "identifier_into (UnitId unit_id) = \<lparr>wd_kind = identifier_number IK_UnitId, wd_value = u32_to_be_bytes unit_id\<rparr>"
| "identifier_into (BluetoothAddress address) =
     \<lparr>wd_kind = identifier_number IK_BluetoothAddress, wd_value = address\<rparr>"

datatype DeviceCategory = DC_Mouse | DC_Keyboard | DC_Trackball | DC_Touchpad | DC_Presenter | DC_Other

record PeerDeviceIdentity =
  pd_ids :: "WireDeviceIdentifier list"
  pd_name :: string
  pd_category :: DeviceCategory

text \<open>\<open>iter().map(f).collect::<Result<Vec<_>, _>>()\<close> stops at the first error.\<close>

fun collect_results :: "('a \<Rightarrow> 'e + 'b) \<Rightarrow> 'a list \<Rightarrow> 'e + 'b list" where
  "collect_results f [] = Inr []"
| "collect_results f (x # xs) =
     (case f x of
        Inl e \<Rightarrow> Inl e
      | Inr y \<Rightarrow> (case collect_results f xs of Inl e \<Rightarrow> Inl e | Inr ys \<Rightarrow> Inr (y # ys)))"

definition validated_identifiers ::
  "PeerDeviceIdentity \<Rightarrow> DeviceIdentifierError + CanonicalDeviceIdentifier list" where
  "validated_identifiers identity = collect_results identifier_try_from (pd_ids identity)"

definition same_device :: "PeerDeviceIdentity \<Rightarrow> PeerDeviceIdentity \<Rightarrow> DeviceIdentifierError + bool" where
  "same_device first second =
     (case validated_identifiers first of
        Inl e \<Rightarrow> Inl e
      | Inr a \<Rightarrow>
          (case validated_identifiers second of
             Inl e \<Rightarrow> Inl e
           | Inr b \<Rightarrow> Inr (\<exists>identifier \<in> set a. identifier \<in> set b)))"

section \<open>Canonical identifiers\<close>

text \<open>The values a Rust \<open>String\<close> and \<open>[u8; 6]\<close> can hold, and that validation accepts.\<close>

fun wf_identifier :: "CanonicalDeviceIdentifier \<Rightarrow> bool" where
  "wf_identifier (Serial serial) \<longleftrightarrow> wf_string serial \<and> serial \<noteq> []"
| "wf_identifier (UnitId _) \<longleftrightarrow> True"
| "wf_identifier (BluetoothAddress address) \<longleftrightarrow> length address = 6"

lemma u32_from_to_be_bytes [simp]: "u32_from_be_bytes (u32_to_be_bytes w) = w"
  unfolding u32_from_be_bytes_def u32_to_be_bytes_def u32_to_le_bytes_def
  by (simp add: u32_from_to_le_bytes)

lemma u32_to_be_bytes_length [simp]: "length (u32_to_be_bytes w) = 4"
  by (simp add: u32_to_be_bytes_def u32_to_le_bytes_def)

lemma u32_to_from_be_bytes:
  assumes "length bs = 4"
  shows "u32_to_be_bytes (u32_from_be_bytes bs) = bs"
proof -
  from assms obtain a b c d where "bs = [a, b, c, d]"
    by (auto simp: eval_nat_numeral length_Suc_conv)
  then show ?thesis by (simp add: u32_to_be_bytes_def u32_from_be_bytes_def u32_to_from_le_bytes)
qed

lemma try_from_into: "wf_identifier c \<Longrightarrow> identifier_try_from (identifier_into c) = Inr c"
  by (cases c) (simp_all add: identifier_try_from_def identifier_known_def from_utf8_bytes exact_bytes_def)

lemma try_from_Inr:
  assumes "identifier_try_from w = Inr c"
  shows "wf_identifier c \<and> identifier_into c = w"
  using assms
  by (auto simp: identifier_try_from_def identifier_known_def exact_bytes_def from_utf8_Some
      u32_to_from_be_bytes split: option.splits if_splits)

interpretation identifiers: codec identifier_into
  "\<lambda>w. case identifier_try_from w of Inl _ \<Rightarrow> None | Inr c \<Rightarrow> Some c" wf_identifier "\<lambda>_. True"
proof unfold_locales
  fix w c assume w: "(case identifier_try_from w of Inl _ \<Rightarrow> None | Inr c \<Rightarrow> Some c) = Some c"
  then have "identifier_try_from w = Inr c" by (simp split: sum.splits)
  then show "wf_identifier c" "identifier_into c = w" using try_from_Inr by blast+
qed (simp_all add: try_from_into)

lemma identifier_valid_iff: "identifier_try_from w = Inr c \<longleftrightarrow> wf_identifier c \<and> identifier_into c = w"
  using try_from_Inr try_from_into by blast

lemma collect_results_Inr:
  "collect_results f xs = Inr ys \<longleftrightarrow> list_all2 (\<lambda>x y. f x = Inr y) xs ys"
proof (induction xs arbitrary: ys)
  case (Cons x xs)
  show ?case by (cases ys; cases "f x"; cases "collect_results f xs") (auto simp: Cons.IH [symmetric])
qed auto

lemma validated_into: "validated_identifiers d = Inr cs \<longleftrightarrow> list_all wf_identifier cs \<and> map identifier_into cs = pd_ids d"
proof -
  have "list_all2 (\<lambda>w c. wf_identifier c \<and> identifier_into c = w) ws cs
      \<longleftrightarrow> list_all wf_identifier cs \<and> map identifier_into cs = ws" for ws
  proof (induction ws arbitrary: cs)
    case (Cons w ws)
    then show ?case by (cases cs) auto
  qed auto
  then show ?thesis by (simp add: validated_identifiers_def collect_results_Inr identifier_valid_iff)
qed

definition wire_valid :: "PeerDeviceIdentity \<Rightarrow> bool" where
  "wire_valid d \<longleftrightarrow> (\<forall>w \<in> set (pd_ids d). \<exists>c. identifier_try_from w = Inr c)"

lemma collect_results_ok: "(\<exists>ys. collect_results f xs = Inr ys) \<longleftrightarrow> (\<forall>x \<in> set xs. \<exists>y. f x = Inr y)"
proof (induction xs)
  case (Cons x xs)
  show ?case using Cons.IH by (cases "f x"; cases "collect_results f xs") auto
qed simp

lemma validated_ok: "(\<exists>cs. validated_identifiers d = Inr cs) \<longleftrightarrow> wire_valid d"
  by (simp add: validated_identifiers_def wire_valid_def collect_results_ok)

lemma same_device_Inr:
  "same_device a b = Inr r \<longleftrightarrow>
     wire_valid a \<and> wire_valid b \<and> (r \<longleftrightarrow> set (pd_ids a) \<inter> set (pd_ids b) \<noteq> {})"
proof -
  have shared: "(\<exists>i \<in> set cs. i \<in> set ds) \<longleftrightarrow> set (pd_ids a) \<inter> set (pd_ids b) \<noteq> {}"
    if "validated_identifiers a = Inr cs" "validated_identifiers b = Inr ds" for cs ds
  proof -
    have wf: "list_all wf_identifier cs" "list_all wf_identifier ds"
      and ids: "pd_ids a = map identifier_into cs" "pd_ids b = map identifier_into ds"
      using that by (auto simp: validated_into)
    have "i = j" if "i \<in> set cs" "j \<in> set ds" "identifier_into i = identifier_into j" for i j
      using that wf identifiers.enc_inj by (auto simp: list_all_iff)
    then show ?thesis unfolding ids by (auto simp: disjoint_iff image_iff)
  qed
  show ?thesis
    using validated_ok [of a] validated_ok [of b] shared
    by (cases "validated_identifiers a"; cases "validated_identifiers b") (auto simp: same_device_def)
qed

text \<open>Two identities denote one device exactly when their identifier sets intersect, on the wire as
  much as in canonical form: correlation answers only if every identifier of both is valid, and
  then says whether some identifier occurs in both. The order of the two does
  not matter, and an invalid identifier never correlates.\<close>

theorem same_device_correlates:
  "(same_device a b = Inr r \<longleftrightarrow>
     wire_valid a \<and> wire_valid b \<and> (r \<longleftrightarrow> set (pd_ids a) \<inter> set (pd_ids b) \<noteq> {}))
   \<and> (same_device a b = Inr r \<longleftrightarrow> same_device b a = Inr r)"
  by (auto simp: same_device_Inr)

end
