(* ===== verification/Flow_Devices.thy ===== *)
theory Flow_Devices
  imports Flow_Config Flow_Identity "HOL-Library.Product_Lexorder"
begin

text \<open>
  The devices Flow can move, \<^verbatim>\<open>crates/openlogi-agent-core/src/flow/devices.rs\<close>: the join of the
  configuration with the inventory, the identities announced to peers, and the lookups of a peer's
  request. \<open>DeviceKind\<close> is that of \<^verbatim>\<open>crates/openlogi-core/src/device.rs\<close>.
\<close>

datatype DeviceKind =
    Mouse | Keyboard | Numpad | Presenter | Remote | Trackball | Touchpad | Tablet | Gamepad | Joystick
  | Headset | Camera | UnknownKindOfDevice | Light

definition is_keyboard_family :: "DeviceKind \<Rightarrow> bool" where
  "is_keyboard_family kind = (case kind of Keyboard \<Rightarrow> True | Numpad \<Rightarrow> True | _ \<Rightarrow> False)"

definition is_pointing :: "DeviceKind \<Rightarrow> bool" where
  "is_pointing kind = (case kind of Mouse \<Rightarrow> True | Trackball \<Rightarrow> True | Touchpad \<Rightarrow> True | _ \<Rightarrow> False)"

definition handoff_rank :: "DeviceKind \<Rightarrow> nat" where
  "handoff_rank kind = (if is_pointing kind then 0 else if is_keyboard_family kind then 2 else 1)"

definition category :: "DeviceKind \<Rightarrow> DeviceCategory" where
  "category kind =
     (if is_keyboard_family kind then DC_Keyboard
      else case kind of
        Mouse \<Rightarrow> DC_Mouse | Trackball \<Rightarrow> DC_Trackball | Touchpad \<Rightarrow> DC_Touchpad | Presenter \<Rightarrow> DC_Presenter
      | _ \<Rightarrow> DC_Other)"

record InventoryDevice =
  iv_key :: PhysicalDeviceKey
  iv_route :: "DeviceRoute option"
  iv_serial :: "string option"
  iv_unit_id :: unit_id
  iv_kind :: DeviceKind
  iv_online :: bool

record LocalDevice =
  ld_config :: FlowDevice
  ld_identity :: PeerDeviceIdentity
  ld_route :: "DeviceRoute option"
  ld_kind :: DeviceKind
  ld_online :: bool

abbreviation ld_key :: "LocalDevice \<Rightarrow> PhysicalDeviceKey" where
  "ld_key d \<equiv> fd_key (ld_config d)"

record OutgoingDevice =
  og_route :: DeviceRoute
  og_slot :: u8
  og_identity :: PeerDeviceIdentity

record LocalDevices =
  lds_listed :: "LocalDevice list"
  lds_unlisted :: "PhysicalDeviceKey list"

record DeviceView =
  dv_identity :: PeerDeviceIdentity
  dv_channel_to_me :: u32
  dv_connected :: bool
  dv_host_count :: u32

record AnnounceDevices_msg =
  an_devices :: "DeviceView list"
  an_revision :: u64

section \<open>The join\<close>

fun unit_bytes :: "unit_id \<Rightarrow> u8 list" where
  "unit_bytes (a, b, c, d) = [a, b, c, d]"

definition unit_of_u32 :: "u32 \<Rightarrow> unit_id" where
  "unit_of_u32 w = (let bs = u32_to_be_bytes w in (bs ! 0, bs ! 1, bs ! 2, bs ! 3))"

definition device_identity :: "PhysicalDeviceKey \<Rightarrow> InventoryDevice \<Rightarrow> PeerDeviceIdentity option" where
  "device_identity key record =
     (let ids =
        (case iv_serial record of
           Some serial \<Rightarrow> if serial = [] then [] else [identifier_into (Serial serial)]
         | None \<Rightarrow> [])
        @ (if iv_unit_id record \<noteq> (0, 0, 0, 0)
           then [identifier_into (UnitId (u32_from_be_bytes (unit_bytes (iv_unit_id record))))] else []) in
      if ids = [] then None
      else Some \<lparr>pd_ids = ids, pd_name = as_str key, pd_category = category (iv_kind record)\<rparr>)"

text \<open>\<open>Iterator::min_by_key\<close> returns the first of several minima.\<close>

fun min_by_key :: "('a \<Rightarrow> 'k::linorder) \<Rightarrow> 'a list \<Rightarrow> 'a option" where
  "min_by_key f [] = None"
| "min_by_key f (x # xs) =
     (case min_by_key f xs of None \<Rightarrow> Some x | Some y \<Rightarrow> if f y < f x then Some y else Some x)"

definition record_named :: "PhysicalDeviceKey \<Rightarrow> InventoryDevice \<Rightarrow> bool" where
  "record_named key record \<longleftrightarrow> iv_key record = key \<or> names_identity key (iv_serial record) (iv_unit_id record)"

definition find_record :: "FlowDevice \<Rightarrow> InventoryDevice list \<Rightarrow> InventoryDevice option" where
  "find_record configured inventory =
     min_by_key (\<lambda>record. (\<not> iv_online record, iv_route record = None))
       (filter (record_named (fd_key configured)) inventory)"

fun join_devices ::
  "FlowDevice list \<Rightarrow> InventoryDevice list \<Rightarrow> LocalDevice list \<Rightarrow> PhysicalDeviceKey list
   \<Rightarrow> LocalDevice list \<times> PhysicalDeviceKey list" where
  "join_devices [] inventory listed unlisted = (listed, unlisted)"
| "join_devices (configured # rest) inventory listed unlisted =
     (case find_record configured inventory of
        None \<Rightarrow> join_devices rest inventory listed (unlisted @ [fd_key configured])
      | Some record \<Rightarrow>
          (case device_identity (fd_key configured) record of
             Some identity \<Rightarrow>
               join_devices rest inventory
                 (listed @ [\<lparr>ld_config = configured, ld_identity = identity, ld_route = iv_route record,
                    ld_kind = iv_kind record, ld_online = iv_online record\<rparr>]) unlisted
           | None \<Rightarrow> join_devices rest inventory listed unlisted))"

definition handoff_key :: "LocalDevice \<Rightarrow> nat \<times> string" where
  "handoff_key d = (handoff_rank (ld_kind d), as_str (ld_key d))"

definition local_join :: "FlowConfig \<Rightarrow> InventoryDevice list \<Rightarrow> LocalDevices" where
  "local_join config inventory =
     (case join_devices (fc_devices config) inventory [] [] of
        (listed, unlisted) \<Rightarrow> \<lparr>lds_listed = sort_key handoff_key listed, lds_unlisted = unlisted\<rparr>)"

section \<open>Lookups and announcements\<close>

definition outgoing :: "LocalDevices \<Rightarrow> string \<Rightarrow> OutgoingDevice list" where
  "outgoing devices peer =
     List.map_filter (\<lambda>device.
       Option.bind (ld_route device) (\<lambda>route.
       Option.bind (peer_slot (ld_config device) peer) (\<lambda>slot.
       Some \<lparr>og_route = route, og_slot = slot, og_identity = ld_identity device\<rparr>)))
     (filter ld_online (lds_listed devices))"

definition find_listed :: "LocalDevices \<Rightarrow> PeerDeviceIdentity \<Rightarrow> LocalDevice option" where
  "find_listed devices identity =
     find (\<lambda>device. case same_device identity (ld_identity device) of Inl _ \<Rightarrow> False | Inr same \<Rightarrow> same)
       (lds_listed devices)"

fun named_ids :: "WireDeviceIdentifier list \<Rightarrow> (string option \<times> unit_id) list option" where
  "named_ids [] = Some []"
| "named_ids (wire # ids) =
     (case identifier_try_from wire of
        Inl _ \<Rightarrow> None
      | Inr (Serial serial) \<Rightarrow> map_option ((#) (Some serial, (0, 0, 0, 0))) (named_ids ids)
      | Inr (UnitId unit) \<Rightarrow> map_option ((#) (None, unit_of_u32 unit)) (named_ids ids)
      | Inr (BluetoothAddress _) \<Rightarrow> named_ids ids)"

definition find_unlisted :: "LocalDevices \<Rightarrow> PeerDeviceIdentity \<Rightarrow> PhysicalDeviceKey option" where
  "find_unlisted devices identity =
     (case named_ids (pd_ids identity) of
        None \<Rightarrow> None
      | Some ids \<Rightarrow>
          find (\<lambda>key. \<exists>(serial, unit) \<in> set ids. names_identity key serial unit) (lds_unlisted devices))"

definition announce :: "LocalDevices \<Rightarrow> u64 \<Rightarrow> AnnounceDevices_msg" where
  "announce devices revision =
     \<lparr>an_devices = map (\<lambda>device.
        \<lparr>dv_identity = ld_identity device, dv_channel_to_me = ucast (fd_self_slot (ld_config device)),
         dv_connected = ld_online device, dv_host_count = 0\<rparr>) (lds_listed devices),
      an_revision = revision\<rparr>"

definition held :: "LocalDevices \<Rightarrow> PeerDeviceIdentity list" where
  "held devices = map ld_identity (filter ld_online (lds_listed devices))"

section \<open>What the join lists\<close>

lemma min_by_key_None [simp]: "min_by_key f xs = None \<longleftrightarrow> xs = []"
  by (cases xs) (auto split: option.splits)

lemma min_by_key_Some: "min_by_key f xs = Some x \<Longrightarrow> x \<in> set xs \<and> (\<forall>y \<in> set xs. f x \<le> f y)"
proof (induction xs arbitrary: x)
  case (Cons a xs)
  then show ?case by (cases "min_by_key f xs") (fastforce split: if_splits)+
qed simp

definition join_one :: "InventoryDevice list \<Rightarrow> FlowDevice \<Rightarrow> LocalDevice option" where
  "join_one inventory configured =
     Option.bind (find_record configured inventory) (\<lambda>record.
     map_option (\<lambda>identity. \<lparr>ld_config = configured, ld_identity = identity, ld_route = iv_route record,
        ld_kind = iv_kind record, ld_online = iv_online record\<rparr>)
       (device_identity (fd_key configured) record))"

lemma join_devices_eq:
  "join_devices cs ivs listed unlisted =
     (listed @ List.map_filter (join_one ivs) cs,
      unlisted @ map fd_key (filter (\<lambda>c. find_record c ivs = None) cs))"
  by (induction cs ivs listed unlisted rule: join_devices.induct)
    (auto simp: join_one_def List.map_filter_simps split: option.splits)

lemma join_listed:
  "lds_listed (local_join c ivs) = sort_key handoff_key (List.map_filter (join_one ivs) (fc_devices c))"
  "lds_unlisted (local_join c ivs) = map fd_key (filter (\<lambda>d. find_record d ivs = None) (fc_devices c))"
  by (simp_all add: local_join_def join_devices_eq)

lemma set_map_filter: "set (List.map_filter f xs) = {y. \<exists>x \<in> set xs. f x = Some y}"
  by (force simp: List.map_filter_def)

lemma listed_device:
  assumes "d \<in> set (lds_listed (local_join c ivs))"
  obtains r where "ld_config d \<in> set (fc_devices c)" "r \<in> set ivs" "record_named (ld_key d) r"
    "device_identity (ld_key d) r = Some (ld_identity d)" "ld_route d = iv_route r"
    "ld_kind d = iv_kind r" "ld_online d = iv_online r"
    "\<And>r'. r' \<in> set ivs \<Longrightarrow> record_named (ld_key d) r' \<Longrightarrow> iv_online r' \<Longrightarrow> iv_online r"
proof -
  from assms obtain f where f: "f \<in> set (fc_devices c)" "join_one ivs f = Some d"
    by (auto simp: join_listed set_map_filter)
  then obtain r where r: "find_record f ivs = Some r" "device_identity (fd_key f) r = Some (ld_identity d)"
    and d: "ld_config d = f" "ld_route d = iv_route r" "ld_kind d = iv_kind r" "ld_online d = iv_online r"
    by (auto simp: join_one_def bind_eq_Some_conv)
  from min_by_key_Some [OF r(1) [unfolded find_record_def]]
  have m: "r \<in> set ivs" "record_named (fd_key f) r"
    "\<And>r'. r' \<in> set ivs \<Longrightarrow> record_named (fd_key f) r' \<Longrightarrow>
       (\<not> iv_online r, iv_route r = None) \<le> (\<not> iv_online r', iv_route r' = None)" by auto
  have "iv_online r" if "r' \<in> set ivs" "record_named (fd_key f) r'" "iv_online r'" for r'
    using m(3) [OF that(1,2)] that(3) by (auto simp: less_eq_prod_simp)
  with f(1) r m d show thesis by (intro that [of r]) simp_all
qed

text \<open>What is offered to a peer can be moved there: every outgoing device belongs to a configured
  device that some inventory record shows online here and addressable by the given route, and its
  slot is the configured one for that peer, within the hardware range and never the slot of this
  computer.\<close>

theorem outgoing_can_move:
  assumes "list_all wf_flow_device (fc_devices c)" and "o' \<in> set (outgoing (local_join c ivs) peer)"
  shows "\<exists>f r. f \<in> set (fc_devices c) \<and> r \<in> set ivs \<and> record_named (fd_key f) r \<and> iv_online r
      \<and> iv_route r = Some (og_route o') \<and> device_identity (fd_key f) r = Some (og_identity o')
      \<and> peer_slot f peer = Some (og_slot o') \<and> og_slot o' < MAX_HOSTS \<and> og_slot o' \<noteq> fd_self_slot f"
proof -
  from assms(2) obtain d where d: "d \<in> set (lds_listed (local_join c ivs))" "ld_online d"
    and o: "ld_route d = Some (og_route o')" "peer_slot (ld_config d) peer = Some (og_slot o')"
      "og_identity o' = ld_identity d"
    by (auto simp: outgoing_def set_map_filter bind_eq_Some_conv)
  obtain r where r: "ld_config d \<in> set (fc_devices c)" "r \<in> set ivs" "record_named (ld_key d) r"
    "device_identity (ld_key d) r = Some (ld_identity d)" "ld_route d = iv_route r" "ld_online d = iv_online r"
    using listed_device [OF d(1)] by metis
  have wf: "wf_flow_device (ld_config d)" using assms(1) r(1) by (simp add: list_all_iff)
  have e: "(peer, og_slot o') \<in> set (fd_peer_slots (ld_config d))"
    using o(2) by (simp add: peer_slot_def map_of_SomeD)
  have "og_slot o' < MAX_HOSTS" "og_slot o' \<noteq> fd_self_slot (ld_config d)"
    using wf e by (force simp: wf_flow_device_def list_all_iff wf_channel_def)+
  with d o r show ?thesis
    by (intro exI [of _ "ld_config d"] exI [of _ r]) simp
qed

definition example_flow_device :: FlowDevice where
  "example_flow_device = \<lparr>fd_key = PhysicalDeviceKey ''serial:ab1'', fd_self_slot = 0, fd_peer_slots = [(''desk'', 2)]\<rparr>"

definition example_record :: "bool \<Rightarrow> InventoryDevice" where
  "example_record online = \<lparr>iv_key = PhysicalDeviceKey ''direct:046d:b034:serial:ab1'',
     iv_route = Some (RouteDirect 0x046d 0xb034), iv_serial = Some ''AB1'', iv_unit_id = (0, 0, 0, 7),
     iv_kind = Mouse, iv_online = online\<rparr>"

definition example_config :: FlowConfig where
  "example_config = \<lparr>fc_enabled = True, fc_require_modifier = False, fc_peers = [], fc_layout = [],
     fc_devices = [example_flow_device]\<rparr>"

abbreviation example_outgoing :: OutgoingDevice where
  "example_outgoing \<equiv> \<lparr>og_route = RouteDirect 0x046d 0xb034, og_slot = 2,
     og_identity = the (device_identity (PhysicalDeviceKey ''serial:ab1'') (example_record True))\<rparr>"

theorem outgoing_can_move_witness:
  "\<exists>f r. f \<in> set (fc_devices example_config) \<and> r \<in> set [example_record False, example_record True]
      \<and> record_named (fd_key f) r \<and> iv_online r
      \<and> iv_route r = Some (og_route example_outgoing) \<and> device_identity (fd_key f) r = Some (og_identity example_outgoing)
      \<and> peer_slot f ''desk'' = Some (og_slot example_outgoing) \<and> og_slot example_outgoing < MAX_HOSTS
      \<and> og_slot example_outgoing \<noteq> fd_self_slot f"
proof -
  have "list_all wf_flow_device (fc_devices example_config)" by code_simp
  moreover have "example_outgoing \<in> set (outgoing (local_join example_config [example_record False, example_record True]) ''desk'')"
    by code_simp
  ultimately show ?thesis by (rule outgoing_can_move)
qed

section \<open>Peers recognise a device\<close>

definition wf_record :: "InventoryDevice \<Rightarrow> bool" where
  "wf_record r \<longleftrightarrow> (\<forall>s. iv_serial r = Some s \<longrightarrow> wf_string s)"

definition same_hardware :: "InventoryDevice \<Rightarrow> InventoryDevice \<Rightarrow> bool" where
  "same_hardware r r' \<longleftrightarrow>
     iv_serial r = iv_serial r' \<and> iv_serial r \<noteq> None \<and> iv_serial r \<noteq> Some []
     \<or> iv_unit_id r = iv_unit_id r' \<and> iv_unit_id r \<noteq> (0, 0, 0, 0)"

lemma device_identity_ids:
  assumes "device_identity k r = Some a"
  shows "set (pd_ids a) = {identifier_into (Serial s) | s. iv_serial r = Some s \<and> s \<noteq> []}
    \<union> {identifier_into (UnitId (u32_from_be_bytes (unit_bytes (iv_unit_id r)))) | x :: unit. iv_unit_id r \<noteq> (0, 0, 0, 0)}"
  using assms by (auto simp: device_identity_def Let_def split: option.splits if_splits)

lemma device_identity_valid:
  assumes "device_identity k r = Some a" and "wf_record r"
  shows "wire_valid a"
proof -
  have "\<exists>c. wf_identifier c \<and> w = identifier_into c" if "w \<in> set (pd_ids a)" for w
    using that assms(2) unfolding device_identity_ids [OF assms(1)] wf_record_def
    by (auto intro: exI [of _ "Serial _"] exI [of _ "UnitId _"])
  then show ?thesis by (auto simp: wire_valid_def dest: try_from_into)
qed

lemma unit_of_u32_bytes [simp]: "unit_of_u32 (u32_from_be_bytes (unit_bytes u)) = u"
  by (cases u) (simp add: unit_of_u32_def u32_to_from_be_bytes Let_def)

lemma named_ids_identity:
  assumes "device_identity k r = Some a" and "wf_record r"
  shows "\<exists>ids. named_ids (pd_ids a) = Some ids \<and>
    (\<exists>(serial, unit) \<in> set ids. names_identity key serial unit) = names_identity key (iv_serial r) (iv_unit_id r)"
proof -
  have u: "identifier_try_from (identifier_into (UnitId u)) = Inr (UnitId u)" for u
    by (rule try_from_into) simp
  have s: "identifier_try_from (identifier_into (Serial s)) = Inr (Serial s)" if "iv_serial r = Some s" "s \<noteq> []" for s
    using assms(2) that by (intro try_from_into) (simp add: wf_record_def)
  show ?thesis
    using assms(1) s by (auto simp del: identifier_into.simps simp: u device_identity_def Let_def names_identity_def
        identity_from_parts_def config_key_def split: option.splits if_splits)
qed

lemma find_listed_match:
  "find_listed ds a = find (\<lambda>d. wire_valid a \<and> wire_valid (ld_identity d)
     \<and> set (pd_ids a) \<inter> set (pd_ids (ld_identity d)) \<noteq> {}) (lds_listed ds)"
proof -
  have "(case same_device a b of Inl _ \<Rightarrow> False | Inr same \<Rightarrow> same)
      = (wire_valid a \<and> wire_valid b \<and> set (pd_ids a) \<inter> set (pd_ids b) \<noteq> {})" for b
    using same_device_Inr [of a b True] by (auto split: sum.splits)
  then show ?thesis by (simp add: find_listed_def)
qed

lemma find_exists: "x \<in> set xs \<Longrightarrow> P x \<Longrightarrow> \<exists>y. find P xs = Some y \<and> y \<in> set xs \<and> P y"
  by (induction xs) auto

lemma same_hardware_shares:
  assumes "device_identity k r = Some a" and "device_identity k' r' = Some b" and "same_hardware r r'"
  shows "set (pd_ids a) \<inter> set (pd_ids b) \<noteq> {}"
proof -
  from assms(3) consider s where "iv_serial r = Some s" "iv_serial r' = Some s" "s \<noteq> []"
    | "iv_unit_id r' = iv_unit_id r" "iv_unit_id r \<noteq> (0, 0, 0, 0)"
    by (cases "iv_serial r") (auto simp: same_hardware_def)
  then have "\<exists>w. w \<in> set (pd_ids a) \<and> w \<in> set (pd_ids b)"
  proof cases
    case 1
    then show ?thesis unfolding device_identity_ids [OF assms(1)] device_identity_ids [OF assms(2)]
      by (intro exI [of _ "identifier_into (Serial s)"]) blast
  next
    case 2
    then show ?thesis unfolding device_identity_ids [OF assms(1)] device_identity_ids [OF assms(2)]
      by (intro exI [of _ "identifier_into (UnitId (u32_from_be_bytes (unit_bytes (iv_unit_id r))))"]) auto
  qed
  then show ?thesis by blast
qed

text \<open>A device is recognised on the other computer: for an identity a peer derives from its own
  inventory record, the receiver finds a listed device that shares an identifier whenever one of its
  listed devices is the same hardware by serial or unit id, and finds a configured key that names
  the device whenever one is unlisted here.\<close>

theorem peer_recognises_device:
  assumes "device_identity k r = Some a" and "wf_record r" and "list_all wf_record ivs"
  shows "(\<forall>d r'. d \<in> set (lds_listed (local_join c ivs)) \<and> device_identity (ld_key d) r' = Some (ld_identity d)
            \<and> same_hardware r r' \<longrightarrow>
          (\<exists>d'. find_listed (local_join c ivs) a = Some d' \<and> d' \<in> set (lds_listed (local_join c ivs))
            \<and> set (pd_ids a) \<inter> set (pd_ids (ld_identity d')) \<noteq> {}))
    \<and> (\<forall>key \<in> set (lds_unlisted (local_join c ivs)). names_identity key (iv_serial r) (iv_unit_id r) \<longrightarrow>
          (\<exists>key'. find_unlisted (local_join c ivs) a = Some key' \<and> names_identity key' (iv_serial r) (iv_unit_id r)))"
proof (intro conjI allI ballI impI)
  fix d r' assume d: "d \<in> set (lds_listed (local_join c ivs)) \<and> device_identity (ld_key d) r' = Some (ld_identity d)
    \<and> same_hardware r r'"
  then obtain q where "q \<in> set ivs" "device_identity (ld_key d) q = Some (ld_identity d)"
    using listed_device by metis
  then have "wire_valid (ld_identity d)" using assms(3) device_identity_valid by (auto simp: list_all_iff)
  moreover have "wire_valid a" using assms(1,2) by (rule device_identity_valid)
  moreover have "set (pd_ids a) \<inter> set (pd_ids (ld_identity d)) \<noteq> {}"
    using d by (intro same_hardware_shares [OF assms(1), of "ld_key d" r']) simp_all
  ultimately obtain d' where "find_listed (local_join c ivs) a = Some d'"
    "d' \<in> set (lds_listed (local_join c ivs))" "set (pd_ids a) \<inter> set (pd_ids (ld_identity d')) \<noteq> {}"
    using find_exists [of d "lds_listed (local_join c ivs)" "\<lambda>d. wire_valid a \<and> wire_valid (ld_identity d)
      \<and> set (pd_ids a) \<inter> set (pd_ids (ld_identity d)) \<noteq> {}"] d unfolding find_listed_match by auto
  then show "\<exists>d'. find_listed (local_join c ivs) a = Some d' \<and> d' \<in> set (lds_listed (local_join c ivs))
      \<and> set (pd_ids a) \<inter> set (pd_ids (ld_identity d')) \<noteq> {}" by blast
next
  fix key assume key: "key \<in> set (lds_unlisted (local_join c ivs))" "names_identity key (iv_serial r) (iv_unit_id r)"
  obtain ids where ids: "named_ids (pd_ids a) = Some ids" using named_ids_identity [OF assms(1,2)] by blast
  have "(\<exists>(serial, unit) \<in> set ids. names_identity k serial unit) = names_identity k (iv_serial r) (iv_unit_id r)" for k
    using named_ids_identity [OF assms(1,2), of k] ids by simp
  then have "find_unlisted (local_join c ivs) a
      = find (\<lambda>k. names_identity k (iv_serial r) (iv_unit_id r)) (lds_unlisted (local_join c ivs))"
    by (simp add: find_unlisted_def ids)
  with find_exists [OF key(1), of "\<lambda>k. names_identity k (iv_serial r) (iv_unit_id r)", OF key(2)]
  show "\<exists>key'. find_unlisted (local_join c ivs) a = Some key' \<and> names_identity key' (iv_serial r) (iv_unit_id r)"
    by auto
qed

theorem peer_recognises_device_witness:
  "let devices = local_join example_config [example_record False];
       a = the (device_identity (PhysicalDeviceKey ''unit:00000007'') (example_record True)) in
   \<exists>d'. find_listed devices a = Some d' \<and> d' \<in> set (lds_listed devices)
     \<and> set (pd_ids a) \<inter> set (pd_ids (ld_identity d')) \<noteq> {}"
proof -
  let ?devices = "local_join example_config [example_record False]"
  let ?a = "the (device_identity (PhysicalDeviceKey ''unit:00000007'') (example_record True))"
  have a: "device_identity (PhysicalDeviceKey ''unit:00000007'') (example_record True) = Some ?a" by code_simp
  have w: "wf_record (example_record True)" "list_all wf_record [example_record False]"
    by (simp_all add: wf_record_def example_record_def wf_ascii)
  have "hd (lds_listed ?devices) \<in> set (lds_listed ?devices)
      \<and> device_identity (ld_key (hd (lds_listed ?devices))) (example_record False) = Some (ld_identity (hd (lds_listed ?devices)))
      \<and> same_hardware (example_record True) (example_record False)" by code_simp
  with peer_recognises_device [OF a w, of example_config] show ?thesis unfolding Let_def by blast
qed

end
