(* ===== verification/Flow_Frame.thy ===== *)
theory Flow_Frame
  imports Codec Bytes
begin

text \<open>
  The frame envelope of the Flow peer protocol, \<^verbatim>\<open>crates/openlogi-flow/src/frame.rs\<close>. Lengths are
  \<open>nat\<close> for \<open>usize\<close>. The protobuf payload codec is the third-party \<open>buffa\<close> crate and enters as a
  parameter; \<open>ErrorCode\<close> is the enumeration of \<^verbatim>\<open>proto/flow.v1.proto\<close>. An asynchronous reader is
  the bytes it will still yield, and reading past them is its end-of-file error.
\<close>

definition HEADER_LEN :: nat where "HEADER_LEN = 8"
definition MAX_PAYLOAD_LEN :: nat where "MAX_PAYLOAD_LEN = 1024 * 1024"
definition MAX_CHUNK_LEN :: nat where "MAX_CHUNK_LEN = 64 * 1024"

datatype FrameKind =
    Unspecified | Hello | HelloReject | FK_Error | Ping | Pong | PairStart | PairPrompted | PairConfirm
  | PairOutcome | PairAbort | PairReveal | PairRevealed | GetPeerInfo | PeerInfo | AnnounceDevices
  | PeerState | HandoffRequest | HandoffAccept | HandoffReject | HandoffResult | HandoffCancel
  | ClipboardAnnounce | ClipboardFetch | ClipboardData | Chunk | ChunkEnd | FileFetch | Unknown u16

fun wire_value :: "FrameKind \<Rightarrow> u16" where
  "wire_value Unspecified = 0x00"
| "wire_value Hello = 0x01"
| "wire_value HelloReject = 0x02"
| "wire_value FK_Error = 0x03"
| "wire_value Ping = 0x04"
| "wire_value Pong = 0x05"
| "wire_value PairStart = 0x10"
| "wire_value PairPrompted = 0x11"
| "wire_value PairConfirm = 0x12"
| "wire_value PairOutcome = 0x13"
| "wire_value PairAbort = 0x14"
| "wire_value PairReveal = 0x15"
| "wire_value PairRevealed = 0x16"
| "wire_value GetPeerInfo = 0x20"
| "wire_value PeerInfo = 0x21"
| "wire_value AnnounceDevices = 0x22"
| "wire_value PeerState = 0x23"
| "wire_value HandoffRequest = 0x30"
| "wire_value HandoffAccept = 0x31"
| "wire_value HandoffReject = 0x32"
| "wire_value HandoffResult = 0x33"
| "wire_value HandoffCancel = 0x34"
| "wire_value ClipboardAnnounce = 0x40"
| "wire_value ClipboardFetch = 0x41"
| "wire_value ClipboardData = 0x42"
| "wire_value Chunk = 0x43"
| "wire_value ChunkEnd = 0x44"
| "wire_value FileFetch = 0x45"
| "wire_value (Unknown value) = value"

definition payload_cap :: "FrameKind \<Rightarrow> nat" where
  "payload_cap kind = (if kind = Chunk then MAX_CHUNK_LEN else MAX_PAYLOAD_LEN)"

definition is_supported :: "FrameKind \<Rightarrow> bool" where
  "is_supported kind = (case kind of Unspecified \<Rightarrow> False | Unknown _ \<Rightarrow> False | _ \<Rightarrow> True)"

definition frame_kind_from :: "u16 \<Rightarrow> FrameKind" where
  "frame_kind_from value =
     (if value = 0 then Unspecified
      else if value = 1 then Hello
      else if value = 2 then HelloReject
      else if value = 3 then FK_Error
      else if value = 4 then Ping
      else if value = 5 then Pong
      else if value = 0x10 then PairStart
      else if value = 0x11 then PairPrompted
      else if value = 0x12 then PairConfirm
      else if value = 0x13 then PairOutcome
      else if value = 0x14 then PairAbort
      else if value = 0x15 then PairReveal
      else if value = 0x16 then PairRevealed
      else if value = 0x20 then GetPeerInfo
      else if value = 0x21 then PeerInfo
      else if value = 0x22 then AnnounceDevices
      else if value = 0x23 then PeerState
      else if value = 0x30 then HandoffRequest
      else if value = 0x31 then HandoffAccept
      else if value = 0x32 then HandoffReject
      else if value = 0x33 then HandoffResult
      else if value = 0x34 then HandoffCancel
      else if value = 0x40 then ClipboardAnnounce
      else if value = 0x41 then ClipboardFetch
      else if value = 0x42 then ClipboardData
      else if value = 0x43 then Chunk
      else if value = 0x44 then ChunkEnd
      else if value = 0x45 then FileFetch
      else Unknown value)"

record Envelope =
  ev_kind :: FrameKind
  ev_flags :: u16
  ev_payload :: "u8 list"

text \<open>\<open>Encode\<close> and \<open>Io\<close> carry third-party errors; the reader's only error here is an early end.\<close>

datatype FrameError = Truncated | TooLarge nat nat | Encode | UnexpectedEof

datatype ErrorCode =
    EC_Unspecified | EC_UnsupportedKind | EC_UnsupportedFlags | EC_NotPaired | EC_Busy | EC_Invalid
  | EC_TooLarge | EC_Disabled | EC_Internal

datatype InvalidDecision = Drop | Respond ErrorCode
datatype InboundRole = Notification | Request

fun role_invalid :: "InboundRole \<Rightarrow> ErrorCode \<Rightarrow> InvalidDecision" where
  "role_invalid Notification code = Drop"
| "role_invalid Request code = Respond code"

definition too_large_decision :: "FrameError \<Rightarrow> InboundRole \<Rightarrow> InvalidDecision option" where
  "too_large_decision err role = (case err of TooLarge _ _ \<Rightarrow> Some (role_invalid role EC_TooLarge) | _ \<Rightarrow> None)"

definition check_len :: "FrameKind \<Rightarrow> nat \<Rightarrow> FrameError + unit" where
  "check_len kind len = (let cap = payload_cap kind in if cap < len then Inl (TooLarge len cap) else Inr ())"

definition envelope_new :: "FrameKind \<Rightarrow> u16 \<Rightarrow> u8 list \<Rightarrow> FrameError + Envelope" where
  "envelope_new kind flags payload =
     (case check_len kind (length payload) of
        Inl e \<Rightarrow> Inl e
      | Inr _ \<Rightarrow> Inr \<lparr>ev_kind = kind, ev_flags = flags, ev_payload = payload\<rparr>)"

definition to_bytes :: "Envelope \<Rightarrow> FrameError + u8 list" where
  "to_bytes e =
     (case check_len (ev_kind e) (length (ev_payload e)) of
        Inl err \<Rightarrow> Inl err
      | Inr _ \<Rightarrow>
          if 2 ^ 32 \<le> length (ev_payload e)
          then Inl (TooLarge (length (ev_payload e)) (payload_cap (ev_kind e)))
          else Inr (u16_to_le_bytes (wire_value (ev_kind e)) @ u16_to_le_bytes (ev_flags e)
                    @ u32_to_le_bytes (of_nat (length (ev_payload e))) @ ev_payload e))"

text \<open>The header fields of eight bytes: kind, flags, declared length.\<close>

definition parse_header :: "u8 list \<Rightarrow> FrameKind \<times> u16 \<times> nat" where
  "parse_header b =
     (frame_kind_from (u16_from_le_bytes (b ! 0) (b ! 1)),
      u16_from_le_bytes (b ! 2) (b ! 3),
      unat (u32_from_le_bytes (b ! 4) (b ! 5) (b ! 6) (b ! 7)))"

definition from_bytes :: "u8 list \<Rightarrow> FrameError + Envelope" where
  "from_bytes bytes =
     (if length bytes < HEADER_LEN then Inl Truncated
      else let (kind, flags, len) = parse_header bytes in
        case check_len kind len of
          Inl e \<Rightarrow> Inl e
        | Inr _ \<Rightarrow>
            if length bytes \<noteq> HEADER_LEN + len then Inl Truncated
            else Inr \<lparr>ev_kind = kind, ev_flags = flags, ev_payload = drop HEADER_LEN bytes\<rparr>)"

text \<open>\<open>read_exact\<close> on the bytes to come, and \<open>read_from\<close> with what it leaves unread.\<close>

definition read_exact :: "nat \<Rightarrow> u8 list \<Rightarrow> FrameError + u8 list \<times> u8 list" where
  "read_exact n reader = (if length reader < n then Inl UnexpectedEof else Inr (take n reader, drop n reader))"

definition read_from :: "u8 list \<Rightarrow> FrameError + Envelope \<times> u8 list" where
  "read_from reader =
     (case read_exact HEADER_LEN reader of
        Inl e \<Rightarrow> Inl e
      | Inr (h, reader) \<Rightarrow>
          (let (kind, flags, len) = parse_header h in
           case check_len kind len of
             Inl e \<Rightarrow> Inl e
           | Inr _ \<Rightarrow>
               (case read_exact len reader of
                  Inl e \<Rightarrow> Inl e
                | Inr (payload, reader) \<Rightarrow>
                    Inr (\<lparr>ev_kind = kind, ev_flags = flags, ev_payload = payload\<rparr>, reader))))"

definition envelope_policy :: "Envelope \<Rightarrow> InboundRole \<Rightarrow> InvalidDecision option" where
  "envelope_policy e role =
     (if \<not> is_supported (ev_kind e) then Some (role_invalid role EC_UnsupportedKind)
      else if ev_flags e \<noteq> 0 then Some (role_invalid role EC_UnsupportedFlags)
      else None)"

definition envelope_decode :: "(u8 list \<Rightarrow> 'm option) \<Rightarrow> Envelope \<Rightarrow> InboundRole \<Rightarrow> InvalidDecision + 'm" where
  "envelope_decode decode_from_slice e role =
     (case decode_from_slice (ev_payload e) of None \<Rightarrow> Inl (role_invalid role EC_Invalid) | Some m \<Rightarrow> Inr m)"

record 'm Frame =
  fr_kind :: FrameKind
  fr_flags :: u16
  fr_message :: 'm

definition frame_encode :: "('m \<Rightarrow> u8 list option) \<Rightarrow> FrameKind \<Rightarrow> 'm \<Rightarrow> FrameError + 'm Frame" where
  "frame_encode try_encode kind message =
     (case try_encode message of
        None \<Rightarrow> Inl Encode
      | Some payload \<Rightarrow>
          (case check_len kind (length payload) of
             Inl e \<Rightarrow> Inl e
           | Inr _ \<Rightarrow> Inr \<lparr>fr_kind = kind, fr_flags = 0, fr_message = message\<rparr>))"

definition into_envelope :: "('m \<Rightarrow> u8 list option) \<Rightarrow> 'm Frame \<Rightarrow> FrameError + Envelope" where
  "into_envelope try_encode f =
     (case try_encode (fr_message f) of
        None \<Rightarrow> Inl Encode
      | Some payload \<Rightarrow> envelope_new (fr_kind f) (fr_flags f) payload)"

section \<open>The envelope codec\<close>

text \<open>\<open>Unknown\<close> is used for the values no other kind has.\<close>

definition canonical_kind :: "FrameKind \<Rightarrow> bool" where
  "canonical_kind k \<longleftrightarrow> frame_kind_from (wire_value k) = k"

definition wf_envelope :: "Envelope \<Rightarrow> bool" where
  "wf_envelope e \<longleftrightarrow> canonical_kind (ev_kind e) \<and> length (ev_payload e) \<le> payload_cap (ev_kind e)"

lemma wire_value_from [simp]: "wire_value (frame_kind_from v) = v"
  by (simp add: frame_kind_from_def)

lemma canonical_from [simp]: "canonical_kind (frame_kind_from v)"
  by (simp add: canonical_kind_def)

lemma canonical_known: "(\<And>v. k \<noteq> Unknown v) \<Longrightarrow> canonical_kind k"
  by (cases k) (simp_all add: canonical_kind_def frame_kind_from_def)

lemma payload_cap_u32: "n \<le> payload_cap k \<Longrightarrow> n < 2 ^ 32"
  by (simp add: payload_cap_def MAX_CHUNK_LEN_def MAX_PAYLOAD_LEN_def split: if_splits)

definition envelope_bytes :: "Envelope \<Rightarrow> u8 list" where
  "envelope_bytes e =
     u16_to_le_bytes (wire_value (ev_kind e)) @ u16_to_le_bytes (ev_flags e)
       @ u32_to_le_bytes (of_nat (length (ev_payload e))) @ ev_payload e"

lemma to_bytes_ok: "length (ev_payload e) \<le> payload_cap (ev_kind e) \<Longrightarrow> to_bytes e = Inr (envelope_bytes e)"
  using payload_cap_u32 [of "length (ev_payload e)" "ev_kind e"]
  by (simp add: to_bytes_def check_len_def Let_def envelope_bytes_def)

lemma to_bytes_too_large:
  "payload_cap (ev_kind e) < length (ev_payload e) \<Longrightarrow>
     to_bytes e = Inl (TooLarge (length (ev_payload e)) (payload_cap (ev_kind e)))"
  by (simp add: to_bytes_def check_len_def Let_def)

lemma length_envelope_bytes [simp]: "length (envelope_bytes e) = HEADER_LEN + length (ev_payload e)"
  by (simp add: envelope_bytes_def u16_to_le_bytes_def u32_to_le_bytes_def HEADER_LEN_def)

lemma drop_envelope_bytes [simp]: "drop HEADER_LEN (envelope_bytes e @ rest) = ev_payload e @ rest"
  by (simp add: envelope_bytes_def u16_to_le_bytes_def u32_to_le_bytes_def HEADER_LEN_def)

lemma parse_header_bytes:
  assumes "wf_envelope e"
  shows "parse_header (envelope_bytes e @ rest) = (ev_kind e, ev_flags e, length (ev_payload e))"
proof -
  have "length (ev_payload e) < 2 ^ 32"
    using assms payload_cap_u32 by (auto simp: wf_envelope_def)
  then have "unat (of_nat (length (ev_payload e)) :: u32) = length (ev_payload e)"
    by (simp add: unat_of_nat)
  then show ?thesis
    using assms
    by (simp add: parse_header_def envelope_bytes_def u16_to_le_bytes_def u32_to_le_bytes_def
        u16_from_to_le_bytes u32_from_to_le_bytes wf_envelope_def canonical_kind_def)
qed

lemma parse_header_take: "8 \<le> length b \<Longrightarrow> parse_header (take 8 b) = parse_header b"
  by (simp add: parse_header_def)

lemma from_bytes_ok: "wf_envelope e \<Longrightarrow> from_bytes (envelope_bytes e) = Inr e"
  using parse_header_bytes [of e "[]"] drop_envelope_bytes [of e "[]"]
  by (simp add: from_bytes_def check_len_def Let_def wf_envelope_def)

lemma eight_bytes:
  assumes "8 \<le> length b"
  shows "b = [b ! 0, b ! 1, b ! 2, b ! 3, b ! 4, b ! 5, b ! 6, b ! 7] @ drop 8 b"
proof -
  have "take 8 b = map ((!) b) [0 ..< 8]" using assms by (intro nth_equalityI) simp_all
  also have "\<dots> = [b ! 0, b ! 1, b ! 2, b ! 3, b ! 4, b ! 5, b ! 6, b ! 7]" by (simp add: upt_rec eval_nat_numeral)
  finally show ?thesis by (metis append_take_drop_id)
qed

lemma from_bytes_inverse:
  assumes "from_bytes b = Inr e"
  shows "wf_envelope e \<and> envelope_bytes e = b"
proof -
  from assms have len: "8 \<le> length b" and e: "ev_kind e = fst (parse_header b)"
      "ev_flags e = fst (snd (parse_header b))" "ev_payload e = drop 8 b"
    and n: "snd (snd (parse_header b)) = length b - 8"
    and cap: "length b - 8 \<le> payload_cap (fst (parse_header b))"
    by (auto simp: from_bytes_def check_len_def Let_def HEADER_LEN_def split: if_splits sum.splits prod.splits)
  have "of_nat (length b - 8) = u32_from_le_bytes (b ! 4) (b ! 5) (b ! 6) (b ! 7)"
    using n by (simp add: parse_header_def flip: n)
  then have "envelope_bytes e = [b ! 0, b ! 1, b ! 2, b ! 3, b ! 4, b ! 5, b ! 6, b ! 7] @ drop 8 b"
    using e by (simp add: envelope_bytes_def parse_header_def u16_to_from_le_bytes u32_to_from_le_bytes)
  then have "envelope_bytes e = b" using eight_bytes [OF len] by simp
  with e cap show ?thesis by (simp add: wf_envelope_def parse_header_def)
qed

interpretation envelope: codec envelope_bytes
    "\<lambda>b. case from_bytes b of Inl _ \<Rightarrow> None | Inr e \<Rightarrow> Some e" wf_envelope "\<lambda>_. True"
  by unfold_locales (auto simp: from_bytes_ok dest: from_bytes_inverse split: sum.splits)

lemma read_from_bytes: "wf_envelope e \<Longrightarrow> read_from (envelope_bytes e @ rest) = Inr (e, rest)"
  using parse_header_bytes [of e rest] parse_header_take [of "envelope_bytes e @ rest"]
    drop_envelope_bytes [of e rest]
  by (simp add: read_from_def read_exact_def check_len_def Let_def wf_envelope_def HEADER_LEN_def)

text \<open>Reading frame after frame until the stream ends.\<close>

fun read_frames :: "nat \<Rightarrow> u8 list \<Rightarrow> FrameError + Envelope list" where
  "read_frames 0 reader = Inr []"
| "read_frames (Suc n) reader =
     (case read_from reader of
        Inl e \<Rightarrow> Inl e
      | Inr (e, reader) \<Rightarrow> (case read_frames n reader of Inl err \<Rightarrow> Inl err | Inr es \<Rightarrow> Inr (e # es)))"

lemma read_frames_bytes:
  "list_all wf_envelope es \<Longrightarrow> read_frames (length es) (concat (map envelope_bytes es) @ rest) = Inr es"
  by (induction es) (simp_all add: read_from_bytes)

section \<open>Properties\<close>

text \<open>C16: Frames are self-delimiting and have one encoding: a byte string decodes to an envelope exactly
  when it is that envelope's encoding, and reading a stream of encoded frames, whatever follows them,
  gives the frames back in order.\<close>

theorem frames_roundtrip:
  "(from_bytes b = Inr e \<longleftrightarrow> wf_envelope e \<and> to_bytes e = Inr b)
   \<and> (list_all wf_envelope es \<longrightarrow>
        (\<exists>bs. map to_bytes es = map Inr bs \<and> read_frames (length es) (concat bs @ rest) = Inr es))"
proof (intro conjI impI)
  have "to_bytes e = Inr (envelope_bytes e)" if "wf_envelope e"
    using that by (intro to_bytes_ok) (simp add: wf_envelope_def)
  then show "from_bytes b = Inr e \<longleftrightarrow> wf_envelope e \<and> to_bytes e = Inr b"
    using from_bytes_inverse [of b e] from_bytes_ok [of e] by fastforce
next
  assume "list_all wf_envelope es"
  then show "\<exists>bs. map to_bytes es = map Inr bs \<and> read_frames (length es) (concat bs @ rest) = Inr es"
    by (intro exI [of _ "map envelope_bytes es"])
      (auto simp: read_frames_bytes to_bytes_ok list_all_iff wf_envelope_def)
qed

definition example_hello :: Envelope where
  "example_hello = \<lparr>ev_kind = Hello, ev_flags = 0x0201, ev_payload = [0xaa, 0xbb, 0xcc]\<rparr>"

lemma example_hello_wf: "wf_envelope example_hello"
  by (simp add: wf_envelope_def example_hello_def canonical_kind_def frame_kind_from_def payload_cap_def
      MAX_PAYLOAD_LEN_def)

theorem frames_roundtrip_witness:
  "from_bytes [0x01, 0x00, 0x01, 0x02, 0x03, 0, 0, 0, 0xaa, 0xbb, 0xcc] = Inr example_hello
   \<and> (\<exists>bs. map to_bytes [example_hello, example_hello] = map Inr bs
        \<and> read_frames 2 (concat bs @ [0x01]) = Inr [example_hello, example_hello])"
proof -
  have "to_bytes example_hello = Inr (envelope_bytes example_hello)"
    by (rule to_bytes_ok) (simp add: example_hello_def payload_cap_def MAX_PAYLOAD_LEN_def)
  moreover have "envelope_bytes example_hello = [0x01, 0x00, 0x01, 0x02, 0x03, 0, 0, 0, 0xaa, 0xbb, 0xcc]"
    by code_simp
  ultimately have "to_bytes example_hello = Inr [0x01, 0x00, 0x01, 0x02, 0x03, 0, 0, 0, 0xaa, 0xbb, 0xcc]" by simp
  with example_hello_wf
    frames_roundtrip [of "[0x01, 0x00, 0x01, 0x02, 0x03, 0, 0, 0, 0xaa, 0xbb, 0xcc]" example_hello
      "[example_hello, example_hello]" "[0x01]"]
  show ?thesis by (simp add: numeral_2_eq_2)
qed

text \<open>A peer cannot make the reader take an oversized payload: a header that declares more than its
  kind's cap is refused with that length, whatever bytes follow, and the answer is an error for a
  request and silence for a notification; a sender refuses such an envelope as well.\<close>

theorem oversized_frame_refused:
  assumes "length h = HEADER_LEN" and "parse_header h = (kind, flags, len)" and "payload_cap kind < len"
  shows "read_from (h @ rest) = Inl (TooLarge len (payload_cap kind))
    \<and> from_bytes (h @ rest) = Inl (TooLarge len (payload_cap kind))
    \<and> too_large_decision (TooLarge len (payload_cap kind)) Request = Some (Respond EC_TooLarge)
    \<and> too_large_decision (TooLarge len (payload_cap kind)) Notification = Some Drop
    \<and> (\<forall>payload. length payload = len \<longrightarrow> envelope_new kind flags payload = Inl (TooLarge len (payload_cap kind)))"
proof -
  have "parse_header (h @ rest) = parse_header (take 8 (h @ rest))"
    using assms(1) parse_header_take [of "h @ rest"] by (simp add: HEADER_LEN_def)
  with assms have p: "parse_header (h @ rest) = (kind, flags, len)" by (simp add: HEADER_LEN_def)
  with assms show ?thesis
    by (simp add: read_from_def from_bytes_def read_exact_def check_len_def Let_def
        too_large_decision_def envelope_new_def)
qed

theorem oversized_frame_refused_witness:
  "read_from ([0x43, 0, 0, 0, 1, 0, 1, 0] @ [7]) = Inl (TooLarge 65537 (payload_cap Chunk))"
proof -
  have l: "length [0x43 :: u8, 0, 0, 0, 1, 0, 1, 0] = HEADER_LEN" by (simp add: HEADER_LEN_def)
  have "frame_kind_from 0x43 = Chunk" by (simp add: frame_kind_from_def)
  moreover have "u16_from_le_bytes 0x43 0 = 0x43" "u16_from_le_bytes 0 0 = 0"
    "u32_from_le_bytes 1 0 1 0 = 65537" by code_simp+
  ultimately have p: "parse_header [0x43, 0, 0, 0, 1, 0, 1, 0] = (Chunk, 0, 65537)"
    by (simp add: parse_header_def)
  have "payload_cap Chunk < 65537" by (simp add: payload_cap_def MAX_CHUNK_LEN_def)
  from oversized_frame_refused [OF l p this] show ?thesis by blast
qed

end
