(* ===== verification/Flow_Negotiation.thy ===== *)
theory Flow_Negotiation
  imports Flow_Frame
begin

text \<open>
  Negotiation of a Flow link, \<^verbatim>\<open>crates/openlogi-flow/src/negotiation.rs\<close>. A \<open>Hello\<close> has the fields
  of \<^verbatim>\<open>proto/flow.v1.proto\<close> that negotiation reads; capability numbers are signed 32-bit values
  as the wire has them. A public key is its 32 bytes.
\<close>

datatype Capability = ClipboardText | ClipboardFiles

record Hello_msg =
  proto_min :: u32
  proto_max :: u32
  public_key :: "u8 list"
  session_nonce :: "u8 list"
  capabilities :: "int list"

record Negotiated =
  ng_version :: u32
  ng_capabilities :: "Capability set"

datatype HelloRejection = VersionDisjoint | KeyMismatch | Malformed

datatype PublicKey = PublicKey (key_bytes: "u8 list")

definition public_key_try_from :: "u8 list \<Rightarrow> PublicKey option" where
  "public_key_try_from value = (if length value = 32 then Some (PublicKey value) else None)"

definition capability_of :: "int \<Rightarrow> Capability option" where
  "capability_of n = (if n = 1 then Some ClipboardText else if n = 2 then Some ClipboardFiles else None)"

definition known_capabilities :: "int list \<Rightarrow> Capability set" where
  "known_capabilities values = set (List.map_filter capability_of values)"

definition negotiate :: "Hello_msg \<Rightarrow> Hello_msg \<Rightarrow> PublicKey \<Rightarrow> HelloRejection + Negotiated" where
  "negotiate local peer peer_tls_identity =
     (case public_key_try_from (public_key peer) of
        None \<Rightarrow> Inl KeyMismatch
      | Some hello_key \<Rightarrow>
          if hello_key \<noteq> peer_tls_identity then Inl KeyMismatch
          else if proto_min peer = 0 \<or> proto_min peer > proto_max peer \<or> length (session_nonce peer) \<noteq> 16
                \<or> proto_min local = 0 \<or> proto_min local > proto_max local \<or> length (session_nonce local) \<noteq> 16
          then Inl Malformed
          else let version = min (proto_max local) (proto_max peer) in
            if version < max (proto_min local) (proto_min peer) then Inl VersionDisjoint
            else Inr \<lparr>ng_version = version,
                      ng_capabilities = known_capabilities (capabilities local) \<inter> known_capabilities (capabilities peer)\<rparr>)"

definition may_send_capability :: "Negotiated \<Rightarrow> Capability \<Rightarrow> bool" where
  "may_send_capability n capability \<longleftrightarrow> capability \<in> ng_capabilities n"

definition may_send_kind :: "Negotiated \<Rightarrow> FrameKind \<Rightarrow> bool" where
  "may_send_kind n kind =
     (if ng_version n < 1 \<or> \<not> is_supported kind then False
      else case kind of
        ClipboardAnnounce \<Rightarrow> may_send_capability n ClipboardText
      | ClipboardFetch \<Rightarrow> may_send_capability n ClipboardText
      | FileFetch \<Rightarrow> may_send_capability n ClipboardFiles
      | ClipboardData \<Rightarrow> may_send_capability n ClipboardText \<or> may_send_capability n ClipboardFiles
      | Chunk \<Rightarrow> may_send_capability n ClipboardText \<or> may_send_capability n ClipboardFiles
      | ChunkEnd \<Rightarrow> may_send_capability n ClipboardText \<or> may_send_capability n ClipboardFiles
      | _ \<Rightarrow> True)"

section \<open>Properties\<close>

lemma negotiate_ok:
  "negotiate a b i = Inr n \<longleftrightarrow>
     length (public_key b) = 32 \<and> i = PublicKey (public_key b)
   \<and> proto_min a \<noteq> 0 \<and> proto_min b \<noteq> 0 \<and> length (session_nonce a) = 16 \<and> length (session_nonce b) = 16
   \<and> proto_min a \<le> proto_max a \<and> proto_min b \<le> proto_max b
   \<and> max (proto_min a) (proto_min b) \<le> min (proto_max a) (proto_max b)
   \<and> n = \<lparr>ng_version = min (proto_max a) (proto_max b),
          ng_capabilities = known_capabilities (capabilities a) \<inter> known_capabilities (capabilities b)\<rparr>"
  by (auto simp: negotiate_def public_key_try_from_def Let_def not_less not_le
      min_less_iff_disj less_max_iff_disj)

text \<open>C17: Both ends of a link agree: when one side accepts the other's \<open>Hello\<close> and the other sees the
  first's authenticated key, the other accepts too, with the same version and capabilities, so the
  two gates let the same frame kinds through. The version is the highest both ranges contain.\<close>

theorem negotiation_agrees:
  assumes "negotiate a b ib = Inr n" and "length (public_key a) = 32"
  shows "negotiate b a (PublicKey (public_key a)) = Inr n
    \<and> ng_version n \<in> {proto_min a .. proto_max a} \<inter> {proto_min b .. proto_max b}
    \<and> (\<forall>v \<in> {proto_min a .. proto_max a} \<inter> {proto_min b .. proto_max b}. v \<le> ng_version n)
    \<and> ng_capabilities n \<subseteq> known_capabilities (capabilities b)"
  using assms unfolding negotiate_ok by (auto simp: min.commute max.commute)

definition example_hello_msg :: "u32 \<Rightarrow> u32 \<Rightarrow> u8 \<Rightarrow> int list \<Rightarrow> Hello_msg" where
  "example_hello_msg lo hi key caps =
     \<lparr>proto_min = lo, proto_max = hi, public_key = replicate 32 key, session_nonce = replicate 16 0,
      capabilities = caps\<rparr>"

theorem negotiation_agrees_witness:
  "negotiate (example_hello_msg 2 4 7 [1, 99]) (example_hello_msg 1 3 1 [1, 2, 99]) (PublicKey (replicate 32 1))
     = Inr \<lparr>ng_version = 3, ng_capabilities = {ClipboardText}\<rparr>"
proof -
  have a: "negotiate (example_hello_msg 1 3 1 [1, 2, 99]) (example_hello_msg 2 4 7 [1, 99]) (PublicKey (replicate 32 7))
      = Inr \<lparr>ng_version = 3, ng_capabilities = {ClipboardText}\<rparr>" by code_simp
  have k: "length (public_key (example_hello_msg 1 3 1 [1, 2, 99])) = 32"
    "public_key (example_hello_msg 1 3 1 [1, 2, 99]) = replicate 32 1" by (simp_all add: example_hello_msg_def)
  from negotiation_agrees [OF a k(1)] show ?thesis unfolding k(2) by blast
qed



end
