(* ===== verification/Flow_Handoff.thy ===== *)
theory Flow_Handoff
  imports Complex_Main Flow_Devices Flow_Negotiation Event_System "HOL-Library.Code_Target_Nat"
begin

text \<open>
  The handoff transaction, \<^verbatim>\<open>crates/openlogi-agent-core/src/flow/handoff.rs\<close>: the receiver's ledger of
  incoming transfers and the sender's deadlines. Instants and durations are nanoseconds; the clock,
  the inventory view and the peers' messages are arguments, as in the code. A \<open>double\<close> of an entry
  point is a not-a-number, an infinity or a rational, since the code only asks whether it is finite
  and within the unit interval.
\<close>

type_synonym instant_ns = nat

definition millisecond :: nat where "millisecond = 1000000"
definition ARM_TIMEOUT :: nat where "ARM_TIMEOUT = 3000 * millisecond"
definition MAX_ARM_TIMEOUT :: nat where "MAX_ARM_TIMEOUT = 10000 * millisecond"
definition NETWORK_SLACK :: nat where "NETWORK_SLACK = 2000 * millisecond"
definition COMPLETED_LIMIT :: nat where "COMPLETED_LIMIT = 64"

datatype f64 = NotANumber | Infinite bool | Finite rat

record EntryPoint_msg =
  en_side :: int
  en_t :: f64
  en_velocity :: "(f64 \<times> f64) option"

record HandoffRequest_msg =
  hr_transfer_id :: u64
  hr_devices :: "PeerDeviceIdentity list"
  hr_entry :: "EntryPoint_msg option"

record HandoffAccept_msg =
  ha_transfer_id :: u64
  ha_arm_timeout_ms :: u32

datatype HandoffRejectReason = RejectDisabled | RejectUnknownDevice | RejectAlreadyPending | RejectNotReady

record HandoffReject_msg =
  hj_transfer_id :: u64
  hj_reason :: HandoffRejectReason
  hj_detail :: string

datatype HandoffOutcome = Arrived | Partial | Timeout | Cancelled

record DeviceArrival =
  da_device :: PeerDeviceIdentity
  da_arrived :: bool
  da_elapsed_ms :: u32

record HandoffResult_msg =
  hs_transfer_id :: u64
  hs_outcome :: HandoffOutcome
  hs_arrivals :: "DeviceArrival list"

datatype HandoffCancelReason = CancelSwitchFailed | CancelSuperseded | CancelShutdown

record PendingDevice =
  pn_key :: PhysicalDeviceKey
  pn_identity :: PeerDeviceIdentity
  pn_arrived_after :: "nat option"

record PendingIncoming =
  pi_peer :: PublicKey
  pi_transfer_id :: u64
  pi_entry :: EntryPoint_msg
  pi_devices :: "PendingDevice list"
  pi_accepted_at :: instant_ns
  pi_deadline :: instant_ns
  pi_entry_placed :: bool

record CompletedIncoming =
  ci_accept :: HandoffAccept_msg
  ci_result :: HandoffResult_msg

record IncomingLedger =
  il_pending :: "PendingIncoming option"
  il_completed :: "PublicKey \<times> u64 \<Rightarrow> CompletedIncoming option"
  il_completion_order :: "(PublicKey \<times> u64) list"

datatype ArmDecision =
    Armed HandoffAccept_msg
  | Duplicate HandoffAccept_msg
  | Replay HandoffAccept_msg HandoffResult_msg
  | Rejected HandoffReject_msg

record CompletedTransfer =
  ct_peer :: PublicKey
  ct_result :: HandoffResult_msg

record Observation =
  ob_entry :: "EntryPoint_msg option"
  ob_completed :: "CompletedTransfer option"

datatype CancelOutcome = Disarmed | Ignored | CancelUnknown

section \<open>Messages\<close>

definition millis :: "nat \<Rightarrow> u32" where
  "millis duration = (let n = duration div millisecond in if n < 2 ^ 32 then of_nat n else -1)"

definition handoff_accept :: "u64 \<Rightarrow> nat \<Rightarrow> HandoffAccept_msg" where
  "handoff_accept transfer_id window = \<lparr>ha_transfer_id = transfer_id, ha_arm_timeout_ms = millis window\<rparr>"

definition handoff_reject :: "u64 \<Rightarrow> HandoffRejectReason \<Rightarrow> string \<Rightarrow> HandoffReject_msg" where
  "handoff_reject transfer_id reason detail =
     \<lparr>hj_transfer_id = transfer_id, hj_reason = reason, hj_detail = detail\<rparr>"

definition side_known :: "int \<Rightarrow> bool" where
  "side_known side \<longleftrightarrow> 1 \<le> side \<and> side \<le> 4"

definition valid_entry :: "HandoffRequest_msg \<Rightarrow> EntryPoint_msg option" where
  "valid_entry request =
     (case hr_entry request of
        None \<Rightarrow> None
      | Some entry \<Rightarrow>
          if side_known (en_side entry) \<and> (case en_t entry of Finite t \<Rightarrow> 0 \<le> t \<and> t \<le> 1 | _ \<Rightarrow> False)
          then Some entry else None)"

section \<open>The ledger\<close>

definition match_device ::
  "LocalDevices \<Rightarrow> PeerDeviceIdentity
   \<Rightarrow> (HandoffRejectReason \<times> string) + PhysicalDeviceKey \<times> PeerDeviceIdentity" where
  "match_device devices requested =
     (case find_listed devices requested of
        Some local \<Rightarrow>
          if ld_online local
          then Inl (RejectNotReady, ''a requested device is already connected here'')
          else Inr (ld_key local, ld_identity local)
      | None \<Rightarrow>
          (case find_unlisted devices requested of
             Some key \<Rightarrow> Inr (key, requested)
           | None \<Rightarrow> Inl (RejectUnknownDevice, ''a requested device is not configured here'')))"

fun match_devices ::
  "LocalDevices \<Rightarrow> PeerDeviceIdentity list \<Rightarrow> PendingDevice list
   \<Rightarrow> (HandoffRejectReason \<times> string) + PendingDevice list" where
  "match_devices devices [] matched = Inr matched"
| "match_devices devices (requested # rest) matched =
     (case match_device devices requested of
        Inl e \<Rightarrow> Inl e
      | Inr (key, identity) \<Rightarrow>
          if \<exists>device \<in> set matched. pn_key device = key
          then Inl (RejectUnknownDevice, ''the request names one device twice'')
          else match_devices devices rest
                 (matched @ [\<lparr>pn_key = key, pn_identity = identity, pn_arrived_after = None\<rparr>]))"

definition request_entry :: "HandoffRequest_msg \<Rightarrow> EntryPoint_msg option" where
  "request_entry request =
     (if hr_transfer_id request \<noteq> 0 \<and> hr_devices request \<noteq> [] then valid_entry request else None)"

definition arm ::
  "IncomingLedger \<Rightarrow> PublicKey \<Rightarrow> HandoffRequest_msg \<Rightarrow> LocalDevices \<Rightarrow> bool \<Rightarrow> instant_ns
   \<Rightarrow> IncomingLedger \<times> ArmDecision" where
  "arm l peer request devices enabled now =
     (let transfer_id = hr_transfer_id request;
          rejected = (\<lambda>reason detail. (l, Rejected (handoff_reject transfer_id reason detail))) in
      if \<not> enabled then rejected RejectDisabled ''Flow is disabled''
      else case request_entry request of
        None \<Rightarrow> rejected RejectNotReady ''invalid handoff request''
      | Some entry \<Rightarrow>
          (case il_completed l (peer, transfer_id) of
             Some d \<Rightarrow> (l, Replay (ci_accept d) (ci_result d))
           | None \<Rightarrow>
               (case il_pending l of
                  Some p \<Rightarrow>
                    if pi_peer p = peer \<and> pi_transfer_id p = transfer_id
                    then (l, Duplicate (handoff_accept transfer_id (pi_deadline p - now)))
                    else rejected RejectAlreadyPending ''another transfer is already armed''
                | None \<Rightarrow>
                    (case match_devices devices (hr_devices request) [] of
                       Inl (reason, detail) \<Rightarrow> rejected reason detail
                     | Inr matched \<Rightarrow>
                         (l\<lparr>il_pending := Some \<lparr>pi_peer = peer, pi_transfer_id = transfer_id, pi_entry = entry,
                              pi_devices = matched, pi_accepted_at = now, pi_deadline = now + ARM_TIMEOUT,
                              pi_entry_placed = False\<rparr>\<rparr>,
                          Armed (handoff_accept transfer_id ARM_TIMEOUT))))))"

definition ledger_deadline :: "IncomingLedger \<Rightarrow> instant_ns option" where
  "ledger_deadline l = map_option pi_deadline (il_pending l)"

definition arrival_of :: "PendingDevice \<Rightarrow> DeviceArrival" where
  "arrival_of device =
     \<lparr>da_device = pn_identity device, da_arrived = pn_arrived_after device \<noteq> None,
      da_elapsed_ms = (case pn_arrived_after device of None \<Rightarrow> 0 | Some d \<Rightarrow> millis d)\<rparr>"

definition result_of :: "PendingIncoming \<Rightarrow> HandoffOutcome \<Rightarrow> HandoffResult_msg" where
  "result_of p outcome =
     \<lparr>hs_transfer_id = pi_transfer_id p, hs_outcome = outcome, hs_arrivals = map arrival_of (pi_devices p)\<rparr>"

definition record_transfer ::
  "IncomingLedger \<Rightarrow> PendingIncoming \<Rightarrow> HandoffOutcome \<Rightarrow> IncomingLedger \<times> CompletedTransfer" where
  "record_transfer l p outcome =
     (let result = result_of p outcome;
          key = (pi_peer p, pi_transfer_id p);
          completed = (il_completed l)(key \<mapsto>
            \<lparr>ci_accept = handoff_accept (pi_transfer_id p) 0, ci_result = result\<rparr>);
          order = il_completion_order l @ [key];
          l' = (if length order > COMPLETED_LIMIT
                then l\<lparr>il_completed := completed(hd order := None), il_completion_order := tl order\<rparr>
                else l\<lparr>il_completed := completed, il_completion_order := order\<rparr>) in
      (l', \<lparr>ct_peer = pi_peer p, ct_result = result\<rparr>))"

text \<open>The loop of \<open>observe\<close>: devices updated, whether the entry is placed, the entry to place.\<close>

fun observe_devices ::
  "LocalDevices \<Rightarrow> nat \<Rightarrow> EntryPoint_msg \<Rightarrow> PendingDevice list \<Rightarrow> bool \<Rightarrow> EntryPoint_msg option
   \<Rightarrow> PendingDevice list \<times> bool \<times> EntryPoint_msg option" where
  "observe_devices devices elapsed entry_point [] placed entry = ([], placed, entry)"
| "observe_devices devices elapsed entry_point (expected # rest) placed entry =
     (let (expected, placed, entry) =
        (if pn_arrived_after expected \<noteq> None then (expected, placed, entry)
         else case find (\<lambda>d. ld_key d = pn_key expected \<and> ld_online d) (lds_listed devices) of
           None \<Rightarrow> (expected, placed, entry)
         | Some arrived \<Rightarrow>
             (let expected = expected\<lparr>pn_arrived_after := Some elapsed\<rparr> in
              if is_pointing (ld_kind arrived) \<and> \<not> placed then (expected, True, Some entry_point)
              else (expected, placed, entry)));
          (rest, placed, entry) = observe_devices devices elapsed entry_point rest placed entry in
      (expected # rest, placed, entry))"

definition arrived_any :: "PendingIncoming \<Rightarrow> bool" where
  "arrived_any p \<longleftrightarrow> (\<exists>d \<in> set (pi_devices p). pn_arrived_after d \<noteq> None)"

definition arrived_all :: "PendingIncoming \<Rightarrow> bool" where
  "arrived_all p \<longleftrightarrow> (\<forall>d \<in> set (pi_devices p). pn_arrived_after d \<noteq> None)"

definition ledger_observe :: "IncomingLedger \<Rightarrow> LocalDevices \<Rightarrow> instant_ns \<Rightarrow> IncomingLedger \<times> Observation" where
  "ledger_observe l devices now =
     (case il_pending l of
        None \<Rightarrow> (l, \<lparr>ob_entry = None, ob_completed = None\<rparr>)
      | Some p \<Rightarrow>
          (case observe_devices devices (now - pi_accepted_at p) (pi_entry p) (pi_devices p) (pi_entry_placed p) None of
             (expected, placed, entry) \<Rightarrow>
               (let p = p\<lparr>pi_devices := expected, pi_entry_placed := placed\<rparr> in
                if arrived_all p
                then (case record_transfer (l\<lparr>il_pending := None\<rparr>) p Arrived of
                        (l, c) \<Rightarrow> (l, \<lparr>ob_entry = entry, ob_completed = Some c\<rparr>))
                else (l\<lparr>il_pending := Some p\<rparr>, \<lparr>ob_entry = entry, ob_completed = None\<rparr>))))"

definition ledger_expire :: "IncomingLedger \<Rightarrow> instant_ns \<Rightarrow> IncomingLedger \<times> CompletedTransfer option" where
  "ledger_expire l now =
     (case il_pending l of
        None \<Rightarrow> (l, None)
      | Some p \<Rightarrow>
          if now < pi_deadline p then (l, None)
          else (case record_transfer (l\<lparr>il_pending := None\<rparr>) p (if arrived_any p then Partial else Timeout) of
                  (l, c) \<Rightarrow> (l, Some c)))"

definition ledger_cancel :: "IncomingLedger \<Rightarrow> PublicKey \<Rightarrow> u64 \<Rightarrow> IncomingLedger \<times> CancelOutcome" where
  "ledger_cancel l peer transfer_id =
     (case il_pending l of
        None \<Rightarrow> (l, CancelUnknown)
      | Some p \<Rightarrow>
          if \<not> (pi_peer p = peer \<and> pi_transfer_id p = transfer_id) then (l, CancelUnknown)
          else if arrived_any p then (l, Ignored)
          else (fst (record_transfer (l\<lparr>il_pending := None\<rparr>) p Cancelled), Disarmed))"

section \<open>The sender\<close>

record SwitchSchedule =
  sw_write_deadline :: instant_ns
  sw_give_up :: instant_ns

definition switch_schedule :: "instant_ns \<Rightarrow> instant_ns \<Rightarrow> HandoffAccept_msg \<Rightarrow> SwitchSchedule" where
  "switch_schedule requested_at accepted_at accept =
     (let window = min (unat (ha_arm_timeout_ms accept) * millisecond) MAX_ARM_TIMEOUT in
      \<lparr>sw_write_deadline = requested_at + window div 2, sw_give_up = accepted_at + window + NETWORK_SLACK\<rparr>)"

definition may_write :: "SwitchSchedule \<Rightarrow> instant_ns \<Rightarrow> bool" where
  "may_write schedule now \<longleftrightarrow> now < sw_write_deadline schedule"

datatype SwitchOutcome = NotWritten | Written | Failed
datatype AfterSwitch = CancelTransfer HandoffCancelReason | AwaitResult

definition after_switch :: "SwitchOutcome list \<Rightarrow> bool \<Rightarrow> AfterSwitch" where
  "after_switch outcomes stopping =
     (if \<exists>outcome \<in> set outcomes. outcome \<noteq> NotWritten then AwaitResult
      else if stopping then CancelTransfer CancelShutdown
      else CancelTransfer CancelSwitchFailed)"

datatype EdgeSide = SideLeft | SideRight | SideTop | SideBottom

record EdgeCrossing =
  ec_side :: EdgeSide
  ec_t :: f64
  ec_velocity :: "f64 \<times> f64"

definition entry_point :: "EdgeCrossing \<Rightarrow> EntryPoint_msg" where
  "entry_point crossing =
     \<lparr>en_side = (case ec_side crossing of SideLeft \<Rightarrow> 2 | SideRight \<Rightarrow> 1 | SideTop \<Rightarrow> 4 | SideBottom \<Rightarrow> 3),
      en_t = ec_t crossing, en_velocity = Some (ec_velocity crossing)\<rparr>"

section \<open>The ledger as a state machine\<close>

text \<open>
  The ghost log holds every finished transfer in order. The runtime passes its clock to every
  operation; \<open>HoTick\<close> lets it advance.
\<close>

type_synonym transfer_log = "((PublicKey \<times> u64) \<times> HandoffResult_msg) list"

record handoff_state =
  lh_ledger :: IncomingLedger
  lh_log :: transfer_log
  lh_now :: instant_ns

datatype handoff_event =
    HoRequest PublicKey HandoffRequest_msg LocalDevices bool
  | HoInventory LocalDevices
  | HoExpire
  | HoCancel PublicKey u64
  | HoTick nat

definition log_entry :: "CompletedTransfer option \<Rightarrow> transfer_log" where
  "log_entry c = (case c of None \<Rightarrow> []
     | Some t \<Rightarrow> [((ct_peer t, hs_transfer_id (ct_result t)), ct_result t)])"

fun handoff_step :: "handoff_state \<Rightarrow> handoff_event \<Rightarrow> handoff_state option" where
  "handoff_step s (HoRequest peer request devices enabled) =
     Some (s\<lparr>lh_ledger := fst (arm (lh_ledger s) peer request devices enabled (lh_now s))\<rparr>)"
| "handoff_step s (HoInventory devices) =
     (let (l, ob) = ledger_observe (lh_ledger s) devices (lh_now s) in
      Some (s\<lparr>lh_ledger := l, lh_log := lh_log s @ log_entry (ob_completed ob)\<rparr>))"
| "handoff_step s HoExpire =
     (let (l, c) = ledger_expire (lh_ledger s) (lh_now s) in
      Some (s\<lparr>lh_ledger := l, lh_log := lh_log s @ log_entry c\<rparr>))"
| "handoff_step s (HoCancel peer transfer_id) =
     (case ledger_cancel (lh_ledger s) peer transfer_id of
        (l, Disarmed) \<Rightarrow>
          Some (s\<lparr>lh_ledger := l, lh_log := lh_log s @
            [((peer, transfer_id), result_of (the (il_pending (lh_ledger s))) Cancelled)]\<rparr>)
      | (l, _) \<Rightarrow> Some (s\<lparr>lh_ledger := l\<rparr>))"
| "handoff_step s (HoTick d) = Some (s\<lparr>lh_now := lh_now s + d\<rparr>)"

definition handoff_init :: "handoff_state \<Rightarrow> bool" where
  "handoff_init s \<longleftrightarrow> lh_ledger s = \<lparr>il_pending = None, il_completed = Map.empty, il_completion_order = []\<rparr>
     \<and> lh_log s = []"

section \<open>What the ledger remembers\<close>

definition recent :: "transfer_log \<Rightarrow> transfer_log" where
  "recent ts = drop (length ts - COMPLETED_LIMIT) ts"

definition remembered :: "(PublicKey \<times> u64) \<times> HandoffResult_msg \<Rightarrow> (PublicKey \<times> u64) \<times> CompletedIncoming" where
  "remembered e = (fst e, \<lparr>ci_accept = handoff_accept (snd (fst e)) 0, ci_result = snd e\<rparr>)"

definition memory_ok :: "IncomingLedger \<Rightarrow> transfer_log \<Rightarrow> bool" where
  "memory_ok l ts \<longleftrightarrow> il_completion_order l = map fst (recent ts) \<and> distinct (map fst (recent ts))
     \<and> il_completed l = map_of (map remembered (recent ts))"

lemma recent_snoc:
  "recent (ts @ [e]) =
     (if length (recent ts @ [e]) > COMPLETED_LIMIT then tl (recent ts @ [e]) else recent ts @ [e])"
proof (cases "length ts < COMPLETED_LIMIT")
  case True
  then show ?thesis by (simp add: recent_def)
next
  case False
  then have "length (ts @ [e]) - COMPLETED_LIMIT = Suc (length ts - COMPLETED_LIMIT)" by simp
  moreover have "recent ts \<noteq> []" using False by (simp add: recent_def COMPLETED_LIMIT_def)
  ultimately show ?thesis using False by (simp add: recent_def drop_Suc tl_drop)
qed

lemma map_of_snoc: "k \<notin> fst ` set xs \<Longrightarrow> map_of (xs @ [(k, v)]) = (map_of xs)(k \<mapsto> v)"
  by (induction xs) (auto simp: fun_upd_twist)

lemma map_of_tl: "distinct (map fst xs) \<Longrightarrow> xs \<noteq> [] \<Longrightarrow> map_of (tl xs) = (map_of xs)(fst (hd xs) := None)"
  by (cases xs) (simp_all add: fun_upd_idem map_of_eq_None_iff)

lemma remembered_key [simp]: "fst (remembered e) = fst e" "fst \<circ> remembered = fst"
  by (simp_all add: remembered_def fun_eq_iff)

lemma remembered_tl:
  "distinct (map fst w) \<Longrightarrow> w \<noteq> [] \<Longrightarrow> map_of (map remembered (tl w)) = (map_of (map remembered w))(fst (hd w) := None)"
  using map_of_tl [of "map remembered w"] by (simp add: map_tl hd_map)

lemma record_memory:
  assumes "memory_ok l ts" and "(pi_peer p, pi_transfer_id p) \<notin> set (il_completion_order l)"
  shows "memory_ok (fst (record_transfer l p o')) (ts @ [((pi_peer p, pi_transfer_id p), result_of p o')])"
proof -
  let ?k = "(pi_peer p, pi_transfer_id p)" and ?e = "((pi_peer p, pi_transfer_id p), result_of p o')"
  define w where "w = recent ts @ [?e]"
  have k: "?k \<notin> fst ` set (recent ts)" using assms by (simp add: memory_ok_def)
  have d: "distinct (map fst w)" "w \<noteq> []" using assms(1) k by (simp_all add: memory_ok_def w_def)
  have m: "(il_completed l)(?k \<mapsto> \<lparr>ci_accept = handoff_accept (pi_transfer_id p) 0, ci_result = result_of p o'\<rparr>)
      = map_of (map remembered w)"
    using assms(1) k map_of_snoc [of ?k "map remembered (recent ts)"]
    by (simp add: memory_ok_def remembered_def image_image w_def)
  have o: "il_completion_order l @ [?k] = map fst w" using assms(1) by (simp add: memory_ok_def w_def)
  have r: "recent (ts @ [?e]) = (if length w > COMPLETED_LIMIT then tl w else w)"
    unfolding w_def by (rule recent_snoc)
  show ?thesis
    unfolding memory_ok_def record_transfer_def Let_def o m r
    using d remembered_tl [OF d] by (simp add: map_tl hd_map distinct_tl)
qed

section \<open>Results say what happened\<close>

definition truthful :: "(PublicKey \<times> u64) \<times> HandoffResult_msg \<Rightarrow> bool" where
  "truthful e \<longleftrightarrow>
     (let r = snd e; arrived = map da_arrived (hs_arrivals r) in
      hs_transfer_id r = snd (fst e) \<and> arrived \<noteq> []
      \<and> (case hs_outcome r of
           Arrived \<Rightarrow> False \<notin> set arrived
         | Partial \<Rightarrow> True \<in> set arrived \<and> False \<in> set arrived
         | Timeout \<Rightarrow> True \<notin> set arrived
         | Cancelled \<Rightarrow> True \<notin> set arrived))"

definition pending_ok :: "PendingIncoming \<Rightarrow> instant_ns \<Rightarrow> bool" where
  "pending_ok p now \<longleftrightarrow> pi_devices p \<noteq> [] \<and> distinct (map pn_key (pi_devices p)) \<and> \<not> arrived_all p
     \<and> pi_accepted_at p \<le> now \<and> pi_deadline p = pi_accepted_at p + ARM_TIMEOUT"

lemma arrived_flags:
  "True \<in> set (map da_arrived (hs_arrivals (result_of p o'))) \<longleftrightarrow> arrived_any p"
  "False \<in> set (map da_arrived (hs_arrivals (result_of p o'))) \<longleftrightarrow> \<not> arrived_all p"
  by (force simp: result_of_def arrival_of_def arrived_any_def arrived_all_def image_iff)+

lemma result_truthful:
  assumes "pi_devices p \<noteq> []"
    and "case o' of Arrived \<Rightarrow> arrived_all p | Partial \<Rightarrow> arrived_any p \<and> \<not> arrived_all p | _ \<Rightarrow> \<not> arrived_any p"
  shows "truthful ((peer, pi_transfer_id p), result_of p o')"
proof -
  have o: "hs_outcome (result_of p o') = o'" "hs_transfer_id (result_of p o') = pi_transfer_id p"
    "map da_arrived (hs_arrivals (result_of p o')) \<noteq> []"
    using assms(1) by (simp_all add: result_of_def)
  show ?thesis using assms(2) o(3) unfolding truthful_def Let_def snd_conv fst_conv o(1,2) arrived_flags
    by (cases o') simp_all
qed

lemma match_devices_Inr:
  assumes "match_devices devices rs matched = Inr ms"
    and "distinct (map pn_key matched)" and "list_all (\<lambda>d. pn_arrived_after d = None) matched"
  shows "distinct (map pn_key ms) \<and> list_all (\<lambda>d. pn_arrived_after d = None) ms
    \<and> length ms = length matched + length rs"
  using assms
proof (induction devices rs matched rule: match_devices.induct)
  case (2 devices requested rest matched)
  obtain key identity where f: "match_device devices requested = Inr (key, identity)"
    and n: "\<not> (\<exists>device \<in> set matched. pn_key device = key)"
    and r: "match_devices devices rest (matched @ [\<lparr>pn_key = key, pn_identity = identity, pn_arrived_after = None\<rparr>]) = Inr ms"
    using 2(2) by (cases "match_device devices requested") (auto split: if_splits)
  from 2(1) [OF f refl n r] 2(3,4) n show ?case by auto
qed simp

lemma observe_keeps:
  "map pn_key (fst (observe_devices ds el en devices placed entry)) = map pn_key devices"
  by (induction ds el en devices placed entry rule: observe_devices.induct)
    (auto simp: Let_def split: prod.splits option.splits if_splits)

definition handoff_inv :: "handoff_state \<Rightarrow> bool" where
  "handoff_inv s \<longleftrightarrow> memory_ok (lh_ledger s) (lh_log s) \<and> list_all truthful (lh_log s)
     \<and> (\<forall>p. il_pending (lh_ledger s) = Some p \<longrightarrow>
          pending_ok p (lh_now s) \<and> (pi_peer p, pi_transfer_id p) \<notin> set (il_completion_order (lh_ledger s)))"

lemma record_pending [simp]: "il_pending (fst (record_transfer l p o')) = il_pending l"
  by (simp add: record_transfer_def Let_def)

lemma record_snd: "snd (record_transfer l p o') = \<lparr>ct_peer = pi_peer p, ct_result = result_of p o'\<rparr>"
  by (simp add: record_transfer_def Let_def)

lemma memory_pending [simp]: "memory_ok (l\<lparr>il_pending := x\<rparr>) ts = memory_ok l ts"
  by (simp add: memory_ok_def)

lemma log_entry_record:
  "log_entry (Some (snd (record_transfer l p o'))) = [((pi_peer p, pi_transfer_id p), result_of p o')]"
  by (simp add: log_entry_def record_snd result_of_def)

text \<open>Finishing the armed transfer with a true outcome keeps the invariant.\<close>

lemma handoff_finish_inv:
  assumes "handoff_inv s" and "(pi_peer p, pi_transfer_id p) \<notin> set (il_completion_order (lh_ledger s))"
    and "pi_devices p \<noteq> []"
    and "case o' of Arrived \<Rightarrow> arrived_all p | Partial \<Rightarrow> arrived_any p \<and> \<not> arrived_all p | _ \<Rightarrow> \<not> arrived_any p"
  shows "handoff_inv (s\<lparr>lh_ledger := fst (record_transfer ((lh_ledger s)\<lparr>il_pending := None\<rparr>) p o'),
     lh_log := lh_log s @ [((pi_peer p, pi_transfer_id p), result_of p o')]\<rparr>)"
proof -
  have "memory_ok (fst (record_transfer ((lh_ledger s)\<lparr>il_pending := None\<rparr>) p o'))
      (lh_log s @ [((pi_peer p, pi_transfer_id p), result_of p o')])"
    using assms(1,2) by (intro record_memory) (simp_all add: handoff_inv_def)
  moreover have "truthful ((pi_peer p, pi_transfer_id p), result_of p o')"
    using assms(3,4) by (rule result_truthful)
  ultimately show ?thesis using assms(1) by (simp add: handoff_inv_def)
qed

lemma arm_ledger:
  obtains "fst (arm l peer request devices enabled now) = l"
  | entry matched where
      "fst (arm l peer request devices enabled now) = l\<lparr>il_pending := Some
         \<lparr>pi_peer = peer, pi_transfer_id = hr_transfer_id request, pi_entry = entry, pi_devices = matched,
          pi_accepted_at = now, pi_deadline = now + ARM_TIMEOUT, pi_entry_placed = False\<rparr>\<rparr>"
      "match_devices devices (hr_devices request) [] = Inr matched" "hr_devices request \<noteq> []"
      "il_completed l (peer, hr_transfer_id request) = None"
proof -
  show thesis
  proof (cases "enabled \<and> request_entry request \<noteq> None \<and> il_completed l (peer, hr_transfer_id request) = None
      \<and> il_pending l = None \<and> (\<exists>matched. match_devices devices (hr_devices request) [] = Inr matched)")
    case True
    then obtain entry matched where e: "request_entry request = Some entry"
      "match_devices devices (hr_devices request) [] = Inr matched" by auto
    then have "hr_devices request \<noteq> []" by (auto simp: request_entry_def split: if_splits)
    moreover from e True have "fst (arm l peer request devices enabled now) = l\<lparr>il_pending := Some
         \<lparr>pi_peer = peer, pi_transfer_id = hr_transfer_id request, pi_entry = entry, pi_devices = matched,
          pi_accepted_at = now, pi_deadline = now + ARM_TIMEOUT, pi_entry_placed = False\<rparr>\<rparr>"
      unfolding arm_def Let_def by simp
    ultimately show ?thesis using True e(2) by (intro that(2) [of entry matched]) simp_all
  next
    case False
    have "fst (arm l peer request devices enabled now) = l"
    proof (cases "match_devices devices (hr_devices request) []")
      case (Inl x)
      then show ?thesis unfolding arm_def Let_def by (cases x) (simp split: option.split)
    next
      case (Inr matched)
      with False show ?thesis unfolding arm_def Let_def by (auto split: option.split)
    qed
    then show ?thesis by (rule that(1))
  qed
qed

lemma arm_inv:
  assumes "handoff_inv s"
  shows "handoff_inv (s\<lparr>lh_ledger := fst (arm (lh_ledger s) peer request devices enabled (lh_now s))\<rparr>)"
proof (cases rule: arm_ledger [of "lh_ledger s" peer request devices enabled "lh_now s"])
  case 1
  with assms show ?thesis by simp
next
  case (2 entry matched)
  have m: "distinct (map pn_key matched)" "list_all (\<lambda>d. pn_arrived_after d = None) matched"
    "length matched = length (hr_devices request)"
    using match_devices_Inr [OF 2(2)] by simp_all
  then have ne: "matched \<noteq> []" using 2(3) by auto
  have k: "(peer, hr_transfer_id request) \<notin> set (il_completion_order (lh_ledger s))"
  proof -
    have mem: "memory_ok (lh_ledger s) (lh_log s)" using assms by (simp add: handoff_inv_def)
    then have "map_of (map remembered (recent (lh_log s))) (peer, hr_transfer_id request) = None"
      using 2(4) by (simp add: memory_ok_def)
    then have "(peer, hr_transfer_id request) \<notin> set (map fst (recent (lh_log s)))"
      by (simp add: map_of_eq_None_iff image_image)
    then show ?thesis using mem by (simp add: memory_ok_def)
  qed
  obtain d where "d \<in> set matched" using ne by (cases matched) auto
  then have "\<exists>d \<in> set matched. pn_arrived_after d = None" using m(2) by (auto simp: list_all_iff)
  then show ?thesis using assms k m(1) ne unfolding 2(1) by (simp add: handoff_inv_def pending_ok_def arrived_all_def)
qed

lemma observe_inv:
  assumes "handoff_inv s"
  shows "handoff_inv (s\<lparr>lh_ledger := fst (ledger_observe (lh_ledger s) devices (lh_now s)),
    lh_log := lh_log s @ log_entry (ob_completed (snd (ledger_observe (lh_ledger s) devices (lh_now s))))\<rparr>)"
proof (cases "il_pending (lh_ledger s)")
  case None
  with assms show ?thesis by (simp add: ledger_observe_def log_entry_def)
next
  case (Some p)
  obtain expected placed entry where o: "observe_devices devices (lh_now s - pi_accepted_at p) (pi_entry p)
    (pi_devices p) (pi_entry_placed p) None = (expected, placed, entry)" by (metis prod_cases3)
  define q where "q = p\<lparr>pi_devices := expected, pi_entry_placed := placed\<rparr>"
  have p: "pending_ok p (lh_now s)" "(pi_peer q, pi_transfer_id q) \<notin> set (il_completion_order (lh_ledger s))"
    using assms Some by (simp_all add: handoff_inv_def q_def)
  have keys: "map pn_key (pi_devices q) = map pn_key (pi_devices p)"
    using observe_keeps [of devices _ _ "pi_devices p"] o by (simp add: q_def) (metis fst_conv)
  then have ne: "pi_devices q \<noteq> []" using p(1) by (auto simp: pending_ok_def)
  show ?thesis
  proof (cases "arrived_all q")
    case True
    then have "ledger_observe (lh_ledger s) devices (lh_now s) =
        (fst (record_transfer ((lh_ledger s)\<lparr>il_pending := None\<rparr>) q Arrived),
         \<lparr>ob_entry = entry, ob_completed = Some (snd (record_transfer ((lh_ledger s)\<lparr>il_pending := None\<rparr>) q Arrived))\<rparr>)"
      by (simp add: ledger_observe_def Some o q_def [symmetric] Let_def case_prod_beta)
    then show ?thesis using handoff_finish_inv [OF assms p(2) ne, of Arrived] True by (simp add: log_entry_record)
  next
    case False
    then have "ledger_observe (lh_ledger s) devices (lh_now s) =
        ((lh_ledger s)\<lparr>il_pending := Some q\<rparr>, \<lparr>ob_entry = entry, ob_completed = None\<rparr>)"
      by (simp add: ledger_observe_def Some o q_def [symmetric] Let_def)
    moreover have "pending_ok q (lh_now s)" using p(1) keys ne False by (simp add: pending_ok_def q_def)
    ultimately show ?thesis using assms p(2) by (simp add: handoff_inv_def log_entry_def)
  qed
qed

lemma expire_due:
  assumes "il_pending l = Some p" and "pi_deadline p \<le> now"
  shows "ledger_expire l now =
    (let r = record_transfer (l\<lparr>il_pending := None\<rparr>) p (if arrived_any p then Partial else Timeout) in (fst r, Some (snd r)))"
  using assms by (simp add: ledger_expire_def Let_def case_prod_beta)

lemma expire_inv:
  assumes "handoff_inv s"
  shows "handoff_inv (s\<lparr>lh_ledger := fst (ledger_expire (lh_ledger s) (lh_now s)),
    lh_log := lh_log s @ log_entry (snd (ledger_expire (lh_ledger s) (lh_now s)))\<rparr>)"
proof (cases "\<exists>p. il_pending (lh_ledger s) = Some p \<and> pi_deadline p \<le> lh_now s")
  case True
  then obtain p where p: "il_pending (lh_ledger s) = Some p" "pi_deadline p \<le> lh_now s" by blast
  have ok: "pending_ok p (lh_now s)" "(pi_peer p, pi_transfer_id p) \<notin> set (il_completion_order (lh_ledger s))"
    using assms p(1) by (simp_all add: handoff_inv_def)
  then have "handoff_inv (s\<lparr>lh_ledger := fst (record_transfer ((lh_ledger s)\<lparr>il_pending := None\<rparr>) p
        (if arrived_any p then Partial else Timeout)),
      lh_log := lh_log s @ [((pi_peer p, pi_transfer_id p), result_of p (if arrived_any p then Partial else Timeout))]\<rparr>)"
    by (intro handoff_finish_inv [OF assms]) (simp_all add: pending_ok_def)
  then show ?thesis by (simp add: expire_due [OF p] Let_def log_entry_record)
next
  case False
  then have "ledger_expire (lh_ledger s) (lh_now s) = (lh_ledger s, None)"
    by (auto simp: ledger_expire_def not_le split: option.split)
  with assms show ?thesis by (simp add: log_entry_def)
qed

lemma handoff_cancel_inv:
  assumes "handoff_inv s" and "handoff_step s (HoCancel peer transfer_id) = Some s'"
  shows "handoff_inv s'"
proof (cases "\<exists>p. il_pending (lh_ledger s) = Some p \<and> pi_peer p = peer \<and> pi_transfer_id p = transfer_id \<and> \<not> arrived_any p")
  case True
  then obtain p where p: "il_pending (lh_ledger s) = Some p" "pi_peer p = peer" "pi_transfer_id p = transfer_id"
    "\<not> arrived_any p" by blast
  then have "s' = s\<lparr>lh_ledger := fst (record_transfer ((lh_ledger s)\<lparr>il_pending := None\<rparr>) p Cancelled),
      lh_log := lh_log s @ [((pi_peer p, pi_transfer_id p), result_of p Cancelled)]\<rparr>"
    using assms(2) by (simp add: ledger_cancel_def)
  moreover have "pending_ok p (lh_now s)" "(pi_peer p, pi_transfer_id p) \<notin> set (il_completion_order (lh_ledger s))"
    using assms(1) p(1) by (simp_all add: handoff_inv_def)
  ultimately show ?thesis using handoff_finish_inv [OF assms(1), of p Cancelled] p(4) by (simp add: pending_ok_def)
next
  case False
  then have "s' = s" using assms(2) by (auto simp: ledger_cancel_def split: option.splits if_splits)
  with assms(1) show ?thesis by simp
qed

lemma handoff_step_inv: "handoff_inv s \<Longrightarrow> handoff_step s e = Some s' \<Longrightarrow> handoff_inv s'"
proof (cases e)
  case (HoTick d)
  assume "handoff_inv s" "handoff_step s e = Some s'"
  with HoTick show ?thesis by (auto simp: handoff_inv_def pending_ok_def)
qed (auto simp: case_prod_beta Let_def arm_inv observe_inv expire_inv simp del: handoff_step.simps(4) intro: handoff_cancel_inv)

lemma handoff_init_inv: "handoff_init s \<Longrightarrow> handoff_inv s"
  by (simp add: handoff_init_def handoff_inv_def memory_ok_def recent_def)

interpretation handoff: invariant_system handoff_init handoff_step handoff_inv
  by unfold_locales (auto intro: handoff_init_inv handoff_step_inv)

section \<open>Properties\<close>

lemma recent_length: "length (recent ts) \<le> COMPLETED_LIMIT"
  by (simp add: recent_def)

lemma arm_replays:
  assumes "il_completed l (peer, hr_transfer_id request) = Some d" and "request_entry request \<noteq> None"
  shows "arm l peer request devices True now = (l, Replay (ci_accept d) (ci_result d))"
  using assms unfolding arm_def Let_def by auto

text \<open>C19: The receiver remembers the last 64 finished transfers and no others: its bounded map and queue
  are exactly the end of the history of everything that finished, and a retransmitted request for
  one of them is answered from it, with the same result and with an accept whose empty window lets
  the sender write nothing, without arming anything again.\<close>

theorem finished_transfers_remembered:
  assumes "reach handoff_init handoff_step s"
  shows "il_completion_order (lh_ledger s) = map fst (recent (lh_log s)) \<and> length (recent (lh_log s)) \<le> COMPLETED_LIMIT
    \<and> dom (il_completed (lh_ledger s)) = fst ` set (recent (lh_log s))
    \<and> (\<forall>k r request devices. (k, r) \<in> set (recent (lh_log s)) \<and> hr_transfer_id request = snd k
          \<and> request_entry request \<noteq> None \<longrightarrow>
        arm (lh_ledger s) (fst k) request devices True (lh_now s)
          = (lh_ledger s, Replay (handoff_accept (snd k) 0) r))"
proof -
  have m: "memory_ok (lh_ledger s) (lh_log s)"
    using handoff.reachable_inv [OF assms] by (simp add: handoff_inv_def)
  have c: "il_completed (lh_ledger s) k = Some \<lparr>ci_accept = handoff_accept (snd k) 0, ci_result = r\<rparr>"
    if "(k, r) \<in> set (recent (lh_log s))" for k r
  proof -
    have "remembered (k, r) \<in> set (map remembered (recent (lh_log s)))" using that by force
    then show ?thesis using m by (simp add: memory_ok_def remembered_def map_of_eq_Some_iff o_def)
  qed
  have "arm (lh_ledger s) (fst k) request devices True (lh_now s) = (lh_ledger s, Replay (handoff_accept (snd k) 0) r)"
    if "(k, r) \<in> set (recent (lh_log s))" "hr_transfer_id request = snd k" "request_entry request \<noteq> None"
    for k r request devices
    using arm_replays [of "lh_ledger s" "fst k" request] c [OF that(1)] that(2,3) by simp
  moreover have "dom (il_completed (lh_ledger s)) = fst ` set (recent (lh_log s))"
    using m by (simp add: memory_ok_def dom_map_of_conv_image_fst image_image)
  ultimately show ?thesis using m recent_length by (simp add: memory_ok_def)
qed

definition example_identity :: PeerDeviceIdentity where
  "example_identity = \<lparr>pd_ids = [\<lparr>wd_kind = 3, wd_value = [1, 2, 3, 4, 5, 6]\<rparr>], pd_name = ''m'', pd_category = DC_Mouse\<rparr>"

definition example_request :: HandoffRequest_msg where
  "example_request = \<lparr>hr_transfer_id = 7, hr_devices = [example_identity],
     hr_entry = Some \<lparr>en_side = 1, en_t = Finite 0, en_velocity = None\<rparr>\<rparr>"

definition example_devices :: "bool \<Rightarrow> LocalDevices" where
  "example_devices online = \<lparr>lds_listed =
     [\<lparr>ld_config = example_flow_device, ld_identity = example_identity, ld_route = Some (RouteDirect 0x046d 0xb034),
       ld_kind = Mouse, ld_online = online\<rparr>], lds_unlisted = []\<rparr>"

definition example_peer :: PublicKey where
  "example_peer = PublicKey (replicate 32 9)"

definition example_handoff :: "handoff_event list \<Rightarrow> handoff_state" where
  "example_handoff es = the (run handoff_step
     \<lparr>lh_ledger = \<lparr>il_pending = None, il_completed = Map.empty, il_completion_order = []\<rparr>, lh_log = [], lh_now = 0\<rparr> es)"

lemma handoff_run_some: "\<exists>s'. run handoff_step s es = Some s'"
proof (induction es arbitrary: s)
  case (Cons e es)
  have "\<exists>s'. handoff_step s e = Some s'"
    by (cases e) (auto simp: case_prod_beta Let_def split: CancelOutcome.split)
  with Cons show ?case by auto
qed simp

lemma example_handoff_reach: "reach handoff_init handoff_step (example_handoff es)"
proof -
  let ?s = "\<lparr>lh_ledger = \<lparr>il_pending = None, il_completed = Map.empty, il_completion_order = []\<rparr>, lh_log = [], lh_now = 0\<rparr>"
  obtain s' where s': "run handoff_step ?s es = Some s'" using handoff_run_some by blast
  have "reach handoff_init handoff_step ?s" by (rule reach_init) (simp add: handoff_init_def)
  from reach_run [OF this s'] show ?thesis by (simp add: example_handoff_def s')
qed

abbreviation example_schedule :: "handoff_event list" where
  "example_schedule \<equiv> [HoRequest example_peer example_request (example_devices False) True, HoTick 500000000,
     HoInventory (example_devices True)]"

theorem finished_transfers_remembered_witness:
  "arm (lh_ledger (example_handoff example_schedule)) example_peer example_request (example_devices True) True 500000000
     = (lh_ledger (example_handoff example_schedule), Replay (handoff_accept 7 0)
         \<lparr>hs_transfer_id = 7, hs_outcome = Arrived,
          hs_arrivals = [\<lparr>da_device = example_identity, da_arrived = True, da_elapsed_ms = 500\<rparr>]\<rparr>)"
proof -
  let ?s = "example_handoff example_schedule"
  let ?r = "\<lparr>hs_transfer_id = 7, hs_outcome = Arrived,
    hs_arrivals = [\<lparr>da_device = example_identity, da_arrived = True, da_elapsed_ms = 500\<rparr>]\<rparr>"
  have "((example_peer, 7), ?r) \<in> set (recent (lh_log ?s))" by code_simp
  moreover have "hr_transfer_id example_request = snd (example_peer, 7)" "request_entry example_request \<noteq> None"
    "lh_now ?s = 500000000" by code_simp+
  ultimately show ?thesis
    using finished_transfers_remembered [OF example_handoff_reach, of example_schedule]
    unfolding snd_conv by (metis fst_conv snd_conv)
qed



definition accept_of :: "ArmDecision \<Rightarrow> HandoffAccept_msg option" where
  "accept_of d = (case d of Armed a \<Rightarrow> Some a | Duplicate a \<Rightarrow> Some a | Replay a _ \<Rightarrow> Some a | Rejected _ \<Rightarrow> None)"

lemma arm_accepts:
  assumes "accept_of (snd (arm l peer request devices enabled now)) = Some a"
  obtains d where "il_completed l (peer, hr_transfer_id request) = Some d" "a = ci_accept d"
  | p where "il_pending (fst (arm l peer request devices enabled now)) = Some p"
      "a = handoff_accept (hr_transfer_id request) (pi_deadline p - now)"
proof (cases "il_completed l (peer, hr_transfer_id request)")
  case (Some d)
  with assms have "a = ci_accept d"
    unfolding arm_def Let_def by (auto simp: accept_of_def split: if_splits option.splits)
  with Some show thesis by (rule that(1))
next
  case None
  show thesis
  proof (cases "il_pending l")
    case (Some p)
    with None assms show thesis unfolding arm_def Let_def
      by (intro that(2) [of p]) (auto simp: arm_def Let_def accept_of_def split: if_splits option.splits)
  next
    case p: None
    obtain entry matched where "enabled" "request_entry request = Some entry"
      "match_devices devices (hr_devices request) [] = Inr matched"
      using None p assms unfolding arm_def Let_def
      by (auto simp: accept_of_def split: if_splits option.splits sum.splits prod.splits)
    with None p assms show thesis
      by (intro that(2) [of "\<lparr>pi_peer = peer, pi_transfer_id = hr_transfer_id request, pi_entry = entry,
          pi_devices = matched, pi_accepted_at = now, pi_deadline = now + ARM_TIMEOUT, pi_entry_placed = False\<rparr>"])
        (simp_all add: arm_def Let_def accept_of_def)
  qed
qed

lemma millis_bound: "unat (millis d) * millisecond \<le> d"
proof -
  have "unat (millis d) \<le> d div millisecond"
  proof (cases "d div millisecond < 2 ^ 32")
    case True
    then show ?thesis by (simp add: millis_def Let_def unat_of_nat)
  next
    case False
    have "unat (millis d) < 2 ^ LENGTH(32)" by (rule unsigned_less)
    with False show ?thesis by simp
  qed
  then show ?thesis by (metis div_times_less_eq_dividend mult_le_mono1 order_trans)
qed

text \<open>C25: A switch write lands while the receiver still watches: whatever accept the receiver answers with,
  to a first request, a retransmission or a finished transfer, every instant at which the sender may
  start a write lies before the receiver's deadline, by at least half of the window that was left
  when the request was answered. The clocks are one here; only the order of sending, deciding and
  receiving matters.\<close>

theorem switch_write_in_window:
  assumes "reach handoff_init handoff_step s"
    and "arm (lh_ledger s) peer request devices enabled (lh_now s) = (l, decision)"
    and "accept_of decision = Some a"
    and "requested_at \<le> lh_now s" and "requested_at \<le> t"
    and "may_write (switch_schedule requested_at accepted_at a) t"
  shows "\<exists>deadline. ledger_deadline l = Some deadline \<and> t < deadline
    \<and> t + (deadline - lh_now s) div 2 < deadline"
proof -
  have m: "memory_ok (lh_ledger s) (lh_log s)"
    using handoff.reachable_inv [OF assms(1)] by (simp add: handoff_inv_def)
  define w where "w = min (unat (ha_arm_timeout_ms a) * millisecond) MAX_ARM_TIMEOUT"
  have t: "t < requested_at + w div 2"
    using assms(6) by (simp add: may_write_def switch_schedule_def Let_def w_def)
  have fl: "fst (arm (lh_ledger s) peer request devices enabled (lh_now s)) = l"
    "accept_of (snd (arm (lh_ledger s) peer request devices enabled (lh_now s))) = Some a"
    using assms(2,3) by simp_all
  from fl(2) show ?thesis
  proof (cases rule: arm_accepts)
    case (1 d)
    then have "map_of (map remembered (recent (lh_log s))) (peer, hr_transfer_id request) = Some d"
      using m by (simp add: memory_ok_def)
    from map_of_SomeD [OF this]
    have "d \<in> snd ` set (map remembered (recent (lh_log s)))" by (rule image_eqI [rotated]) simp
    then have "ha_arm_timeout_ms (ci_accept d) = millis 0"
      by (auto simp: remembered_def handoff_accept_def)
    with 1 have "w = 0" by (simp add: w_def millis_def)
    with t assms(5) show ?thesis by simp
  next
    case (2 p)
    have "w \<le> pi_deadline p - lh_now s"
      using millis_bound [of "pi_deadline p - lh_now s"] 2(2) by (simp add: w_def handoff_accept_def)
    then have "w div 2 + (pi_deadline p - lh_now s) div 2 \<le> pi_deadline p - lh_now s" by simp
    moreover have "0 < w div 2" using t assms(5) by simp
    ultimately have "t + (pi_deadline p - lh_now s) div 2 < pi_deadline p" using t assms(4) \<open>w \<le> _\<close> by linarith
    then show ?thesis using 2(1) fl(1) by (simp add: ledger_deadline_def)
  qed
qed

theorem switch_write_in_window_witness:
  "let l = fst (arm (lh_ledger (example_handoff [])) example_peer example_request (example_devices False) True 0) in
   \<exists>deadline. ledger_deadline l = Some deadline \<and> 1400000000 < deadline
    \<and> 1400000000 + (deadline - lh_now (example_handoff [])) div 2 < deadline"
proof -
  let ?d = "arm (lh_ledger (example_handoff [])) example_peer example_request (example_devices False) True (lh_now (example_handoff []))"
  have n: "lh_now (example_handoff []) = 0" by code_simp
  have a: "accept_of (snd ?d) = Some (handoff_accept 7 ARM_TIMEOUT)" by code_simp
  have w: "may_write (switch_schedule 0 50000000 (handoff_accept 7 ARM_TIMEOUT)) 1400000000" by code_simp
  from switch_write_in_window [OF example_handoff_reach prod.collapse [symmetric] a le0 le0 w]
  show ?thesis unfolding Let_def n .
qed

end
