(* ===== verification/Flow_Pairing.thy ===== *)
theory Flow_Pairing
  imports Flow_Negotiation Flow_Identity Event_System "HOL-Library.Code_Target_Nat"
begin

text \<open>
  The pairing ceremony, \<^verbatim>\<open>crates/openlogi-flow/src/pairing.rs\<close>, and the values it exchanges,
  \<^verbatim>\<open>crates/openlogi-flow/src/sas.rs\<close>. SHA-256 and HKDF are third-party and enter as the record
  \<open>crypto\<close> (HKDF with salt, key material, info and output length); what is used of them is that
  a digest has 32 bytes. Random nonces are injected by the
  caller, as in the code. The key store is the caller's too: an argument says whether it could
  persist the key. Instants and durations are nanoseconds.
\<close>

section \<open>Nonces, commitments and codes\<close>

record crypto =
  cr_sha256 :: "u8 list \<Rightarrow> u8 list"
  cr_hkdf :: "u8 list \<Rightarrow> u8 list \<Rightarrow> u8 list \<Rightarrow> nat \<Rightarrow> u8 list"

definition COMMIT_DOMAIN :: "u8 list" where
  "COMMIT_DOMAIN = string_bytes ''openlogi-flow-pair-commit-v1''"

definition SAS_INFO :: "u8 list" where
  "SAS_INFO = string_bytes ''openlogi-flow-sas-v1''"

datatype PairingNonce = PairingNonce (nonce_bytes: "u8 list")
datatype NonceCommitment = NonceCommitment (commitment_bytes: "u8 list")
datatype HelloDigest = HelloDigest (digest_bytes: "u8 list")
datatype SasCode = SasCode (sas_value: u32)

record PairingParty =
  pp_key :: PublicKey
  pp_hello :: HelloDigest
  pp_nonce :: PairingNonce

datatype FixedBytesError = FixedBytesError nat nat

definition fixed :: "nat \<Rightarrow> u8 list \<Rightarrow> FixedBytesError + u8 list" where
  "fixed n value = (if length value = n then Inr value else Inl (FixedBytesError n (length value)))"

definition nonce_commit :: "crypto \<Rightarrow> PublicKey \<Rightarrow> PublicKey \<Rightarrow> PairingNonce \<Rightarrow> NonceCommitment" where
  "nonce_commit c initiator responder nonce =
     NonceCommitment (cr_sha256 c (COMMIT_DOMAIN @ key_bytes initiator @ key_bytes responder @ nonce_bytes nonce))"

definition opens_to ::
  "crypto \<Rightarrow> NonceCommitment \<Rightarrow> PublicKey \<Rightarrow> PublicKey \<Rightarrow> PairingNonce \<Rightarrow> bool" where
  "opens_to c commitment initiator responder nonce \<longleftrightarrow>
     commitment_bytes (nonce_commit c initiator responder nonce) = commitment_bytes commitment"

definition hello_digest :: "crypto \<Rightarrow> u8 list \<Rightarrow> HelloDigest" where
  "hello_digest c payload = HelloDigest (cr_sha256 c payload)"

definition derive_sas :: "crypto \<Rightarrow> PairingParty \<Rightarrow> PairingParty \<Rightarrow> SasCode" where
  "derive_sas c initiator responder =
     (let salt = digest_bytes (pp_hello initiator) @ digest_bytes (pp_hello responder);
          ikm = key_bytes (pp_key initiator) @ key_bytes (pp_key responder)
            @ nonce_bytes (pp_nonce initiator) @ nonce_bytes (pp_nonce responder) in
      SasCode (u32_from_be_bytes (cr_hkdf c salt ikm SAS_INFO 4) mod 1000000))"

section \<open>The session\<close>

definition DEFAULT_PAIRING_TIMEOUT :: nat where "DEFAULT_PAIRING_TIMEOUT = 120 * 1000000000"

datatype PairingAbortReason = UserCancelled | CodeMismatch | AbortTimeout
datatype PairingRole = Initiator | Responder

datatype PairingState =
    StIdle | StAwaitingPrompt | StAwaitingReveal u32 | StAwaitingRevealed u32 | StPrompted u32 bool bool
  | StPaired | StRejected | StTimedOut | StAborted PairingAbortReason

datatype PairingError =
    InvalidTransition PairingState
  | InvalidEnum int
  | InvalidField string FixedBytesError
  | CommitmentMismatch
  | Persistence

record Deadline =
  dl_timeout_ms :: u32
  dl_at :: nat

definition deadline_new :: "nat \<Rightarrow> nat \<Rightarrow> Deadline" where
  "deadline_new now timeout =
     (let n = timeout div 1000000; timeout_ms = (if n < 2 ^ 32 then of_nat n else -1) in
      \<lparr>dl_timeout_ms = timeout_ms, dl_at = now + unat timeout_ms * 1000000\<rparr>)"

definition expired :: "Deadline \<Rightarrow> nat \<Rightarrow> bool" where
  "expired d now \<longleftrightarrow> dl_at d \<le> now"

datatype Phase =
    Idle
  | AwaitingPrompt PairingNonce
  | AwaitingReveal NonceCommitment PairingNonce Deadline
  | AwaitingRevealed SasCode Deadline bool
  | Prompted SasCode Deadline bool bool
  | Paired
  | Rejected
  | TimedOut
  | Aborted PairingAbortReason

record PairingSession =
  ps_local_key :: PublicKey
  ps_peer_key :: PublicKey
  ps_local_hello :: HelloDigest
  ps_peer_hello :: HelloDigest
  ps_role :: "PairingRole option"
  ps_phase :: Phase

definition session_new :: "PublicKey \<Rightarrow> PublicKey \<Rightarrow> HelloDigest \<Rightarrow> HelloDigest \<Rightarrow> PairingSession" where
  "session_new local_key peer_key local_hello peer_hello =
     \<lparr>ps_local_key = local_key, ps_peer_key = peer_key, ps_local_hello = local_hello,
      ps_peer_hello = peer_hello, ps_role = None, ps_phase = Idle\<rparr>"

definition session_state :: "PairingSession \<Rightarrow> PairingState" where
  "session_state s =
     (case ps_phase s of
        Idle \<Rightarrow> StIdle
      | AwaitingPrompt _ \<Rightarrow> StAwaitingPrompt
      | AwaitingReveal _ _ d \<Rightarrow> StAwaitingReveal (dl_timeout_ms d)
      | AwaitingRevealed _ d _ \<Rightarrow> StAwaitingRevealed (dl_timeout_ms d)
      | Prompted _ d l p \<Rightarrow> StPrompted (dl_timeout_ms d) l p
      | Paired \<Rightarrow> StPaired
      | Rejected \<Rightarrow> StRejected
      | TimedOut \<Rightarrow> StTimedOut
      | Aborted r \<Rightarrow> StAborted r)"

definition is_bound_to ::
  "PairingSession \<Rightarrow> PublicKey \<Rightarrow> PublicKey \<Rightarrow> HelloDigest \<Rightarrow> HelloDigest \<Rightarrow> bool" where
  "is_bound_to s local_key peer_key local_hello peer_hello \<longleftrightarrow>
     ps_local_key s = local_key \<and> ps_peer_key s = peer_key
     \<and> ps_local_hello s = local_hello \<and> ps_peer_hello s = peer_hello"

definition sas_code :: "PairingSession \<Rightarrow> SasCode option" where
  "sas_code s = (case ps_phase s of Prompted code _ _ _ \<Rightarrow> Some code | _ \<Rightarrow> None)"

definition local_party :: "PairingSession \<Rightarrow> PairingNonce \<Rightarrow> PairingParty" where
  "local_party s nonce = \<lparr>pp_key = ps_local_key s, pp_hello = ps_local_hello s, pp_nonce = nonce\<rparr>"

definition peer_party :: "PairingSession \<Rightarrow> PairingNonce \<Rightarrow> PairingParty" where
  "peer_party s nonce = \<lparr>pp_key = ps_peer_key s, pp_hello = ps_peer_hello s, pp_nonce = nonce\<rparr>"

definition invalid :: "PairingSession \<Rightarrow> PairingSession \<times> (PairingError + 'a)" where
  "invalid s = (s, Inl (InvalidTransition (session_state s)))"

definition terminal :: "Phase \<Rightarrow> PairingSession \<Rightarrow> PairingSession" where
  "terminal phase s = s\<lparr>ps_phase := phase\<rparr>"

definition ensure_active :: "PairingSession \<Rightarrow> bool" where
  "ensure_active s =
     (case ps_phase s of
        AwaitingPrompt _ \<Rightarrow> True | AwaitingReveal _ _ _ \<Rightarrow> True | AwaitingRevealed _ _ _ \<Rightarrow> True
      | Prompted _ _ _ _ \<Rightarrow> True | _ \<Rightarrow> False)"

definition ensure_prompted :: "PairingSession \<Rightarrow> bool" where
  "ensure_prompted s = (case ps_phase s of Prompted _ _ _ _ \<Rightarrow> True | _ \<Rightarrow> False)"

section \<open>Exchanging nonces\<close>

text \<open>\<open>PairStart\<close> and \<open>PairReveal\<close> are their byte fields, \<open>PairPrompted\<close> its timeout and nonce.\<close>

definition pair_start :: "crypto \<Rightarrow> PairingSession \<Rightarrow> PairingNonce \<Rightarrow> PairingSession \<times> (PairingError + u8 list)" where
  "pair_start c s nonce =
     (if ps_phase s \<noteq> Idle then invalid s
      else (s\<lparr>ps_role := Some Initiator, ps_phase := AwaitingPrompt nonce\<rparr>,
            Inr (commitment_bytes (nonce_commit c (ps_local_key s) (ps_peer_key s) nonce))))"

definition receive_start ::
  "PairingSession \<Rightarrow> u8 list \<Rightarrow> PairingNonce \<Rightarrow> nat \<Rightarrow> nat option
   \<Rightarrow> PairingSession \<times> (PairingError + u32 \<times> u8 list)" where
  "receive_start s start nonce now timeout =
     (if ps_phase s \<noteq> Idle then invalid s
      else case fixed 32 start of
        Inl e \<Rightarrow> (s, Inl (InvalidField ''nonce_commitment'' e))
      | Inr bytes \<Rightarrow>
          (let deadline = deadline_new now (case timeout of None \<Rightarrow> DEFAULT_PAIRING_TIMEOUT | Some t \<Rightarrow> t) in
           (s\<lparr>ps_role := Some Responder, ps_phase := AwaitingReveal (NonceCommitment bytes) nonce deadline\<rparr>,
            Inr (dl_timeout_ms deadline, nonce_bytes nonce))))"

definition receive_prompted ::
  "crypto \<Rightarrow> PairingSession \<Rightarrow> u32 \<times> u8 list \<Rightarrow> nat \<Rightarrow> PairingSession \<times> (PairingError + u8 list)" where
  "receive_prompted c s prompted now =
     (case ps_phase s of
        AwaitingPrompt nonce \<Rightarrow>
          (case fixed 16 (snd prompted) of
             Inl e \<Rightarrow> (s, Inl (InvalidField ''nonce'' e))
           | Inr bytes \<Rightarrow>
               (let timeout = (if fst prompted = 0 then DEFAULT_PAIRING_TIMEOUT else unat (fst prompted) * 1000000);
                    code = derive_sas c (local_party s nonce) (peer_party s (PairingNonce bytes)) in
                (s\<lparr>ps_phase := AwaitingRevealed code (deadline_new now timeout) False\<rparr>, Inr (nonce_bytes nonce))))
      | _ \<Rightarrow> invalid s)"

definition receive_reveal ::
  "crypto \<Rightarrow> PairingSession \<Rightarrow> u8 list \<Rightarrow> nat \<Rightarrow> PairingSession \<times> (PairingError + unit)" where
  "receive_reveal c s reveal now =
     (case ps_phase s of
        AwaitingReveal commitment nonce deadline \<Rightarrow>
          if expired deadline now then invalid (terminal TimedOut s)
          else (case fixed 16 reveal of
             Inl e \<Rightarrow> (s, Inl (InvalidField ''nonce'' e))
           | Inr bytes \<Rightarrow>
               if \<not> opens_to c commitment (ps_peer_key s) (ps_local_key s) (PairingNonce bytes)
               then (terminal (Aborted CodeMismatch) s, Inl CommitmentMismatch)
               else (let code = derive_sas c (peer_party s (PairingNonce bytes)) (local_party s nonce) in
                     (s\<lparr>ps_phase := Prompted code deadline False False\<rparr>, Inr ())))
      | _ \<Rightarrow> invalid s)"

definition receive_revealed :: "PairingSession \<Rightarrow> nat \<Rightarrow> PairingSession \<times> (PairingError + unit)" where
  "receive_revealed s now =
     (case ps_phase s of
        AwaitingRevealed code deadline peer_confirmed \<Rightarrow>
          if expired deadline now then invalid (terminal TimedOut s)
          else (s\<lparr>ps_phase := Prompted code deadline False peer_confirmed\<rparr>, Inr ())
      | _ \<Rightarrow> invalid s)"

section \<open>Confirming and ending\<close>

datatype PairResult = PR_Paired | PR_PendingLocal | PR_Rejected | PR_Timeout
datatype ConfirmationSide = Local | Peer

text \<open>The list is the keys handed to the store that it persisted.\<close>

definition confirm_prompted ::
  "PairingSession \<Rightarrow> ConfirmationSide \<Rightarrow> nat \<Rightarrow> bool \<Rightarrow> PairingSession \<times> PublicKey list \<times> (PairingError + PairResult)"
  where
  "confirm_prompted s side now stores =
     (case ps_phase s of
        Prompted code deadline local peer \<Rightarrow>
          if expired deadline now then (terminal TimedOut s, [], Inr PR_Timeout)
          else (let local = (local \<or> side = Local); peer = (peer \<or> side = Peer);
                    s = s\<lparr>ps_phase := Prompted code deadline local peer\<rparr> in
                if local \<and> peer
                then (if stores then (terminal Paired s, [ps_peer_key s], Inr PR_Paired)
                      else (s, [], Inl Persistence))
                else (s, [], Inr PR_PendingLocal))
      | _ \<Rightarrow> (case invalid s of (s, e) \<Rightarrow> (s, [], e)))"

definition pair_confirm ::
  "PairingSession \<Rightarrow> ConfirmationSide \<Rightarrow> nat \<Rightarrow> bool \<Rightarrow> PairingSession \<times> PublicKey list \<times> (PairingError + PairResult)"
  where
  "pair_confirm s side now stores =
     (if ps_phase s = Paired then (s, [], Inr PR_Paired)
      else if side = Peer then
        (case ps_phase s of
           Rejected \<Rightarrow> (s, [], Inr PR_Rejected)
         | TimedOut \<Rightarrow> (s, [], Inr PR_Timeout)
         | AwaitingRevealed code deadline _ \<Rightarrow>
             if expired deadline now then (terminal TimedOut s, [], Inr PR_Timeout)
             else (s\<lparr>ps_phase := AwaitingRevealed code deadline True\<rparr>, [], Inr PR_PendingLocal)
         | _ \<Rightarrow> confirm_prompted s side now stores)
      else confirm_prompted s side now stores)"

definition result_known :: "int \<Rightarrow> PairResult option" where
  "result_known n = (if n = 1 then Some PR_Paired else if n = 2 then Some PR_PendingLocal
     else if n = 3 then Some PR_Rejected else if n = 4 then Some PR_Timeout else None)"

definition receive_outcome :: "PairingSession \<Rightarrow> int \<Rightarrow> PairingSession \<times> (PairingError + unit)" where
  "receive_outcome s outcome =
     (case result_known outcome of
        Some PR_Paired \<Rightarrow>
          (case ps_phase s of
             Paired \<Rightarrow> (s, Inr ())
           | Prompted _ _ local _ \<Rightarrow> if local then (s, Inr ()) else invalid s
           | _ \<Rightarrow> invalid s)
      | Some PR_PendingLocal \<Rightarrow>
          if ps_phase s = Paired \<or> ensure_prompted s then (s, Inr ()) else invalid s
      | Some PR_Rejected \<Rightarrow> if ensure_prompted s then (terminal Rejected s, Inr ()) else invalid s
      | Some PR_Timeout \<Rightarrow> if ensure_prompted s then (terminal TimedOut s, Inr ()) else invalid s
      | None \<Rightarrow> (s, Inl (InvalidEnum outcome)))"

definition pair_reject :: "PairingSession \<Rightarrow> PairingSession \<times> (PairingError + PairResult)" where
  "pair_reject s = (if ensure_active s then (terminal Rejected s, Inr PR_Rejected) else invalid s)"

definition pair_abort :: "PairingSession \<Rightarrow> PairingAbortReason \<Rightarrow> PairingSession \<times> (PairingError + PairingAbortReason)" where
  "pair_abort s reason = (if ensure_active s then (terminal (Aborted reason) s, Inr reason) else invalid s)"

definition abort_reason :: "int \<Rightarrow> PairingAbortReason option" where
  "abort_reason n = (if n = 1 then Some UserCancelled else if n = 2 then Some CodeMismatch
     else if n = 3 then Some AbortTimeout else None)"

definition receive_abort :: "PairingSession \<Rightarrow> int \<Rightarrow> PairingSession \<times> (PairingError + unit)" where
  "receive_abort s reason =
     (if \<not> ensure_active s then invalid s
      else case abort_reason reason of
        None \<Rightarrow> (s, Inl (InvalidEnum reason))
      | Some r \<Rightarrow> (terminal (Aborted r) s, Inr ()))"

definition running_deadline :: "PairingSession \<Rightarrow> Deadline option" where
  "running_deadline s =
     (case ps_phase s of
        AwaitingReveal _ _ d \<Rightarrow> Some d | AwaitingRevealed _ d _ \<Rightarrow> Some d | Prompted _ d _ _ \<Rightarrow> Some d | _ \<Rightarrow> None)"

definition check_timeout :: "PairingSession \<Rightarrow> nat \<Rightarrow> PairingSession \<times> PairResult option" where
  "check_timeout s now =
     (case running_deadline s of
        None \<Rightarrow> (s, None)
      | Some d \<Rightarrow> if expired d now then (terminal TimedOut s, Some PR_Timeout) else (s, None))"

section \<open>The ceremony as a state machine\<close>

datatype PairEvent =
    EvStart PairingNonce
  | EvReceiveStart "u8 list" PairingNonce nat "nat option"
  | EvPrompted "u32 \<times> u8 list" nat
  | EvReveal "u8 list" nat
  | EvRevealed nat
  | EvConfirm ConfirmationSide nat bool
  | EvOutcome int
  | EvReject
  | EvAbort PairingAbortReason
  | EvReceiveAbort int
  | EvTimeout nat

text \<open>Every method of the session, and the keys it hands to the store.\<close>

definition session_step :: "crypto \<Rightarrow> PairingSession \<Rightarrow> PairEvent \<Rightarrow> PairingSession \<times> PublicKey list" where
  "session_step c s ev =
     (case ev of
        EvStart nonce \<Rightarrow> (fst (pair_start c s nonce), [])
      | EvReceiveStart start nonce now timeout \<Rightarrow> (fst (receive_start s start nonce now timeout), [])
      | EvPrompted prompted now \<Rightarrow> (fst (receive_prompted c s prompted now), [])
      | EvReveal reveal now \<Rightarrow> (fst (receive_reveal c s reveal now), [])
      | EvRevealed now \<Rightarrow> (fst (receive_revealed s now), [])
      | EvConfirm side now stores \<Rightarrow> (case pair_confirm s side now stores of (s', keys, _) \<Rightarrow> (s', keys))
      | EvOutcome outcome \<Rightarrow> (fst (receive_outcome s outcome), [])
      | EvReject \<Rightarrow> (fst (pair_reject s), [])
      | EvAbort reason \<Rightarrow> (fst (pair_abort s reason), [])
      | EvReceiveAbort reason \<Rightarrow> (fst (receive_abort s reason), [])
      | EvTimeout now \<Rightarrow> (fst (check_timeout s now), []))"

text \<open>A session with its key store and the history: each event beside the code on display before it.\<close>

record PairWorld =
  pw_session :: PairingSession
  pw_stored :: "PublicKey list"
  pw_history :: "(SasCode option \<times> PairEvent) list"

definition pair_world_init :: "PairWorld \<Rightarrow> bool" where
  "pair_world_init w \<longleftrightarrow>
     ps_role (pw_session w) = None \<and> ps_phase (pw_session w) = Idle \<and> pw_stored w = [] \<and> pw_history w = []"

definition pair_world_step :: "crypto \<Rightarrow> PairWorld \<Rightarrow> PairEvent \<Rightarrow> PairWorld option" where
  "pair_world_step c w ev =
     (case session_step c (pw_session w) ev of
        (s, keys) \<Rightarrow> Some \<lparr>pw_session = s, pw_stored = pw_stored w @ keys,
                           pw_history = pw_history w @ [(sas_code (pw_session w), ev)]\<rparr>)"

definition phase_rank :: "Phase \<Rightarrow> nat" where
  "phase_rank p =
     (case p of
        Idle \<Rightarrow> 0 | AwaitingPrompt _ \<Rightarrow> 1 | AwaitingReveal _ _ _ \<Rightarrow> 1
      | AwaitingRevealed _ _ peer \<Rightarrow> 2 + of_bool peer
      | Prompted _ _ l p \<Rightarrow> 4 + of_bool l + of_bool p
      | _ \<Rightarrow> 7)"

definition is_terminal :: "PairingSession \<Rightarrow> bool" where
  "is_terminal s \<longleftrightarrow> phase_rank (ps_phase s) = 7"

fun session_changes :: "crypto \<Rightarrow> PairingSession \<Rightarrow> PairEvent list \<Rightarrow> nat" where
  "session_changes c s [] = 0"
| "session_changes c s (ev # evs) =
     (let s' = fst (session_step c s ev) in of_bool (s' \<noteq> s) + session_changes c s' evs)"

fun session_run :: "crypto \<Rightarrow> PairingSession \<Rightarrow> PairEvent list \<Rightarrow> PairingSession" where
  "session_run c s [] = s"
| "session_run c s (ev # evs) = session_run c (fst (session_step c s ev)) evs"

lemmas session_op_defs =
  pair_start_def receive_start_def receive_prompted_def receive_reveal_def receive_revealed_def
  pair_confirm_def confirm_prompted_def receive_outcome_def pair_reject_def pair_abort_def
  receive_abort_def check_timeout_def running_deadline_def ensure_active_def ensure_prompted_def
  invalid_def terminal_def

section \<open>The ceremony ends\<close>

lemma phase_rank_le: "phase_rank p \<le> 7"
  by (cases p) (auto simp: phase_rank_def)

lemma step_ranks:
  "fst (session_step c s ev) = s \<or> phase_rank (ps_phase s) < phase_rank (ps_phase (fst (session_step c s ev)))"
  by (cases "ps_phase s"; cases ev)
    (auto simp: session_step_def session_op_defs phase_rank_def Let_def fixed_def
      split: option.splits PairResult.splits ConfirmationSide.splits)

lemma terminal_absorbs: "is_terminal s \<Longrightarrow> fst (session_step c s ev) = s"
  using step_ranks [of c s ev] phase_rank_le [of "ps_phase (fst (session_step c s ev))"]
  by (auto simp: is_terminal_def)

lemma changes_bound: "session_changes c s evs + phase_rank (ps_phase s) \<le> 7"
proof (induction evs arbitrary: s)
  case (Cons ev evs)
  show ?case
    using step_ranks [of c s ev] Cons.IH [of "fst (session_step c s ev)"] by (auto simp: Let_def)
qed (simp add: phase_rank_le)

lemma terminal_run: "is_terminal s \<Longrightarrow> session_run c s evs = s"
  by (induction evs) (auto simp: terminal_absorbs)

lemma timeout_terminates:
  "running_deadline s = Some d \<Longrightarrow> dl_at d \<le> now \<Longrightarrow> is_terminal (fst (check_timeout s now))"
  by (auto simp: check_timeout_def expired_def terminal_def is_terminal_def phase_rank_def)

text \<open>C28: the ceremony terminates. Whatever the users, the peer and the clock do, a session changes
  at most seven times; a finished one (paired, rejected, timed out or aborted) never changes again;
  and once its deadline has passed, one look at the clock finishes it.\<close>

theorem pairing_ends:
  "session_changes c s evs \<le> 7
   \<and> (is_terminal s \<longrightarrow> session_run c s evs = s)
   \<and> (running_deadline s = Some d \<longrightarrow> dl_at d \<le> now \<longrightarrow>
        is_terminal (fst (check_timeout s now)) \<and> snd (check_timeout s now) = Some PR_Timeout
        \<and> session_run c (fst (check_timeout s now)) evs = fst (check_timeout s now))"
proof (intro conjI impI)
  show "session_changes c s evs \<le> 7"
    using changes_bound [of c s evs] by simp
  assume "is_terminal s"
  then show "session_run c s evs = s"
    by (rule terminal_run)
next
  assume d: "running_deadline s = Some d" "dl_at d \<le> now"
  show "is_terminal (fst (check_timeout s now))"
    using d by (rule timeout_terminates)
  then show "session_run c (fst (check_timeout s now)) evs = fst (check_timeout s now)"
    by (rule terminal_run)
  show "snd (check_timeout s now) = Some PR_Timeout"
    using d by (simp add: check_timeout_def expired_def)
qed

section \<open>Trust needs both users and the committed nonce\<close>

text \<open>
  What the displayed code is computed from. The initiator started with its nonce and was prompted
  with the peer's; the responder got a commitment first and a nonce that opens it later.
\<close>

definition code_from_start :: "crypto \<Rightarrow> PairingSession \<Rightarrow> PairEvent set \<Rightarrow> SasCode \<Rightarrow> bool" where
  "code_from_start c s evs code \<longleftrightarrow>
     ps_role s = Some Initiator
     \<and> (\<exists>own t peer now. EvStart own \<in> evs \<and> EvPrompted (t, peer) now \<in> evs
          \<and> code = derive_sas c (local_party s own) (peer_party s (PairingNonce peer)))"

definition code_from_commitment :: "crypto \<Rightarrow> PairingSession \<Rightarrow> PairEvent set \<Rightarrow> SasCode \<Rightarrow> bool" where
  "code_from_commitment c s evs code \<longleftrightarrow>
     ps_role s = Some Responder
     \<and> (\<exists>own start peer now1 timeout now2.
          EvReceiveStart start own now1 timeout \<in> evs \<and> EvReveal peer now2 \<in> evs
          \<and> opens_to c (NonceCommitment start) (ps_peer_key s) (ps_local_key s) (PairingNonce peer)
          \<and> code = derive_sas c (peer_party s (PairingNonce peer)) (local_party s own))"

definition code_bound :: "crypto \<Rightarrow> PairWorld \<Rightarrow> SasCode \<Rightarrow> bool" where
  "code_bound c w code \<longleftrightarrow>
     code_from_start c (pw_session w) (snd ` set (pw_history w)) code
     \<or> code_from_commitment c (pw_session w) (snd ` set (pw_history w)) code"

definition peer_said_yes :: "PairWorld \<Rightarrow> bool" where
  "peer_said_yes w \<longleftrightarrow> (\<exists>now stores. EvConfirm Peer now stores \<in> snd ` set (pw_history w))"

definition user_said_yes :: "PairWorld \<Rightarrow> SasCode \<Rightarrow> bool" where
  "user_said_yes w code \<longleftrightarrow> (\<exists>now stores. (Some code, EvConfirm Local now stores) \<in> set (pw_history w))"

definition pairing_progress :: "crypto \<Rightarrow> PairWorld \<Rightarrow> bool" where
  "pairing_progress c w \<longleftrightarrow>
     (case ps_phase (pw_session w) of
          AwaitingPrompt own \<Rightarrow>
            ps_role (pw_session w) = Some Initiator \<and> EvStart own \<in> snd ` set (pw_history w)
        | AwaitingReveal commitment own _ \<Rightarrow>
            ps_role (pw_session w) = Some Responder
            \<and> (\<exists>now timeout. EvReceiveStart (commitment_bytes commitment) own now timeout
                  \<in> snd ` set (pw_history w))
        | AwaitingRevealed code _ peer \<Rightarrow> code_bound c w code \<and> (peer \<longrightarrow> peer_said_yes w)
        | Prompted code _ l p \<Rightarrow>
            code_bound c w code \<and> (l \<longrightarrow> user_said_yes w code) \<and> (p \<longrightarrow> peer_said_yes w)
        | Paired \<Rightarrow> \<exists>code. code_bound c w code \<and> user_said_yes w code \<and> peer_said_yes w
        | _ \<Rightarrow> True)"

definition pairing_inv :: "crypto \<Rightarrow> PairWorld \<Rightarrow> bool" where
  "pairing_inv c w \<longleftrightarrow>
     pw_stored w = (if ps_phase (pw_session w) = Paired then [ps_peer_key (pw_session w)] else [])
     \<and> pairing_progress c w"

definition same_binding :: "PairingSession \<Rightarrow> PairingSession \<Rightarrow> bool" where
  "same_binding s s' \<longleftrightarrow>
     ps_role s' = ps_role s \<and> is_bound_to s' (ps_local_key s) (ps_peer_key s) (ps_local_hello s) (ps_peer_hello s)"

lemma code_from_start_mono:
  assumes "code_from_start c s evs code" "same_binding s s'" "evs \<subseteq> evs'"
  shows "code_from_start c s' evs' code"
proof -
  have "local_party s' = local_party s" "peer_party s' = peer_party s"
    using assms(2) by (auto simp: same_binding_def is_bound_to_def local_party_def peer_party_def)
  then show ?thesis
    using assms unfolding code_from_start_def same_binding_def by auto blast
qed

lemma code_from_commitment_mono:
  assumes "code_from_commitment c s evs code" "same_binding s s'" "evs \<subseteq> evs'"
  shows "code_from_commitment c s' evs' code"
proof -
  have "local_party s' = local_party s" "peer_party s' = peer_party s"
    using assms(2) by (auto simp: same_binding_def is_bound_to_def local_party_def peer_party_def)
  moreover have "ps_role s' = ps_role s" "ps_local_key s' = ps_local_key s" "ps_peer_key s' = ps_peer_key s"
    using assms(2) by (auto simp: same_binding_def is_bound_to_def)
  ultimately show ?thesis
    using assms(1,3) unfolding code_from_commitment_def by auto blast
qed

lemma code_bound_mono:
  assumes "code_bound c w code" "same_binding (pw_session w) s"
  shows "code_bound c \<lparr>pw_session = s, pw_stored = keys, pw_history = pw_history w @ [x]\<rparr> code"
proof -
  have sub: "snd ` set (pw_history w) \<subseteq> snd ` set (pw_history w @ [x])"
    by auto
  show ?thesis
    using assms(1) code_from_start_mono [OF _ assms(2) sub] code_from_commitment_mono [OF _ assms(2) sub]
    by (auto simp: code_bound_def)
qed

lemma peer_said_yes_mono:
  "peer_said_yes w \<Longrightarrow> peer_said_yes \<lparr>pw_session = s, pw_stored = keys, pw_history = pw_history w @ [x]\<rparr>"
  by (auto simp: peer_said_yes_def)

lemma user_said_yes_mono:
  "user_said_yes w code \<Longrightarrow>
   user_said_yes \<lparr>pw_session = s, pw_stored = keys, pw_history = pw_history w @ [x]\<rparr> code"
  by (auto simp: user_said_yes_def)

lemmas said_mono = code_bound_mono peer_said_yes_mono user_said_yes_mono

text \<open>The steps that move the ceremony forward, one fact each.\<close>

definition pw_next :: "crypto \<Rightarrow> PairWorld \<Rightarrow> PairEvent \<Rightarrow> PairWorld" where
  "pw_next c w ev = the (pair_world_step c w ev)"

lemma pw_next_eq:
  "pw_next c w ev = \<lparr>pw_session = fst (session_step c (pw_session w) ev),
     pw_stored = pw_stored w @ snd (session_step c (pw_session w) ev),
     pw_history = pw_history w @ [(sas_code (pw_session w), ev)]\<rparr>"
  by (simp add: pw_next_def pair_world_step_def split: prod.splits)

lemma pair_world_step_next: "pair_world_step c w ev = Some w' \<Longrightarrow> w' = pw_next c w ev"
  by (simp add: pw_next_def)

lemma pw_next_sel [simp]:
  "pw_session (pw_next c w ev) = fst (session_step c (pw_session w) ev)"
  "pw_stored (pw_next c w ev) = pw_stored w @ snd (session_step c (pw_session w) ev)"
  "pw_history (pw_next c w ev) = pw_history w @ [(sas_code (pw_session w), ev)]"
  by (simp_all add: pw_next_eq)

lemma step_binding:
  "ps_phase s \<noteq> Idle \<Longrightarrow> same_binding s (fst (session_step c s ev))"
  by (cases "ps_phase s"; cases ev)
    (auto simp: session_step_def session_op_defs same_binding_def is_bound_to_def Let_def fixed_def
      split: option.splits PairResult.splits ConfirmationSide.splits)

lemma pw_next_keeps:
  assumes "ps_phase (pw_session w) \<noteq> Idle"
  shows "code_bound c w code \<Longrightarrow> code_bound c (pw_next c w ev) code"
    and "peer_said_yes w \<Longrightarrow> peer_said_yes (pw_next c w ev)"
    and "user_said_yes w code \<Longrightarrow> user_said_yes (pw_next c w ev) code"
  using step_binding [OF assms] unfolding pw_next_eq by (auto intro: said_mono)

lemma step_stores:
  "snd (session_step c s ev) =
     (if ps_phase s \<noteq> Paired \<and> ps_phase (fst (session_step c s ev)) = Paired then [ps_peer_key s] else [])"
  by (cases "ps_phase s"; cases ev)
    (auto simp: session_step_def session_op_defs Let_def fixed_def
      split: option.splits PairResult.splits ConfirmationSide.splits)

lemma next_of_start:
  assumes "ps_phase (pw_session w) = Idle"
  shows "pairing_progress c (pw_next c w ev)"
  using assms
  by (cases ev) (auto simp: pairing_progress_def session_step_def session_op_defs fixed_def Let_def
      split: option.splits PairResult.splits ConfirmationSide.splits)

lemma next_bound_initiator:
  assumes "ps_phase (pw_session w) = AwaitingPrompt own" "ps_role (pw_session w) = Some Initiator"
    "EvStart own \<in> snd ` set (pw_history w)" "length (snd prompted) = 16"
    "code = derive_sas c (local_party (pw_session w) own) (peer_party (pw_session w) (PairingNonce (snd prompted)))"
  shows "code_bound c (pw_next c w (EvPrompted prompted now)) code"
proof -
  have same: "same_binding (pw_session w) (fst (session_step c (pw_session w) (EvPrompted prompted now)))"
    using assms(1) by (intro step_binding) simp
  have "code_from_start c (pw_session w) (insert (EvPrompted prompted now) (snd ` set (pw_history w))) code"
    unfolding code_from_start_def
    using assms by (intro conjI exI [of _ own] exI [of _ "fst prompted"] exI [of _ "snd prompted"] exI [of _ now]) auto
  from code_from_start_mono [OF this same subset_refl] show ?thesis
    by (simp add: code_bound_def)
qed

lemma next_bound_responder:
  assumes "ps_phase (pw_session w) = AwaitingReveal commitment own d" "ps_role (pw_session w) = Some Responder"
    "EvReceiveStart (commitment_bytes commitment) own now1 timeout \<in> snd ` set (pw_history w)"
    "opens_to c commitment (ps_peer_key (pw_session w)) (ps_local_key (pw_session w)) (PairingNonce reveal)"
    "code = derive_sas c (peer_party (pw_session w) (PairingNonce reveal)) (local_party (pw_session w) own)"
  shows "code_bound c (pw_next c w (EvReveal reveal now)) code"
proof -
  have same: "same_binding (pw_session w) (fst (session_step c (pw_session w) (EvReveal reveal now)))"
    using assms(1) by (intro step_binding) simp
  have "code_from_commitment c (pw_session w) (insert (EvReveal reveal now) (snd ` set (pw_history w))) code"
    unfolding code_from_commitment_def
    using assms by (intro conjI exI [of _ own] exI [of _ "commitment_bytes commitment"] exI [of _ reveal]
        exI [of _ now1] exI [of _ timeout] exI [of _ now]) auto
  from code_from_commitment_mono [OF this same subset_refl] show ?thesis
    by (simp add: code_bound_def)
qed

lemma next_of_prompt:
  assumes "ps_phase (pw_session w) = AwaitingPrompt own" "pairing_progress c w"
  shows "pairing_progress c (pw_next c w ev)"
proof -
  have w: "ps_role (pw_session w) = Some Initiator" "EvStart own \<in> snd ` set (pw_history w)"
    using assms by (simp_all add: pairing_progress_def)
  show ?thesis
    using assms(1) w next_bound_initiator [OF assms(1) w _ refl]
    by (cases ev) (auto simp: pairing_progress_def session_step_def session_op_defs fixed_def Let_def
      split: option.splits PairResult.splits ConfirmationSide.splits)
qed

lemma next_of_reveal:
  assumes "ps_phase (pw_session w) = AwaitingReveal commitment own d" "pairing_progress c w"
  shows "pairing_progress c (pw_next c w ev)"
proof -
  obtain now1 timeout where w: "ps_role (pw_session w) = Some Responder"
      "EvReceiveStart (commitment_bytes commitment) own now1 timeout \<in> snd ` set (pw_history w)"
    using assms by (auto simp: pairing_progress_def)
  show ?thesis
    using assms(1) w next_bound_responder [OF assms(1) w _ refl]
    by (cases ev) (auto simp: pairing_progress_def session_step_def session_op_defs fixed_def Let_def
      split: option.splits PairResult.splits ConfirmationSide.splits)
qed

lemma next_of_revealed:
  assumes "ps_phase (pw_session w) = AwaitingRevealed code d peer" "pairing_progress c w"
  shows "pairing_progress c (pw_next c w ev)"
proof -
  have n: "ps_phase (pw_session w) \<noteq> Idle" and w: "code_bound c w code" "peer \<Longrightarrow> peer_said_yes w"
    using assms by (simp_all add: pairing_progress_def)
  have yes: "\<And>now stores. ev = EvConfirm Peer now stores \<Longrightarrow> peer_said_yes (pw_next c w ev)"
    by (auto simp: peer_said_yes_def)
  show ?thesis
    using assms(1) pw_next_keeps(1) [OF n w(1), of ev] pw_next_keeps(2) [OF n w(2), of c ev] yes
    by (cases ev) (auto simp: pairing_progress_def session_step_def session_op_defs fixed_def Let_def
      split: option.splits PairResult.splits ConfirmationSide.splits)
qed

lemma next_of_prompted:
  assumes "ps_phase (pw_session w) = Prompted code d l p" "pairing_progress c w"
  shows "pairing_progress c (pw_next c w ev)"
proof -
  have n: "ps_phase (pw_session w) \<noteq> Idle" and w: "code_bound c w code"
      "l \<Longrightarrow> user_said_yes w code" "p \<Longrightarrow> peer_said_yes w"
    using assms by (simp_all add: pairing_progress_def)
  have peer: "\<And>now stores. ev = EvConfirm Peer now stores \<Longrightarrow> peer_said_yes (pw_next c w ev)"
    by (auto simp: peer_said_yes_def)
  have user: "\<And>now stores. ev = EvConfirm Local now stores \<Longrightarrow> user_said_yes (pw_next c w ev) code"
    using assms(1) by (auto simp: user_said_yes_def sas_code_def)
  note keeps = pw_next_keeps [OF n]
  show ?thesis
    using assms(1) keeps(1) [OF w(1), of ev] keeps(3) [OF w(2), of c ev] keeps(2) [OF w(3), of c ev] peer user
    by (cases ev) (auto simp: pairing_progress_def session_step_def session_op_defs fixed_def Let_def
      split: option.splits PairResult.splits ConfirmationSide.splits)
qed

lemma next_of_terminal:
  assumes "is_terminal (pw_session w)" "pairing_progress c w"
  shows "pairing_progress c (pw_next c w ev)"
proof -
  have n: "ps_phase (pw_session w) \<noteq> Idle"
    using assms(1) by (auto simp: is_terminal_def phase_rank_def)
  show ?thesis
    using assms terminal_absorbs [OF assms(1), of c ev] pw_next_keeps [OF n, where c = c and ev = ev]
    by (auto simp: pairing_progress_def is_terminal_def phase_rank_def split: Phase.splits)
qed

lemma next_progress: "pairing_progress c w \<Longrightarrow> pairing_progress c (pw_next c w ev)"
  by (cases "ps_phase (pw_session w)")
    (auto simp: is_terminal_def phase_rank_def
      intro: next_of_start next_of_prompt next_of_reveal next_of_revealed next_of_prompted next_of_terminal)

lemma paired_stays: "ps_phase s = Paired \<Longrightarrow> fst (session_step c s ev) = s"
  by (intro terminal_absorbs) (simp add: is_terminal_def phase_rank_def)

lemma next_stored:
  assumes "pw_stored w = (if ps_phase (pw_session w) = Paired then [ps_peer_key (pw_session w)] else [])"
  shows "pw_stored (pw_next c w ev) =
    (if ps_phase (pw_session (pw_next c w ev)) = Paired then [ps_peer_key (pw_session (pw_next c w ev))] else [])"
proof (cases "ps_phase (pw_session w) = Paired")
  case True
  then show ?thesis
    using assms paired_stays [OF True] by (simp add: step_stores)
next
  case False
  have "ps_phase (pw_session w) \<noteq> Idle \<Longrightarrow>
      ps_peer_key (fst (session_step c (pw_session w) ev)) = ps_peer_key (pw_session w)"
    using step_binding [of "pw_session w" c ev] by (simp add: same_binding_def is_bound_to_def)
  moreover have "ps_phase (pw_session w) = Idle \<Longrightarrow> ps_phase (fst (session_step c (pw_session w) ev)) \<noteq> Paired"
    by (cases ev) (auto simp: session_step_def session_op_defs fixed_def Let_def
      split: option.splits PairResult.splits ConfirmationSide.splits)
  ultimately show ?thesis
    using assms False by (cases "ps_phase (pw_session w) = Idle") (auto simp: step_stores)
qed

interpretation pairing: invariant_system pair_world_init "pair_world_step c" "pairing_inv c" for c
proof
  show "pairing_inv c w" if "pair_world_init w" for w
    using that by (simp add: pairing_inv_def pair_world_init_def pairing_progress_def)
  show "pairing_inv c w'" if "pairing_inv c w" "pair_world_step c w ev = Some w'" for w ev w'
    using that pair_world_step_next [OF that(2)] next_progress [of c w ev] next_stored [of w c ev]
    unfolding pairing_inv_def by blast
qed

text \<open>C26: trust takes both users and an opened commitment. However messages, users and the clock
  interleave, a session has stored a key exactly when it is paired, and then it is the key of the
  peer on the connection, once; its user confirmed a code while that code was on display, the peer
  confirmed, and the code was computed, for the initiator, from the nonce it committed to at the
  start and the one it was prompted with, and for the responder from its own nonce and a nonce that
  opens the commitment it received before revealing its own.\<close>

theorem paired_is_authenticated:
  assumes "reach pair_world_init (pair_world_step c) w"
  shows "pw_stored w = (if ps_phase (pw_session w) = Paired then [ps_peer_key (pw_session w)] else [])
    \<and> (ps_phase (pw_session w) = Paired \<longrightarrow>
         (\<exists>code. user_said_yes w code \<and> peer_said_yes w \<and> code_bound c w code))
    \<and> (\<forall>code. sas_code (pw_session w) = Some code \<longrightarrow> code_bound c w code)"
  using pairing.reachable_inv [OF assms]
  by (auto simp: pairing_inv_def pairing_progress_def sas_code_def split: Phase.splits)

section \<open>Two honest computers pair\<close>

text \<open>The exchange of \<^verbatim>\<open>pairing.rs\<close>'s overview with every message delivered: the commitment and the
  two nonces. \<open>t1\<close> to \<open>t4\<close> are the instants at which the four messages arrive.\<close>

definition exchange ::
  "crypto \<Rightarrow> PairingSession \<Rightarrow> PairingSession \<Rightarrow> PairingNonce \<Rightarrow> PairingNonce \<Rightarrow> nat option
   \<Rightarrow> nat \<Rightarrow> nat \<Rightarrow> nat \<Rightarrow> nat \<Rightarrow> (PairingSession \<times> PairingSession) option" where
  "exchange c a b nonce_a nonce_b timeout t1 t2 t3 t4 =
     (case pair_start c a nonce_a of
        (a, Inr start) \<Rightarrow> (case receive_start b start nonce_b t1 timeout of
          (b, Inr prompted) \<Rightarrow> (case receive_prompted c a prompted t2 of
            (a, Inr reveal) \<Rightarrow> (case receive_reveal c b reveal t3 of
              (b, Inr _) \<Rightarrow> (case receive_revealed a t4 of
                (a, Inr _) \<Rightarrow> Some (a, b)
              | _ \<Rightarrow> None)
            | _ \<Rightarrow> None)
          | _ \<Rightarrow> None)
        | _ \<Rightarrow> None)
      | _ \<Rightarrow> None)"

definition confirm_both :: "PairingSession \<Rightarrow> ConfirmationSide \<Rightarrow> ConfirmationSide \<Rightarrow> nat \<Rightarrow> nat
   \<Rightarrow> PairingState \<times> PublicKey list" where
  "confirm_both s side1 side2 t5 t6 =
     (case pair_confirm s side1 t5 True of
        (s, keys1, _) \<Rightarrow> (case pair_confirm s side2 t6 True of (s, keys2, _) \<Rightarrow> (session_state s, keys1 @ keys2)))"

lemma u32_saturate: "n < 2 ^ 32 \<Longrightarrow> unat (word_of_nat n :: u32) = n"
  by (simp add: unat_of_nat take_bit_nat_eq_self)

lemma deadline_at:
  assumes "timeout div 1000000 < 2 ^ 32"
  shows "dl_at (deadline_new now timeout) = now + timeout div 1000000 * 1000000"
    and "unat (dl_timeout_ms (deadline_new now timeout)) = timeout div 1000000"
  using assms by (simp_all add: deadline_new_def u32_saturate Let_def)

lemma sender_nonce_opens: "opens_to c (nonce_commit c i r n) i r n"
  by (simp add: opens_to_def)

lemma confirm_both_pairs:
  assumes "ps_phase s = Prompted code d False False" "side1 \<noteq> side2" "t5 < dl_at d" "t6 < dl_at d"
  shows "confirm_both s side1 side2 t5 t6 = (StPaired, [ps_peer_key s])"
  using assms
  by (cases side1; cases side2)
    (simp_all add: confirm_both_def pair_confirm_def confirm_prompted_def expired_def terminal_def session_state_def)

lemma exchange_prompts:
  assumes "\<And>x. length (cr_sha256 c x) = 32" "length (nonce_bytes nonce_a) = 16" "length (nonce_bytes nonce_b) = 16"
    "ps_phase a = Idle" "ps_phase b = Idle" "ps_peer_key b = ps_local_key a" "ps_peer_key a = ps_local_key b"
    "1000000 \<le> timeout" "timeout div 1000000 < 2 ^ 32"
    "t3 < t1 + timeout div 1000000 * 1000000" "t4 < t2 + timeout div 1000000 * 1000000"
  shows "\<exists>d\<^sub>a d\<^sub>b. exchange c a b nonce_a nonce_b (Some timeout) t1 t2 t3 t4 =
    Some (a\<lparr>ps_role := Some Initiator, ps_phase := Prompted (derive_sas c (local_party a nonce_a)
              (peer_party a nonce_b)) d\<^sub>a False False\<rparr>,
          b\<lparr>ps_role := Some Responder, ps_phase := Prompted (derive_sas c (peer_party b nonce_a)
              (local_party b nonce_b)) d\<^sub>b False False\<rparr>)
    \<and> dl_at d\<^sub>a = t2 + timeout div 1000000 * 1000000 \<and> dl_at d\<^sub>b = t1 + timeout div 1000000 * 1000000"
proof -
  define db where "db = deadline_new t1 timeout"
  have db: "dl_at db = t1 + timeout div 1000000 * 1000000" "unat (dl_timeout_ms db) = timeout div 1000000"
    using deadline_at [OF assms(9)] by (simp_all add: db_def)
  have nz: "dl_timeout_ms db \<noteq> 0"
    using db(2) assms(8) by (metis div_greater_zero_iff less_numeral_extra(3) unat_0 zero_less_numeral)
  define da where "da = deadline_new t2 (unat (dl_timeout_ms db) * 1000000)"
  have da: "dl_at da = t2 + timeout div 1000000 * 1000000"
    using assms(9) by (simp add: da_def db(2) deadline_at)
  have len: "length (commitment_bytes (nonce_commit c i r n)) = 32" for i r n
    using assms(1) by (simp add: nonce_commit_def)
  have "exchange c a b nonce_a nonce_b (Some timeout) t1 t2 t3 t4 =
    Some (a\<lparr>ps_role := Some Initiator, ps_phase := Prompted (derive_sas c (local_party a nonce_a)
              (peer_party a nonce_b)) da False False\<rparr>,
          b\<lparr>ps_role := Some Responder, ps_phase := Prompted (derive_sas c (peer_party b nonce_a)
              (local_party b nonce_b)) db False False\<rparr>)"
    using assms(2-7,10,11) nz db(1) da len
    by (simp add: exchange_def pair_start_def receive_start_def receive_prompted_def receive_reveal_def
        receive_revealed_def fixed_def Let_def expired_def sender_nonce_opens local_party_def peer_party_def
        flip: db_def da_def)
  then show ?thesis
    using db(1) da by blast
qed

lemma exchange_codes_agree:
  assumes "ps_local_key b = ps_peer_key a" "ps_peer_key b = ps_local_key a"
    "ps_local_hello b = ps_peer_hello a" "ps_peer_hello b = ps_local_hello a"
  shows "local_party b = peer_party a" "peer_party b = local_party a"
  using assms by (auto simp: local_party_def peer_party_def)

text \<open>C27: two honest computers pair. If the four messages and the two confirmations arrive before the
  responder's deadline, both sides show the same code, and whichever confirmation comes first, each
  side ends paired having stored exactly the other's key. Used of SHA-256: a digest has 32 bytes.\<close>

theorem honest_peers_pair:
  assumes sha: "\<forall>x. length (cr_sha256 c x) = 32"
    and nonces: "length (nonce_bytes nonce_a) = 16" "length (nonce_bytes nonce_b) = 16"
    and timeout: "1000000 \<le> timeout" "timeout div 1000000 < 2 ^ 32"
    and window: "window = timeout div 1000000 * 1000000" "t3 < t1 + window" "t4 < t2 + window"
  shows "\<exists>a b code.
    exchange c (session_new key_a key_b hello_a hello_b) (session_new key_b key_a hello_b hello_a)
      nonce_a nonce_b (Some timeout) t1 t2 t3 t4 = Some (a, b)
    \<and> sas_code a = Some code \<and> sas_code b = Some code
    \<and> (\<forall>side1 side2 t5 t6. side1 \<noteq> side2 \<longrightarrow> t5 < t2 + window \<longrightarrow> t6 < t2 + window \<longrightarrow>
         confirm_both a side1 side2 t5 t6 = (StPaired, [key_b]))
    \<and> (\<forall>side1 side2 t5 t6. side1 \<noteq> side2 \<longrightarrow> t5 < t1 + window \<longrightarrow> t6 < t1 + window \<longrightarrow>
         confirm_both b side1 side2 t5 t6 = (StPaired, [key_a]))"
proof -
  let ?a = "session_new key_a key_b hello_a hello_b" and ?b = "session_new key_b key_a hello_b hello_a"
  let ?code = "derive_sas c (local_party ?a nonce_a) (peer_party ?a nonce_b)"
  have parties: "local_party ?b = peer_party ?a" "peer_party ?b = local_party ?a"
    by (rule exchange_codes_agree; simp add: session_new_def)+
  obtain da db where ex: "exchange c ?a ?b nonce_a nonce_b (Some timeout) t1 t2 t3 t4 =
      Some (?a\<lparr>ps_role := Some Initiator, ps_phase := Prompted ?code da False False\<rparr>,
            ?b\<lparr>ps_role := Some Responder, ps_phase := Prompted ?code db False False\<rparr>)"
      and at: "dl_at da = t2 + window" "dl_at db = t1 + window"
    using exchange_prompts [of c nonce_a nonce_b ?a ?b timeout t3 t1 t4 t2] assms
    unfolding parties by (auto simp: session_new_def)
  show ?thesis
    by (intro exI [of _ "?a\<lparr>ps_role := Some Initiator, ps_phase := Prompted ?code da False False\<rparr>"]
        exI [of _ "?b\<lparr>ps_role := Some Responder, ps_phase := Prompted ?code db False False\<rparr>"]
        exI [of _ ?code] conjI allI impI ex)
      (simp_all add: sas_code_def confirm_both_pairs at, simp_all add: session_new_def)
qed

section \<open>Witnesses\<close>

definition zero_crypto :: crypto where
  "zero_crypto = \<lparr>cr_sha256 = \<lambda>_. replicate 32 0, cr_hkdf = \<lambda>_ ikm _ n. take n ikm\<rparr>"

definition key_of :: "u8 \<Rightarrow> PublicKey" where
  "key_of b = PublicKey (replicate 32 b)"

definition hello_of :: "u8 \<Rightarrow> HelloDigest" where
  "hello_of b = HelloDigest (replicate 32 b)"

definition nonce_of :: "u8 \<Rightarrow> PairingNonce" where
  "nonce_of b = PairingNonce (replicate 16 b)"

definition responder_world :: PairWorld where
  "responder_world = \<lparr>pw_session = session_new (key_of 2) (key_of 1) (hello_of 2) (hello_of 1),
     pw_stored = [], pw_history = []\<rparr>"

definition responder_events :: "PairEvent list" where
  "responder_events =
     [EvReceiveStart (replicate 32 0) (nonce_of 4) 0 (Some 5000000), EvReveal (nonce_bytes (nonce_of 3)) 1,
      EvConfirm Local 2 True, EvConfirm Peer 3 True, EvReject, EvConfirm Peer 4 True]"

theorem pairing_ends_witness:
  "session_changes zero_crypto (pw_session responder_world) responder_events \<le> 7
   \<and> session_run zero_crypto ((pw_session responder_world)\<lparr>ps_phase := TimedOut\<rparr>) responder_events
       = (pw_session responder_world)\<lparr>ps_phase := TimedOut\<rparr>
   \<and> snd (check_timeout ((pw_session responder_world)\<lparr>ps_phase :=
        AwaitingReveal (NonceCommitment []) (nonce_of 4) (deadline_new 0 1000000)\<rparr>) 1000000) = Some PR_Timeout"
proof -
  let ?w = "pw_session responder_world"
  let ?r = "?w\<lparr>ps_phase := AwaitingReveal (NonceCommitment []) (nonce_of 4) (deadline_new 0 1000000)\<rparr>"
  have d: "running_deadline ?r = Some (deadline_new 0 1000000)"
    by (simp add: running_deadline_def)
  have at: "dl_at (deadline_new 0 1000000) \<le> 1000000"
    by (simp add: deadline_at)
  have t: "is_terminal (?w\<lparr>ps_phase := TimedOut\<rparr>)"
    by (simp add: is_terminal_def phase_rank_def)
  show ?thesis
    using pairing_ends [of zero_crypto ?w responder_events]
      pairing_ends [of zero_crypto "?w\<lparr>ps_phase := TimedOut\<rparr>" responder_events] t
      pairing_ends [of zero_crypto ?r "[]" "deadline_new 0 1000000" 1000000] d at
    by simp
qed

lemma responder_run:
  "run (pair_world_step zero_crypto) responder_world responder_events =
     Some \<lparr>pw_session = (pw_session responder_world)\<lparr>ps_role := Some Responder, ps_phase := Paired\<rparr>,
       pw_stored = [key_of 1],
       pw_history = zip [None, None, Some (SasCode 843009), Some (SasCode 843009), None, None]
         responder_events\<rparr>"
  by code_simp

theorem paired_is_authenticated_witness:
  "\<exists>w code. reach pair_world_init (pair_world_step zero_crypto) w \<and> pw_stored w = [key_of 1]
     \<and> user_said_yes w code \<and> peer_said_yes w \<and> code_bound zero_crypto w code"
proof -
  have "reach pair_world_init (pair_world_step zero_crypto) responder_world"
    by (intro reach_init) (simp add: pair_world_init_def responder_world_def session_new_def)
  from reach_run [OF this responder_run]
  obtain w where w: "reach pair_world_init (pair_world_step zero_crypto) w"
      "ps_phase (pw_session w) = Paired" "ps_peer_key (pw_session w) = key_of 1"
    by (auto simp: responder_world_def session_new_def)
  from paired_is_authenticated [OF w(1)] w show ?thesis
    by auto
qed

theorem honest_peers_pair_witness:
  "\<exists>a b code.
    exchange zero_crypto (session_new (key_of 1) (key_of 2) (hello_of 1) (hello_of 2))
      (session_new (key_of 2) (key_of 1) (hello_of 2) (hello_of 1))
      (nonce_of 3) (nonce_of 4) (Some 5000000) 0 1 2 3 = Some (a, b)
    \<and> sas_code a = Some code \<and> sas_code b = Some code
    \<and> confirm_both a Peer Local 4 6 = (StPaired, [key_of 2])
    \<and> confirm_both b Local Peer 5 7 = (StPaired, [key_of 1])"
proof -
  have sha: "\<forall>x. length (cr_sha256 zero_crypto x) = 32"
    by (simp add: zero_crypto_def)
  have n: "length (nonce_bytes (nonce_of b)) = 16" for b
    by (simp add: nonce_of_def)
  from honest_peers_pair [of zero_crypto "nonce_of 3" "nonce_of 4" 5000000 5000000 2 0 3 1 "key_of 1" "key_of 2" "hello_of 1" "hello_of 2",
    OF sha n n]
  obtain a b code where ab: "exchange zero_crypto (session_new (key_of 1) (key_of 2) (hello_of 1) (hello_of 2))
      (session_new (key_of 2) (key_of 1) (hello_of 2) (hello_of 1))
      (nonce_of 3) (nonce_of 4) (Some 5000000) 0 1 2 3 = Some (a, b)"
      "sas_code a = Some code" "sas_code b = Some code"
    and pa: "\<And>side1 side2 t5 t6. side1 \<noteq> side2 \<Longrightarrow> t5 < 1 + 5000000 \<Longrightarrow> t6 < 1 + 5000000 \<Longrightarrow>
      confirm_both a side1 side2 t5 t6 = (StPaired, [key_of 2])"
    and pb: "\<And>side1 side2 t5 t6. side1 \<noteq> side2 \<Longrightarrow> t5 < 0 + 5000000 \<Longrightarrow> t6 < 0 + 5000000 \<Longrightarrow>
      confirm_both b side1 side2 t5 t6 = (StPaired, [key_of 1])"
    by auto
  from ab pa [of Peer Local 4 6] pb [of Local Peer 5 7] show ?thesis
    by simp
qed

end
