(* ===== verification/Inventory_Ledger.thy ===== *)
theory Inventory_Ledger
  imports Prelude
begin

text \<open>
  The probe-health ledger of the device inventory,
  \<^verbatim>\<open>crates/openlogi-device/src/inventory/ledger.rs\<close>: which inventory a HID node publishes when its
  check did not complete, and when its channel is dropped. The node key and the inventory are type
  variables, as the code only compares the one and clones the other; logging is left out.
\<close>

section \<open>The ledger\<close>

definition NODE_MISS_GRACE :: u8 where "NODE_MISS_GRACE = 3"
definition CHANNEL_EVICT_AFTER :: u8 where "CHANNEL_EVICT_AFTER = 2"
definition ARRIVAL_REPLAY_EVICT_AFTER :: u8 where "ARRIVAL_REPLAY_EVICT_AFTER = NODE_MISS_GRACE + 1"

record 'i SettledNode =
  sn_inventory :: "'i option"
  sn_evict_channel :: bool

record FailureCounts =
  fc_probe :: u8
  fc_arrival_replay :: u8
  fc_publication_misses :: u8

record ('k, 'i) NodeLedger =
  nl_last_good :: "'k \<rightharpoonup> 'i"
  nl_failures :: "'k \<rightharpoonup> FailureCounts"

datatype FailureKind = Probe | ArrivalReplay

definition counts_default :: FailureCounts where
  "counts_default = \<lparr>fc_probe = 0, fc_arrival_replay = 0, fc_publication_misses = 0\<rparr>"

definition ledger_default :: "('k, 'i) NodeLedger" where
  "ledger_default = \<lparr>nl_last_good = Map.empty, nl_failures = Map.empty\<rparr>"

text \<open>\<open>u8::saturating_add(1)\<close>.\<close>

definition saturating_inc :: "u8 \<Rightarrow> u8" where
  "saturating_inc n = (if n = 0xff then 0xff else n + 1)"

fun failure_record :: "FailureKind \<Rightarrow> FailureCounts \<Rightarrow> FailureCounts \<times> u8" where
  "failure_record Probe counts =
     (let counts = counts\<lparr>fc_probe := saturating_inc (fc_probe counts)\<rparr> in (counts, fc_probe counts))"
| "failure_record ArrivalReplay counts =
     (let counts = counts\<lparr>fc_probe := 0, fc_arrival_replay := saturating_inc (fc_arrival_replay counts)\<rparr> in
      (counts, fc_arrival_replay counts))"

definition reset_channel_failures_after_open :: "('k, 'i) NodeLedger \<Rightarrow> 'k \<Rightarrow> ('k, 'i) NodeLedger" where
  "reset_channel_failures_after_open l node =
     (case nl_failures l node of
        None \<Rightarrow> l
      | Some counts \<Rightarrow>
          l\<lparr>nl_failures := (nl_failures l)(node \<mapsto> counts\<lparr>fc_probe := 0, fc_arrival_replay := 0\<rparr>)\<rparr>)"

definition settle_failure ::
  "('k, 'i) NodeLedger \<Rightarrow> 'k \<Rightarrow> 'i option \<Rightarrow> u8 \<Rightarrow> FailureKind \<Rightarrow> ('k, 'i) NodeLedger \<times> 'i SettledNode" where
  "settle_failure l node live evict_after failure_kind =
     (let counts = (case nl_failures l node of None \<Rightarrow> counts_default | Some counts \<Rightarrow> counts);
          (counts, channel_failures) = failure_record failure_kind counts;
          counts = counts\<lparr>fc_publication_misses := saturating_inc (fc_publication_misses counts)\<rparr>;
          l = l\<lparr>nl_failures := (nl_failures l)(node \<mapsto> counts)\<rparr>;
          (l, inventory) =
            (if fc_publication_misses counts \<le> NODE_MISS_GRACE
             then (l, case nl_last_good l node of Some previous \<Rightarrow> Some previous | None \<Rightarrow> live)
             else (l\<lparr>nl_last_good := (nl_last_good l)(node := None)\<rparr>, live)) in
      (l, \<lparr>sn_inventory = inventory, sn_evict_channel = evict_after \<le> channel_failures\<rparr>))"

definition settle_arrival_replay_failure ::
  "('k, 'i) NodeLedger \<Rightarrow> 'k \<Rightarrow> ('k, 'i) NodeLedger \<times> 'i SettledNode" where
  "settle_arrival_replay_failure l node = settle_failure l node None ARRIVAL_REPLAY_EVICT_AFTER ArrivalReplay"

definition settle ::
  "('k, 'i) NodeLedger \<Rightarrow> 'k \<Rightarrow> bool \<Rightarrow> 'i option \<Rightarrow> ('k, 'i) NodeLedger \<times> 'i SettledNode" where
  "settle l node healthy live =
     (if healthy
      then (l\<lparr>nl_failures := (nl_failures l)(node := None), nl_last_good := (nl_last_good l)(node := live)\<rparr>,
            \<lparr>sn_inventory = live, sn_evict_channel = False\<rparr>)
      else settle_failure l node live CHANNEL_EVICT_AFTER Probe)"

definition defer_node :: "('k, 'i) NodeLedger \<Rightarrow> 'k \<Rightarrow> 'i SettledNode" where
  "defer_node l node = \<lparr>sn_inventory = nl_last_good l node, sn_evict_channel = False\<rparr>"

definition retain_nodes :: "('k, 'i) NodeLedger \<Rightarrow> 'k set \<Rightarrow> ('k, 'i) NodeLedger" where
  "retain_nodes l seen =
     l\<lparr>nl_last_good := (\<lambda>node. if node \<in> seen then nl_last_good l node else None),
       nl_failures := (\<lambda>node. if node \<in> seen then nl_failures l node else None)\<rparr>"

definition contains_last_good :: "('k, 'i) NodeLedger \<Rightarrow> 'k \<Rightarrow> bool" where
  "contains_last_good l node \<longleftrightarrow> nl_last_good l node \<noteq> None"

section \<open>The ledger driven by the enumerator\<close>

datatype ('k, 'i) LedgerEvent =
    Checked 'k "'i option"
  | CheckFailed 'k "'i option"
  | ArrivalsFailed 'k
  | Deferred 'k
  | Reopened 'k
  | NodesSeen "'k set"

fun ledger_event :: "('k, 'i) NodeLedger \<Rightarrow> ('k, 'i) LedgerEvent \<Rightarrow> ('k, 'i) NodeLedger \<times> 'i SettledNode option" where
  "ledger_event l (Checked node live) = (case settle l node True live of (l, s) \<Rightarrow> (l, Some s))"
| "ledger_event l (CheckFailed node live) = (case settle l node False live of (l, s) \<Rightarrow> (l, Some s))"
| "ledger_event l (ArrivalsFailed node) = (case settle_arrival_replay_failure l node of (l, s) \<Rightarrow> (l, Some s))"
| "ledger_event l (Deferred node) = (l, Some (defer_node l node))"
| "ledger_event l (Reopened node) = (reset_channel_failures_after_open l node, None)"
| "ledger_event l (NodesSeen seen) = (retain_nodes l seen, None)"

fun ledger_after :: "('k, 'i) LedgerEvent list \<Rightarrow> ('k, 'i) NodeLedger" where
  "ledger_after [] = ledger_default"
| "ledger_after (e # past) = fst (ledger_event (ledger_after past) e)"

section \<open>What the past says of a node\<close>

text \<open>A past is the list of events, the newest first. The three counts are unbounded.\<close>

fun last_answer :: "'k \<Rightarrow> ('k, 'i) LedgerEvent list \<Rightarrow> 'i option" where
  "last_answer n [] = None"
| "last_answer n (e # past) =
     (case e of
        Checked m live \<Rightarrow> if m = n then live else last_answer n past
      | NodesSeen seen \<Rightarrow> if n \<in> seen then last_answer n past else None
      | _ \<Rightarrow> last_answer n past)"

fun misses_since :: "'k \<Rightarrow> ('k, 'i) LedgerEvent list \<Rightarrow> nat" where
  "misses_since n [] = 0"
| "misses_since n (e # past) =
     (case e of
        Checked m _ \<Rightarrow> if m = n then 0 else misses_since n past
      | CheckFailed m _ \<Rightarrow> of_bool (m = n) + misses_since n past
      | ArrivalsFailed m \<Rightarrow> of_bool (m = n) + misses_since n past
      | NodesSeen seen \<Rightarrow> if n \<in> seen then misses_since n past else 0
      | _ \<Rightarrow> misses_since n past)"

fun silent_checks :: "'k \<Rightarrow> ('k, 'i) LedgerEvent list \<Rightarrow> nat" where
  "silent_checks n [] = 0"
| "silent_checks n (e # past) =
     (case e of
        Checked m _ \<Rightarrow> if m = n then 0 else silent_checks n past
      | CheckFailed m _ \<Rightarrow> of_bool (m = n) + silent_checks n past
      | ArrivalsFailed m \<Rightarrow> if m = n then 0 else silent_checks n past
      | Reopened m \<Rightarrow> if m = n then 0 else silent_checks n past
      | NodesSeen seen \<Rightarrow> if n \<in> seen then silent_checks n past else 0
      | _ \<Rightarrow> silent_checks n past)"

fun failed_arrivals :: "'k \<Rightarrow> ('k, 'i) LedgerEvent list \<Rightarrow> nat" where
  "failed_arrivals n [] = 0"
| "failed_arrivals n (e # past) =
     (case e of
        Checked m _ \<Rightarrow> if m = n then 0 else failed_arrivals n past
      | ArrivalsFailed m \<Rightarrow> of_bool (m = n) + failed_arrivals n past
      | Reopened m \<Rightarrow> if m = n then 0 else failed_arrivals n past
      | NodesSeen seen \<Rightarrow> if n \<in> seen then failed_arrivals n past else 0
      | _ \<Rightarrow> failed_arrivals n past)"

text \<open>What should be published for a node: the last answer through three misses, then the truth.\<close>

definition served :: "'k \<Rightarrow> ('k, 'i) LedgerEvent list \<Rightarrow> 'i option" where
  "served n past = (if misses_since n past \<le> 3 then last_answer n past else None)"

definition settled_by_past :: "('k, 'i) LedgerEvent list \<Rightarrow> ('k, 'i) LedgerEvent \<Rightarrow> 'i SettledNode option" where
  "settled_by_past past e =
     (let served_or = (\<lambda>n live. case served n (e # past) of Some i \<Rightarrow> Some i | None \<Rightarrow> live) in
      case e of
        Checked n live \<Rightarrow> Some \<lparr>sn_inventory = live, sn_evict_channel = False\<rparr>
      | CheckFailed n live \<Rightarrow>
          Some \<lparr>sn_inventory = served_or n live, sn_evict_channel = 2 \<le> silent_checks n (e # past)\<rparr>
      | ArrivalsFailed n \<Rightarrow>
          Some \<lparr>sn_inventory = served_or n None, sn_evict_channel = 4 \<le> failed_arrivals n (e # past)\<rparr>
      | Deferred n \<Rightarrow> Some \<lparr>sn_inventory = served n past, sn_evict_channel = False\<rparr>
      | _ \<Rightarrow> None)"

section \<open>The ledger follows the past\<close>

definition saturated :: "nat \<Rightarrow> u8" where
  "saturated n = of_nat (min n 255)"

lemma unat_saturated: "unat (saturated n) = min n 255"
  by (simp add: saturated_def unat_of_nat take_bit_nat_eq_self)

lemma saturated_0 [simp]: "saturated 0 = 0"
  by (simp add: saturated_def)

lemma saturating_inc_saturated [simp]: "saturating_inc (saturated n) = saturated (Suc n)"
proof (cases "n < 255")
  case True
  then have "saturated n \<noteq> 0xff"
    using unat_saturated [of n] by auto
  with True show ?thesis
    by (simp add: saturating_inc_def saturated_def)
next
  case False
  then show ?thesis
    by (simp add: saturating_inc_def saturated_def)
qed

lemma le_saturated [simp]: "numeral k \<le> saturated n \<longleftrightarrow> unat (numeral k :: u8) \<le> min n 255"
  by (simp add: word_le_nat_alt unat_saturated)

lemma saturated_le [simp]: "saturated n \<le> numeral k \<longleftrightarrow> min n 255 \<le> unat (numeral k :: u8)"
  by (simp add: word_le_nat_alt unat_saturated)

definition counts_of :: "('k, 'i) NodeLedger \<Rightarrow> 'k \<Rightarrow> FailureCounts" where
  "counts_of l n = (case nl_failures l n of None \<Rightarrow> counts_default | Some counts \<Rightarrow> counts)"

definition follows :: "('k, 'i) NodeLedger \<Rightarrow> ('k, 'i) LedgerEvent list \<Rightarrow> bool" where
  "follows l past \<longleftrightarrow>
     (\<forall>n. nl_last_good l n = served n past
        \<and> counts_of l n = \<lparr>fc_probe = saturated (silent_checks n past),
             fc_arrival_replay = saturated (failed_arrivals n past),
             fc_publication_misses = saturated (misses_since n past)\<rparr>)"

lemmas ledger_op_defs =
  settle_def settle_failure_def settle_arrival_replay_failure_def defer_node_def retain_nodes_def
  reset_channel_failures_after_open_def NODE_MISS_GRACE_def CHANNEL_EVICT_AFTER_def
  ARRIVAL_REPLAY_EVICT_AFTER_def

lemma follows_D:
  assumes "follows l past"
  shows "nl_last_good l n = served n past"
    and "fc_probe (counts_of l n) = saturated (silent_checks n past)"
    and "fc_arrival_replay (counts_of l n) = saturated (failed_arrivals n past)"
    and "fc_publication_misses (counts_of l n) = saturated (misses_since n past)"
  using assms by (simp_all add: follows_def)

text \<open>The two kinds of failure as one update of the counts and of the snapshot.\<close>

lemma settle_failure_counts:
  "counts_of (fst (settle_failure l n live k kind)) m =
     (if m = n then (fst (failure_record kind (counts_of l n)))
        \<lparr>fc_publication_misses := saturating_inc (fc_publication_misses (counts_of l n))\<rparr>
      else counts_of l m)"
  by (cases kind) (simp_all add: settle_failure_def counts_of_def Let_def)

lemma settle_failure_snapshot:
  "nl_last_good (fst (settle_failure l n live k kind)) m =
     (if m = n \<and> \<not> saturating_inc (fc_publication_misses (counts_of l n)) \<le> 3 then None
      else nl_last_good l m)"
  by (cases kind) (simp_all add: settle_failure_def counts_of_def Let_def NODE_MISS_GRACE_def)

lemma settle_failure_result:
  "snd (settle_failure l n live k kind) =
     \<lparr>sn_inventory = (case nl_last_good (fst (settle_failure l n live k kind)) n of Some i \<Rightarrow> Some i | None \<Rightarrow> live),
      sn_evict_channel = k \<le> snd (failure_record kind (counts_of l n))\<rparr>"
  by (cases kind) (simp_all add: settle_failure_def counts_of_def Let_def NODE_MISS_GRACE_def)

lemma reopened_counts:
  "counts_of (reset_channel_failures_after_open l n) m =
     (if m = n then (counts_of l n)\<lparr>fc_probe := 0, fc_arrival_replay := 0\<rparr> else counts_of l m)"
  "nl_last_good (reset_channel_failures_after_open l n) = nl_last_good l"
  by (auto simp: reset_channel_failures_after_open_def counts_of_def counts_default_def split: option.splits)

lemma follows_failure:
  assumes "follows l past"
    and "e = CheckFailed n live \<and> kind = Probe \<or> e = ArrivalsFailed n \<and> kind = ArrivalReplay"
  shows "follows (fst (settle_failure l n live' k kind)) (e # past)"
  using assms follows_D [OF assms(1)]
  by (auto simp: follows_def settle_failure_counts settle_failure_snapshot served_def)

lemma follows_event: "follows l past \<Longrightarrow> follows (fst (ledger_event l e)) (e # past)"
proof (cases e)
  case (Checked n live)
  assume "follows l past"
  then show ?thesis
    unfolding Checked by (auto simp: follows_def settle_def served_def counts_of_def counts_default_def)
next
  case (CheckFailed n live)
  assume "follows l past"
  then show ?thesis
    unfolding CheckFailed using follows_failure [of l past "CheckFailed n live" n live Probe live]
    by (simp add: settle_def case_prod_beta)
next
  case (ArrivalsFailed n)
  assume "follows l past"
  then show ?thesis
    unfolding ArrivalsFailed using follows_failure [of l past "ArrivalsFailed n" n None ArrivalReplay None]
    by (simp add: settle_arrival_replay_failure_def case_prod_beta)
next
  case (Deferred n)
  assume "follows l past"
  then show ?thesis
    unfolding Deferred by (simp add: follows_def served_def)
next
  case (Reopened n)
  assume "follows l past"
  then show ?thesis
    unfolding Reopened
    by (auto simp: follows_def reopened_counts served_def)
next
  case (NodesSeen seen)
  assume "follows l past"
  then show ?thesis
    unfolding NodesSeen
    by (auto simp: follows_def retain_nodes_def counts_of_def counts_default_def served_def)
qed

lemma follows_after: "follows (ledger_after past) past"
proof (induction past)
  case Nil
  show ?case
    by (simp add: follows_def ledger_default_def served_def counts_of_def counts_default_def)
next
  case (Cons e past)
  then show ?case
    using follows_event by simp
qed

text \<open>C29: the ledger publishes what a node last said, and for how long. After any sequence of checks,
  failures, reopened channels and vanished nodes, a node's report is exactly this: its answer when
  it answered; otherwise its last answer as long as at most three checks in a row missed, and from
  the fourth miss on whatever this check saw; a deferred check repeats the last answer and counts
  nothing. The channel is dropped exactly from the second silent check in a row, or the fourth
  failed arrival replay since it was opened. The byte-wide saturating counters never change this.\<close>

theorem ledger_reports_past: "snd (ledger_event (ledger_after past) e) = settled_by_past past e"
proof -
  note f = follows_after [of past]
  note g = follows_event [OF f, of e]
  show ?thesis
  proof (cases e)
    case (CheckFailed n live)
    then show ?thesis
      using follows_D(1) [OF g, of n] follows_D(2) [OF f, of n]
      by (simp add: settled_by_past_def settle_def settle_failure_result CHANNEL_EVICT_AFTER_def case_prod_beta)
  next
    case (ArrivalsFailed n)
    then show ?thesis
      using follows_D(1) [OF g, of n] follows_D(3) [OF f, of n]
      by (simp add: settled_by_past_def settle_arrival_replay_failure_def settle_failure_result
          ARRIVAL_REPLAY_EVICT_AFTER_def NODE_MISS_GRACE_def case_prod_beta)
  qed (auto simp: settled_by_past_def settle_def defer_node_def follows_D(1) [OF f])
qed

end
