(* ===== verification/Inventory_Schedule.thy ===== *)
theory Inventory_Schedule
  imports Event_System
begin

text \<open>
  When the agent looks at its devices again,
  \<^verbatim>\<open>crates/openlogi-agent-core/src/watchers/inventory/schedule.rs\<close>: bounded fast retries after an
  unhealthy scan, the pass that confirms written settings, and the low-frequency recovery scan.
  Instants and durations are milliseconds; the wall clock of the wake detector is an integer, as it
  may be set back.
\<close>

section \<open>The schedule\<close>

definition FAST_RETRY_DELAY :: nat where "FAST_RETRY_DELAY = 2000"
definition HOTPLUG_SETTLE :: nat where "HOTPLUG_SETTLE = 400"
definition HID_EVENT_SETTLE :: nat where "HID_EVENT_SETTLE = 200"
definition SYSTEM_RESUME_SETTLE :: nat where "SYSTEM_RESUME_SETTLE = 400"
definition PROBE_CACHE_FRESHNESS :: nat where "PROBE_CACHE_FRESHNESS = 30000"
definition RECOVERY_WAKE_MARGIN :: nat where "RECOVERY_WAKE_MARGIN = 1000"
definition RECOVERY_SCAN_PERIOD :: nat where "RECOVERY_SCAN_PERIOD = PROBE_CACHE_FRESHNESS - RECOVERY_WAKE_MARGIN"
definition WAKE_GAP :: nat where "WAKE_GAP = 60000"
definition FAST_RETRY_LIMIT :: u8 where "FAST_RETRY_LIMIT = 4"

definition probe_cache_is_stale :: "nat \<Rightarrow> nat \<Rightarrow> bool" where
  "probe_cache_is_stale probed_at now \<longleftrightarrow> PROBE_CACHE_FRESHNESS < now - probed_at"

datatype HidppEventSource =
    ReceiverConnection | WirelessDeviceStatus | UnifiedBattery | BatteryStatus | BatteryVoltage
  | AdcMeasurement | FnInversion | ExtendedDpi | MultiPlatform | DisableKeys | ExtendedReportRate
  | Backlight | HiResWheelRatchet

datatype ReconcileTrigger =
    TrInitial | TrRepairRetry | TrDeadChannel | TrHidEvent HidppEventSource | TrHotplug | TrSystemResume
  | TrSettingsConfirmation | TrRecoveryScan

datatype DeadlinePurpose = DpRepairRetry | DpSettingsConfirmation | DpRecoveryScan

record ScanClock =
  sc_started :: nat
  sc_finished :: nat

datatype ScanOutcome = Snapshot bool | Failed

datatype Confirmation = Scheduled nat u8 | AwaitingRecovery

record Schedule =
  sd_retry_due :: "nat option"
  sd_confirmation :: "Confirmation option"
  sd_recovery_due :: nat
  sd_retry_count :: u8

definition schedule_new :: "nat \<Rightarrow> Schedule" where
  "schedule_new now =
     \<lparr>sd_retry_due = None, sd_confirmation = None, sd_recovery_due = now + RECOVERY_SCAN_PERIOD, sd_retry_count = 0\<rparr>"

definition next_deadline :: "Schedule \<Rightarrow> nat \<times> DeadlinePurpose" where
  "next_deadline s =
     (let next = (sd_recovery_due s, DpRecoveryScan);
          next = (case sd_retry_due s of Some at \<Rightarrow> (at, DpRepairRetry) | None \<Rightarrow> next) in
      case sd_confirmation s of
        Some (Scheduled due _) \<Rightarrow> if due \<le> fst next then (due, DpSettingsConfirmation) else next
      | _ \<Rightarrow> next)"

definition confirms_settings :: "Schedule \<Rightarrow> ReconcileTrigger \<Rightarrow> bool" where
  "confirms_settings s trigger \<longleftrightarrow>
     trigger = TrSettingsConfirmation
     \<or> (trigger = TrRecoveryScan \<and> sd_confirmation s = Some AwaitingRecovery)"

definition request_settings_confirmation :: "Schedule \<Rightarrow> nat \<Rightarrow> Schedule" where
  "request_settings_confirmation s now =
     (case sd_confirmation s of
        Some _ \<Rightarrow> s
      | None \<Rightarrow> s\<lparr>sd_confirmation := Some (Scheduled (now + FAST_RETRY_DELAY) 0)\<rparr>)"

text \<open>The match of \<open>scan_finished\<close> on whether the scan confirms the settings and on its outcome.\<close>

definition settle_confirmation :: "Schedule \<Rightarrow> ReconcileTrigger \<Rightarrow> ScanOutcome \<Rightarrow> ScanClock \<Rightarrow> Schedule" where
  "settle_confirmation s trigger outcome clock =
     (case (confirms_settings s trigger, outcome) of
        (True, Snapshot _) \<Rightarrow> s\<lparr>sd_confirmation := None\<rparr>
      | (True, Failed) \<Rightarrow>
          (case sd_confirmation s of
             Some (Scheduled _ failures) \<Rightarrow>
               s\<lparr>sd_confirmation := Some (if failures + 1 < FAST_RETRY_LIMIT
                   then Scheduled (sc_finished clock + FAST_RETRY_DELAY) (failures + 1) else AwaitingRecovery)\<rparr>
           | _ \<Rightarrow> s)
      | (False, Snapshot _) \<Rightarrow>
          if sd_confirmation s = Some AwaitingRecovery
          then request_settings_confirmation (s\<lparr>sd_confirmation := None\<rparr>) (sc_finished clock) else s
      | (False, Failed) \<Rightarrow> s)"

definition outcome_needs_repair :: "ScanOutcome \<Rightarrow> bool" where
  "outcome_needs_repair outcome = (case outcome of Snapshot needs_repair \<Rightarrow> needs_repair | Failed \<Rightarrow> True)"

definition scan_finished :: "Schedule \<Rightarrow> ReconcileTrigger \<Rightarrow> ScanOutcome \<Rightarrow> ScanClock \<Rightarrow> Schedule" where
  "scan_finished s trigger outcome clock =
     (let s = settle_confirmation (s\<lparr>sd_retry_due := None\<rparr>) trigger outcome clock;
          s = s\<lparr>sd_recovery_due := sc_started clock + RECOVERY_SCAN_PERIOD\<rparr>;
          s = (if trigger \<noteq> TrRepairRetry \<and> trigger \<noteq> TrSettingsConfirmation then s\<lparr>sd_retry_count := 0\<rparr> else s) in
      if outcome_needs_repair outcome \<and> sd_retry_count s < FAST_RETRY_LIMIT
      then s\<lparr>sd_retry_count := sd_retry_count s + 1,
             sd_retry_due := Some (sc_finished clock + FAST_RETRY_DELAY)\<rparr>
      else if \<not> outcome_needs_repair outcome then s\<lparr>sd_retry_count := 0\<rparr> else s)"

section \<open>The wake detector\<close>

record WakeDetector =
  wd_wall :: int
  wd_monotonic :: nat

text \<open>\<open>SystemTime::duration_since\<close> is an error when the wall clock went back.\<close>

definition wake_observe :: "WakeDetector \<Rightarrow> int \<Rightarrow> nat \<Rightarrow> WakeDetector \<times> bool" where
  "wake_observe w wall monotonic =
     (let monotonic_elapsed = monotonic - wd_monotonic w;
          woke = (wd_wall w \<le> wall \<and> int (monotonic_elapsed + WAKE_GAP) < wall - wd_wall w) in
      (\<lparr>wd_wall = wall, wd_monotonic = monotonic\<rparr>, woke))"

section \<open>The worker loop's use of a deadline\<close>

fun deadline_trigger :: "DeadlinePurpose \<Rightarrow> ReconcileTrigger" where
  "deadline_trigger DpRepairRetry = TrRepairRetry"
| "deadline_trigger DpSettingsConfirmation = TrSettingsConfirmation"
| "deadline_trigger DpRecoveryScan = TrRecoveryScan"

section \<open>The schedule over time\<close>

datatype ScheduleEvent = RequestAt nat | ScanAt ReconcileTrigger ScanOutcome ScanClock

text \<open>A schedule, the latest instant seen, and whether a confirmation was asked for and not delivered.\<close>

record ScheduleWorld =
  sw_schedule :: Schedule
  sw_now :: nat
  sw_undelivered :: bool

definition schedule_init :: "ScheduleWorld \<Rightarrow> bool" where
  "schedule_init w \<longleftrightarrow> sw_schedule w = schedule_new (sw_now w) \<and> \<not> sw_undelivered w"

definition schedule_step :: "ScheduleWorld \<Rightarrow> ScheduleEvent \<Rightarrow> ScheduleWorld option" where
  "schedule_step w ev =
     (case ev of
        RequestAt t \<Rightarrow>
          if sw_now w \<le> t
          then Some \<lparr>sw_schedule = request_settings_confirmation (sw_schedule w) t, sw_now = t, sw_undelivered = True\<rparr>
          else None
      | ScanAt trigger outcome clock \<Rightarrow>
          if sw_now w \<le> sc_started clock \<and> sc_started clock \<le> sc_finished clock
             \<and> (trigger \<in> {TrRepairRetry, TrSettingsConfirmation, TrRecoveryScan} \<longrightarrow>
                  trigger = deadline_trigger (snd (next_deadline (sw_schedule w))))
          then Some \<lparr>sw_schedule = scan_finished (sw_schedule w) trigger outcome clock, sw_now = sc_finished clock,
                 sw_undelivered = (sw_undelivered w
                   \<and> \<not> (confirms_settings (sw_schedule w) trigger \<and> outcome \<noteq> Failed))\<rparr>
          else None)"

definition confirmation_timely :: "nat \<Rightarrow> Confirmation option \<Rightarrow> bool" where
  "confirmation_timely now c =
     (case c of Some (Scheduled due failures) \<Rightarrow> due \<le> now + FAST_RETRY_DELAY \<and> failures < FAST_RETRY_LIMIT | _ \<Rightarrow> True)"

definition schedule_ok :: "nat \<Rightarrow> Schedule \<Rightarrow> bool" where
  "schedule_ok now s \<longleftrightarrow>
     sd_retry_count s \<le> FAST_RETRY_LIMIT
     \<and> sd_recovery_due s \<le> now + RECOVERY_SCAN_PERIOD
     \<and> (case sd_retry_due s of Some r \<Rightarrow> r \<le> now + FAST_RETRY_DELAY \<and> 0 < sd_retry_count s | None \<Rightarrow> True)
     \<and> confirmation_timely now (sd_confirmation s)"

definition schedule_inv :: "ScheduleWorld \<Rightarrow> bool" where
  "schedule_inv w \<longleftrightarrow>
     schedule_ok (sw_now w) (sw_schedule w)
     \<and> (sw_undelivered w \<longleftrightarrow> sd_confirmation (sw_schedule w) \<noteq> None)"

section \<open>Invariants\<close>

lemma u8_le_4_cases: "(n :: u8) \<le> 4 \<Longrightarrow> n = 0 \<or> n = 1 \<or> n = 2 \<or> n = 3 \<or> n = 4"
proof -
  assume "n \<le> 4"
  then have "unat n \<le> 4"
    by (simp add: word_le_nat_alt)
  then show ?thesis
    unfolding word_unat_eq_iff by simp linarith
qed

lemma u8_less_4: "(n :: u8) < 4 \<Longrightarrow> n + 1 \<le> 4 \<and> 0 < n + 1 \<and> n \<le> n + 1"
  using u8_le_4_cases [OF less_imp_le, of n] by auto

lemma settle_confirmation_fields [simp]:
  "sd_retry_due (settle_confirmation s trigger outcome clock) = sd_retry_due s"
  "sd_recovery_due (settle_confirmation s trigger outcome clock) = sd_recovery_due s"
  "sd_retry_count (settle_confirmation s trigger outcome clock) = sd_retry_count s"
  by (auto simp: settle_confirmation_def request_settings_confirmation_def split: option.splits Confirmation.splits
      ScanOutcome.splits bool.splits)

lemma confirms_settings_retry [simp]: "confirms_settings (s\<lparr>sd_retry_due := r\<rparr>) = confirms_settings s"
  by (simp add: confirms_settings_def fun_eq_iff)

lemma scan_finished_confirmation:
  "sd_confirmation (scan_finished s trigger outcome clock) =
     (if confirms_settings s trigger
      then (case outcome of
              Snapshot _ \<Rightarrow> None
            | Failed \<Rightarrow> (case sd_confirmation s of
                Some (Scheduled _ failures) \<Rightarrow>
                  Some (if failures + 1 < FAST_RETRY_LIMIT
                        then Scheduled (sc_finished clock + FAST_RETRY_DELAY) (failures + 1) else AwaitingRecovery)
              | c \<Rightarrow> c))
      else if sd_confirmation s = Some AwaitingRecovery \<and> outcome \<noteq> Failed
      then Some (Scheduled (sc_finished clock + FAST_RETRY_DELAY) 0)
      else sd_confirmation s)"
  by (auto simp: scan_finished_def settle_confirmation_def request_settings_confirmation_def Let_def
      split: option.splits Confirmation.splits ScanOutcome.splits bool.splits)

lemma scan_finished_recovery [simp]:
  "sd_recovery_due (scan_finished s trigger outcome clock) = sc_started clock + RECOVERY_SCAN_PERIOD"
  by (simp add: scan_finished_def Let_def)

definition retry_count_before :: "Schedule \<Rightarrow> ReconcileTrigger \<Rightarrow> u8" where
  "retry_count_before s trigger =
     (if trigger = TrRepairRetry \<or> trigger = TrSettingsConfirmation then sd_retry_count s else 0)"

lemma scan_finished_retry:
  "sd_retry_due (scan_finished s trigger outcome clock) =
     (if outcome_needs_repair outcome \<and> retry_count_before s trigger < FAST_RETRY_LIMIT
      then Some (sc_finished clock + FAST_RETRY_DELAY) else None)"
  "sd_retry_count (scan_finished s trigger outcome clock) =
     (if \<not> outcome_needs_repair outcome then 0
      else if retry_count_before s trigger < FAST_RETRY_LIMIT then retry_count_before s trigger + 1
      else retry_count_before s trigger)"
  by (auto simp: scan_finished_def Let_def retry_count_before_def)

lemma scan_finished_ok:
  assumes "schedule_ok now s" "now \<le> sc_started clock" "sc_started clock \<le> sc_finished clock"
  shows "schedule_ok (sc_finished clock) (scan_finished s trigger outcome clock)"
proof -
  have "retry_count_before s trigger \<le> 4"
    using assms(1) by (simp add: schedule_ok_def retry_count_before_def FAST_RETRY_LIMIT_def)
  then show ?thesis
    using assms u8_less_4 [of "retry_count_before s trigger"]
    by (auto simp: schedule_ok_def scan_finished_retry scan_finished_confirmation confirmation_timely_def
        FAST_RETRY_LIMIT_def split: option.splits Confirmation.splits ScanOutcome.splits)
qed

lemma request_ok:
  "schedule_ok now s \<Longrightarrow> now \<le> t \<Longrightarrow> schedule_ok t (request_settings_confirmation s t)"
  by (auto simp: schedule_ok_def request_settings_confirmation_def confirmation_timely_def FAST_RETRY_LIMIT_def
      split: option.splits Confirmation.splits)

lemma scan_keeps_request:
  "sd_confirmation (scan_finished s trigger outcome clock) = None \<longleftrightarrow>
     sd_confirmation s = None \<or> (confirms_settings s trigger \<and> outcome \<noteq> Failed)"
  by (auto simp: scan_finished_confirmation split: option.splits Confirmation.splits ScanOutcome.splits)

interpretation schedule: invariant_system schedule_init schedule_step schedule_inv
proof
  show "schedule_inv w" if "schedule_init w" for w
    using that by (simp add: schedule_init_def schedule_inv_def schedule_ok_def schedule_new_def confirmation_timely_def)
  show "schedule_inv w'" if "schedule_inv w" "schedule_step w ev = Some w'" for w ev w'
  proof (cases ev)
    case (RequestAt t)
    then show ?thesis
      using that request_ok [of "sw_now w" "sw_schedule w" t]
      by (auto simp: schedule_inv_def schedule_step_def request_settings_confirmation_def
          split: if_splits option.splits)
  next
    case (ScanAt trigger outcome clock)
    then have g: "sw_now w \<le> sc_started clock" "sc_started clock \<le> sc_finished clock"
      and w': "sw_schedule w' = scan_finished (sw_schedule w) trigger outcome clock" "sw_now w' = sc_finished clock"
        "sw_undelivered w' = (sw_undelivered w \<and> \<not> (confirms_settings (sw_schedule w) trigger \<and> outcome \<noteq> Failed))"
      using that(2) by (simp_all add: schedule_step_def split: if_splits) (auto simp: schedule_step_def)
    show ?thesis
      using that(1) scan_finished_ok [OF _ g] unfolding schedule_inv_def w' scan_keeps_request by simp
  qed
qed

lemma next_deadline_le:
  "schedule_ok now s \<Longrightarrow> fst (next_deadline s) \<le> now + RECOVERY_SCAN_PERIOD"
  by (auto simp: schedule_ok_def next_deadline_def Let_def FAST_RETRY_DELAY_def RECOVERY_SCAN_PERIOD_def
      PROBE_CACHE_FRESHNESS_def RECOVERY_WAKE_MARGIN_def split: option.splits Confirmation.splits)

lemma recovery_hits_cache:
  "now \<le> sc_started clock + RECOVERY_SCAN_PERIOD + RECOVERY_WAKE_MARGIN \<Longrightarrow>
   \<not> probe_cache_is_stale (sc_started clock) now"
  by (simp add: probe_cache_is_stale_def RECOVERY_SCAN_PERIOD_def PROBE_CACHE_FRESHNESS_def RECOVERY_WAKE_MARGIN_def)

text \<open>No request is lost and no pause is endless. In every state the worker can reach, a settings
  confirmation is on the schedule exactly while one was asked for and no snapshot of a confirming
  scan has been delivered since; at most four fast retries are counted; a scheduled confirmation is
  due within two seconds and has failed fewer than four times; the next scan is due within 29
  seconds, which a wake up to a second late still finds inside the probe cache's window.\<close>

theorem schedule_keeps_requests:
  assumes "reach schedule_init schedule_step w"
  shows "(sd_confirmation (sw_schedule w) \<noteq> None \<longleftrightarrow> sw_undelivered w)
    \<and> sd_retry_count (sw_schedule w) \<le> 4
    \<and> (\<forall>due failures. sd_confirmation (sw_schedule w) = Some (Scheduled due failures) \<longrightarrow>
         due \<le> sw_now w + 2000 \<and> failures < 4)
    \<and> fst (next_deadline (sw_schedule w)) \<le> sw_now w + 29000
    \<and> (\<forall>late \<le> 1000. \<not> probe_cache_is_stale (sw_now w) (fst (next_deadline (sw_schedule w)) + late))"
proof -
  have ok: "schedule_ok (sw_now w) (sw_schedule w)" and u: "sw_undelivered w \<longleftrightarrow> sd_confirmation (sw_schedule w) \<noteq> None"
    using schedule.reachable_inv [OF assms] by (simp_all add: schedule_inv_def)
  have d: "fst (next_deadline (sw_schedule w)) \<le> sw_now w + 29000"
    using next_deadline_le [OF ok] by (simp add: RECOVERY_SCAN_PERIOD_def PROBE_CACHE_FRESHNESS_def RECOVERY_WAKE_MARGIN_def)
  have stale: "\<not> probe_cache_is_stale (sw_now w) (fst (next_deadline (sw_schedule w)) + late)" if "late \<le> 1000" for late
    using d that by (simp add: probe_cache_is_stale_def PROBE_CACHE_FRESHNESS_def)
  have t: "due \<le> sw_now w + 2000 \<and> failures < 4"
    if "sd_confirmation (sw_schedule w) = Some (Scheduled due failures)" for due failures
    using ok that by (simp add: schedule_ok_def confirmation_timely_def FAST_RETRY_DELAY_def FAST_RETRY_LIMIT_def)
  show ?thesis
    using ok u d stale t by (simp add: schedule_ok_def FAST_RETRY_LIMIT_def)
qed

section \<open>A request is attended to\<close>

text \<open>Scans that the worker makes at its own deadlines, one after the other, and whether one of them
  confirms the settings.\<close>

fun confirmed_within :: "Schedule \<Rightarrow> (ScanOutcome \<times> ScanClock) list \<Rightarrow> bool" where
  "confirmed_within s [] = False"
| "confirmed_within s ((outcome, clock) # scans) =
     (let trigger = deadline_trigger (snd (next_deadline s)) in
      confirms_settings s trigger \<or> confirmed_within (scan_finished s trigger outcome clock) scans)"

fun clocks_after :: "nat \<Rightarrow> (ScanOutcome \<times> ScanClock) list \<Rightarrow> bool" where
  "clocks_after now [] = True"
| "clocks_after now ((outcome, clock) # scans) \<longleftrightarrow>
     now \<le> sc_started clock \<and> sc_started clock \<le> sc_finished clock \<and> clocks_after (sc_finished clock) scans"

text \<open>How many scans a pending request may still have to wait for.\<close>

definition scans_left :: "Schedule \<Rightarrow> nat" where
  "scans_left s =
     (case sd_confirmation s of
        Some AwaitingRecovery \<Rightarrow> if sd_retry_due s = None then 1 else 7 - unat (sd_retry_count s)
      | _ \<Rightarrow> if snd (next_deadline s) = DpSettingsConfirmation then 1 else 2)"

lemma scheduled_next:
  assumes "schedule_ok now s" "sd_confirmation s = Some (Scheduled due failures)"
    "\<not> confirms_settings s trigger" "now \<le> sc_started clock" "sc_started clock \<le> sc_finished clock"
  shows "scans_left (scan_finished s trigger outcome clock) = 1"
proof -
  have "due \<le> now + FAST_RETRY_DELAY"
    using assms(1,2) by (simp add: schedule_ok_def confirmation_timely_def)
  then show ?thesis
    using assms(2-)
    by (simp add: scans_left_def next_deadline_def scan_finished_confirmation scan_finished_retry Let_def
        FAST_RETRY_DELAY_def RECOVERY_SCAN_PERIOD_def PROBE_CACHE_FRESHNESS_def RECOVERY_WAKE_MARGIN_def)
qed

lemma scans_left_pos: "schedule_ok now s \<Longrightarrow> 1 \<le> scans_left s"
proof -
  assume "schedule_ok now s"
  then have "unat (sd_retry_count s) \<le> 4"
    by (simp add: schedule_ok_def FAST_RETRY_LIMIT_def word_le_nat_alt)
  then show ?thesis
    by (cases "sd_confirmation s = Some AwaitingRecovery")
      (auto simp: scans_left_def split: option.splits Confirmation.splits)
qed

lemma scans_left_le: "schedule_ok now s \<Longrightarrow> scans_left s \<le> 6"
  using u8_le_4_cases [of "sd_retry_count s"]
  by (auto simp: schedule_ok_def scans_left_def FAST_RETRY_LIMIT_def split: option.splits Confirmation.splits)

lemma awaiting_trigger:
  assumes "sd_confirmation s = Some AwaitingRecovery"
    "\<not> confirms_settings s (deadline_trigger (snd (next_deadline s)))"
  shows "sd_retry_due s \<noteq> None \<and> deadline_trigger (snd (next_deadline s)) = TrRepairRetry"
  using assms by (auto simp: next_deadline_def confirms_settings_def Let_def split: option.splits)

lemma awaiting_next:
  assumes "schedule_ok now s" "sd_confirmation s = Some AwaitingRecovery" "sd_retry_due s \<noteq> None"
  shows "scans_left (scan_finished s TrRepairRetry outcome clock) < scans_left s"
proof -
  have "sd_retry_count s \<le> 4"
    using assms(1) by (simp add: schedule_ok_def FAST_RETRY_LIMIT_def)
  from u8_le_4_cases [OF this] show ?thesis
    using assms(2,3)
    by (cases outcome) (auto simp: scans_left_def scan_finished_confirmation scan_finished_retry confirms_settings_def
        retry_count_before_def FAST_RETRY_LIMIT_def outcome_needs_repair_def)
qed

lemma scheduled_left:
  assumes "sd_confirmation s = Some (Scheduled due failures)"
    "\<not> confirms_settings s (deadline_trigger (snd (next_deadline s)))"
  shows "scans_left s = 2"
  using assms by (auto simp: scans_left_def confirms_settings_def)

lemma scans_left_decreases:
  assumes "schedule_ok now s" "sd_confirmation s \<noteq> None" "now \<le> sc_started clock"
    "sc_started clock \<le> sc_finished clock" "trigger = deadline_trigger (snd (next_deadline s))"
    "\<not> confirms_settings s trigger"
  shows "scans_left (scan_finished s trigger outcome clock) < scans_left s"
proof (cases "sd_confirmation s = Some AwaitingRecovery")
  case True
  then show ?thesis
    using awaiting_trigger [OF True] awaiting_next [OF assms(1) True] assms(5,6) by simp
next
  case False
  then obtain due failures where c: "sd_confirmation s = Some (Scheduled due failures)"
    using assms(2) by (metis Confirmation.exhaust option.exhaust)
  then show ?thesis
    using scheduled_next [OF assms(1) c assms(6,3,4)] scheduled_left [OF c] assms(5,6) by simp
qed

lemma pending_confirmed:
  assumes "schedule_ok now s" "sd_confirmation s \<noteq> None" "scans_left s \<le> length scans" "clocks_after now scans"
  shows "confirmed_within s scans"
  using assms
proof (induction scans arbitrary: now s)
  case Nil
  then show ?case
    using scans_left_pos [of now s] by simp
next
  case (Cons scan scans)
  obtain outcome clock where scan: "scan = (outcome, clock)"
    by (cases scan)
  define trigger where "trigger = deadline_trigger (snd (next_deadline s))"
  let ?s = "scan_finished s trigger outcome clock"
  show ?case
  proof (cases "confirms_settings s trigger")
    case False
    have c: "now \<le> sc_started clock" "sc_started clock \<le> sc_finished clock" "clocks_after (sc_finished clock) scans"
      using Cons.prems(4) by (simp_all add: scan)
    have "scans_left ?s \<le> length scans"
      using scans_left_decreases [OF Cons.prems(1,2) c(1,2) trigger_def False, of outcome] Cons.prems(3) by simp
    moreover have "sd_confirmation ?s \<noteq> None"
      using Cons.prems(2) False by (simp add: scan_keeps_request)
    ultimately have "confirmed_within ?s scans"
      using Cons.IH scan_finished_ok [OF Cons.prems(1) c(1,2)] c(3) by blast
    then show ?thesis
      by (simp add: scan trigger_def Let_def)
  qed (simp add: scan trigger_def Let_def)
qed

text \<open>C30: a request is attended to. From every reachable state with an undelivered confirmation, if the
  worker is left to its deadlines, one of its next six scans confirms the settings, whatever those
  scans find, fail at or take: failing repairs cannot starve the confirmation, and one whose own
  fast attempts are used up is taken over by the recovery scan.\<close>

theorem request_is_attended:
  assumes "reach schedule_init schedule_step w" "sw_undelivered w"
    "clocks_after (sw_now w) scans" "6 \<le> length scans"
  shows "confirmed_within (sw_schedule w) scans"
proof -
  have ok: "schedule_ok (sw_now w) (sw_schedule w)" "sd_confirmation (sw_schedule w) \<noteq> None"
    using schedule.reachable_inv [OF assms(1)] assms(2) by (simp_all add: schedule_inv_def)
  show ?thesis
    using pending_confirmed [OF ok _ assms(3)] scans_left_le [OF ok(1)] assms(4) by simp
qed

section \<open>Witnesses\<close>

text \<open>A request whose confirmations and repairs all fail.\<close>

definition failing_scan :: "nat \<Rightarrow> ScanOutcome \<times> ScanClock" where
  "failing_scan t = (Failed, \<lparr>sc_started = t, sc_finished = t\<rparr>)"

definition request_world :: ScheduleWorld where
  "request_world = \<lparr>sw_schedule = request_settings_confirmation (schedule_new 0) 1, sw_now = 1, sw_undelivered = True\<rparr>"

lemma request_world_reach: "reach schedule_init schedule_step request_world"
proof -
  have "reach schedule_init schedule_step \<lparr>sw_schedule = schedule_new 0, sw_now = 0, sw_undelivered = False\<rparr>"
    by (rule reach_init) (simp add: schedule_init_def)
  then show ?thesis
    by (rule reach_step [of _ _ _ "RequestAt 1"]) (simp add: schedule_step_def request_world_def)
qed

theorem schedule_keeps_requests_witness:
  "sd_confirmation (sw_schedule request_world) \<noteq> None \<and> fst (next_deadline (sw_schedule request_world)) \<le> 29001
   \<and> \<not> probe_cache_is_stale 1 (fst (next_deadline (sw_schedule request_world)) + 1000)"
  using schedule_keeps_requests [OF request_world_reach] by (simp add: request_world_def)

theorem request_is_attended_witness:
  "confirmed_within (sw_schedule request_world) (map failing_scan [2001, 4001, 6001, 8001, 10001, 12001])"
  by (rule request_is_attended [OF request_world_reach]) (simp_all add: request_world_def failing_scan_def)

end
