(* ===== verification/Swipe.thy ===== *)
theory Swipe
  imports Event_System "HOL-Library.Signed_Division"
begin

text \<open>
  Swipe recognition, \<^verbatim>\<open>crates/openlogi-core/src/binding/swipe.rs\<close>: the classifier of travel and the
  accumulator both gesture paths embed. 32-bit signed integers are \<open>int\<close> with the saturation of each
  operation written out, and the 64-bit intermediates are shown to fit; the division of two 64-bit
  integers truncates towards zero. Instants are milliseconds; a report carries the two readings of
  the clock that \<open>accumulate\<close> makes.
\<close>

section \<open>Classifying travel\<close>

datatype GestureDirection = Up | Down | Left | Right | Click

definition i32_min :: int where "i32_min = - (2 ^ 31)"
definition i32_max :: int where "i32_max = 2 ^ 31 - 1"

definition is_i32 :: "int \<Rightarrow> bool" where
  "is_i32 x \<longleftrightarrow> i32_min \<le> x \<and> x \<le> i32_max"

definition sat32 :: "int \<Rightarrow> int" where
  "sat32 x = max i32_min (min i32_max x)"

definition GESTURE_SWIPE_THRESHOLD :: int where "GESTURE_SWIPE_THRESHOLD = 50"
definition GESTURE_SWIPE_DEADZONE :: int where "GESTURE_SWIPE_DEADZONE = 40"
definition GESTURE_REPEAT_DISTANCE :: int where "GESTURE_REPEAT_DISTANCE = 12 * GESTURE_SWIPE_THRESHOLD"
definition GESTURE_REARM_PAUSE :: nat where "GESTURE_REARM_PAUSE = 250"
definition GESTURE_HOLD_FOR_SWIPE :: nat where "GESTURE_HOLD_FOR_SWIPE = 160"

definition detect_swipe :: "int \<Rightarrow> int \<Rightarrow> GestureDirection option" where
  "detect_swipe dx dy =
     (let abs_x = sat32 \<bar>dx\<bar>; abs_y = sat32 \<bar>dy\<bar>; dominant = max abs_x abs_y in
      if dominant < GESTURE_SWIPE_THRESHOLD then None
      else let cross_limit = max GESTURE_SWIPE_DEADZONE (sat32 (dominant * 35) div 100) in
        if abs_y < abs_x
        then (if cross_limit < abs_y then None else Some (if 0 < dx then Right else Left))
        else (if cross_limit < abs_x then None else Some (if 0 < dy then Down else Up)))"

fun along :: "GestureDirection \<Rightarrow> int \<Rightarrow> int \<Rightarrow> int" where
  "along Left dx dy = sat32 (- dx)"
| "along Right dx dy = dx"
| "along Up dx dy = sat32 (- dy)"
| "along Down dx dy = dy"
| "along Click dx dy = 0"

fun across :: "GestureDirection \<Rightarrow> int \<Rightarrow> int \<Rightarrow> int" where
  "across Left dx dy = dy"
| "across Right dx dy = dy"
| "across Up dx dy = dx"
| "across Down dx dy = dx"
| "across Click dx dy = 0"

definition reversal :: "GestureDirection \<Rightarrow> int \<Rightarrow> int \<Rightarrow> int" where
  "reversal direction dx dy =
     max 0 (case direction of Left \<Rightarrow> dx | Right \<Rightarrow> sat32 (- dx) | Up \<Rightarrow> dy | Down \<Rightarrow> sat32 (- dy) | Click \<Rightarrow> 0)"

definition continues :: "GestureDirection \<Rightarrow> int \<Rightarrow> int \<Rightarrow> bool" where
  "continues direction dx dy \<longleftrightarrow>
     (let ax = sat32 \<bar>dx\<bar>; ay = sat32 \<bar>dy\<bar> in
      case direction of
        Left \<Rightarrow> dx < 0 \<and> ay \<le> ax
      | Right \<Rightarrow> 0 < dx \<and> ay \<le> ax
      | Up \<Rightarrow> dy < 0 \<and> ax \<le> ay
      | Down \<Rightarrow> 0 < dy \<and> ax \<le> ay
      | Click \<Rightarrow> False)"

section \<open>The accumulator\<close>

record SwipeAccumulator =
  sa_held_since :: "nat option"
  sa_dx :: int
  sa_dy :: int
  sa_fired :: bool
  sa_last :: "GestureDirection option"
  sa_repeat :: int
  sa_repeat_cross :: int
  sa_moved_at :: "nat option"

definition swipe_default :: SwipeAccumulator where
  "swipe_default = \<lparr>sa_held_since = None, sa_dx = 0, sa_dy = 0, sa_fired = False, sa_last = None,
     sa_repeat = 0, sa_repeat_cross = 0, sa_moved_at = None\<rparr>"

definition swipe_begin :: "SwipeAccumulator \<Rightarrow> nat \<Rightarrow> SwipeAccumulator" where
  "swipe_begin s now = s\<lparr>sa_held_since := Some now, sa_dx := 0, sa_dy := 0, sa_fired := False, sa_last := None,
     sa_repeat := 0, sa_repeat_cross := 0, sa_moved_at := None\<rparr>"

definition is_holding :: "SwipeAccumulator \<Rightarrow> bool" where
  "is_holding s \<longleftrightarrow> sa_held_since s \<noteq> None"

text \<open>The dot product of the summed travel with a new report, as 64-bit arithmetic.\<close>

definition heading :: "SwipeAccumulator \<Rightarrow> int \<Rightarrow> int \<Rightarrow> int" where
  "heading s dx dy = sa_dx s * dx + sa_dy s * dy"

definition rest_ends_stroke :: "SwipeAccumulator \<Rightarrow> int \<Rightarrow> int \<Rightarrow> nat \<Rightarrow> SwipeAccumulator" where
  "rest_ends_stroke s dx dy now =
     (if (case sa_moved_at s of Some t \<Rightarrow> GESTURE_REARM_PAUSE \<le> now - t | None \<Rightarrow> False)
      then (let s = (if heading s dx dy < 0 then s\<lparr>sa_dx := 0, sa_dy := 0\<rparr> else s) in
            s\<lparr>sa_last := None, sa_repeat := 0, sa_repeat_cross := 0\<rparr>)
      else s)"

definition repeat_progress :: "SwipeAccumulator \<Rightarrow> GestureDirection \<Rightarrow> int \<Rightarrow> int \<Rightarrow> SwipeAccumulator" where
  "repeat_progress s dir dx dy =
     (let a = along dir dx dy; c = across dir dx dy; total = sat32 (sa_repeat s + a) in
      s\<lparr>sa_repeat_cross := (if a < 0 \<and> total \<le> 0 then 0 else sat32 (sa_repeat_cross s + c)),
        sa_repeat := max total 0\<rparr>)"

text \<open>What a repeat leaves over: \<open>earlier\<close> is the progress before the report.\<close>

definition carried_drift :: "SwipeAccumulator \<Rightarrow> int \<Rightarrow> int \<Rightarrow> int \<Rightarrow> int" where
  "carried_drift s earlier a c =
     (let excess = sa_repeat s - GESTURE_REPEAT_DISTANCE; tail = min excess a; carried = (c * tail) sdiv a in
      if a < excess \<and> 0 < earlier
      then carried + (sat32 (sa_repeat_cross s - c) * (excess - a)) sdiv earlier else carried)"

definition fire_repeat :: "SwipeAccumulator \<Rightarrow> int \<Rightarrow> int \<Rightarrow> int \<Rightarrow> SwipeAccumulator" where
  "fire_repeat s earlier a c =
     s\<lparr>sa_repeat := sa_repeat s - GESTURE_REPEAT_DISTANCE, sa_repeat_cross := sat32 (carried_drift s earlier a c),
       sa_dx := 0, sa_dy := 0\<rparr>"

definition clamp_turn :: "SwipeAccumulator \<Rightarrow> SwipeAccumulator" where
  "clamp_turn s =
     (case sa_last s of
        Some Right \<Rightarrow> s\<lparr>sa_dx := min (sa_dx s) 0\<rparr>
      | Some Left \<Rightarrow> s\<lparr>sa_dx := max (sa_dx s) 0\<rparr>
      | Some Down \<Rightarrow> s\<lparr>sa_dy := min (sa_dy s) 0\<rparr>
      | Some Up \<Rightarrow> s\<lparr>sa_dy := max (sa_dy s) 0\<rparr>
      | _ \<Rightarrow> s)"

text \<open>The second half of \<open>accumulate\<close>: the report joins the summed travel, which may commit.\<close>

definition sum_travel :: "SwipeAccumulator \<Rightarrow> int \<Rightarrow> int \<Rightarrow> nat \<Rightarrow> SwipeAccumulator \<times> GestureDirection option" where
  "sum_travel s dx dy now =
     (let s = clamp_turn (s\<lparr>sa_dx := sat32 (sa_dx s + dx), sa_dy := sat32 (sa_dy s + dy)\<rparr>);
          held_long_enough = (case sa_held_since s of Some t \<Rightarrow> GESTURE_HOLD_FOR_SWIPE \<le> now - t | None \<Rightarrow> False) in
      case (if held_long_enough then detect_swipe (sa_dx s) (sa_dy s) else None) of
        Some dir \<Rightarrow>
          (s\<lparr>sa_fired := True, sa_last := Some dir, sa_repeat := 0, sa_repeat_cross := 0, sa_dx := 0, sa_dy := 0\<rparr>,
           Some dir)
      | None \<Rightarrow> (s, None))"

definition accumulate ::
  "SwipeAccumulator \<Rightarrow> int \<Rightarrow> int \<Rightarrow> nat \<Rightarrow> nat \<Rightarrow> SwipeAccumulator \<times> GestureDirection option" where
  "accumulate s dx dy now now2 =
     (if sa_held_since s = None then (s, None)
      else let s = (rest_ends_stroke s dx dy now)\<lparr>sa_moved_at := Some now\<rparr> in
        case sa_last s of
          None \<Rightarrow> sum_travel s dx dy now2
        | Some dir \<Rightarrow>
            (let earlier = sa_repeat s; s = repeat_progress s dir dx dy in
             if \<not> continues dir dx dy then sum_travel s dx dy now2
             else if GESTURE_REPEAT_DISTANCE \<le> sa_repeat s \<and> detect_swipe (sa_repeat s) (sa_repeat_cross s) = Some Right
             then (fire_repeat s earlier (along dir dx dy) (across dir dx dy), Some dir)
             else if reversal dir (sa_dx s) (sa_dy s) = 0 then (s, None)
             else sum_travel s dx dy now2))"

definition swipe_end :: "SwipeAccumulator \<Rightarrow> SwipeAccumulator \<times> bool" where
  "swipe_end s = (s\<lparr>sa_held_since := None\<rparr>, sa_held_since s \<noteq> None \<and> \<not> sa_fired s)"

section \<open>The classifier as a rule about angles\<close>

lemma sat32_id [simp]: "is_i32 x \<Longrightarrow> sat32 x = x"
  by (simp add: sat32_def is_i32_def)

lemma sat32_is_i32 [simp]: "is_i32 (sat32 x)"
  by (simp add: sat32_def is_i32_def i32_min_def i32_max_def)

lemma sat32_abs_le: "\<bar>sat32 x\<bar> \<le> \<bar>x\<bar>"
  by (auto simp: sat32_def i32_min_def i32_max_def)

definition straight :: "int \<Rightarrow> int \<Rightarrow> bool" where
  "straight main cross \<longleftrightarrow> 50 \<le> main \<and> (\<bar>cross\<bar> \<le> 40 \<or> 100 * \<bar>cross\<bar> \<le> 35 * main)"

lemma cross_limit_iff:
  assumes "0 \<le> m" "m \<le> 61356675" "0 \<le> c"
  shows "max GESTURE_SWIPE_DEADZONE (sat32 (m * 35) div 100) < c \<longleftrightarrow> \<not> (c \<le> 40 \<or> 100 * c \<le> 35 * m)"
proof -
  have "sat32 (m * 35) = m * 35"
    using assms by (intro sat32_id) (simp add: is_i32_def i32_min_def i32_max_def)
  moreover have "m * 35 div 100 < c \<longleftrightarrow> m * 35 < c * 100"
  proof
    assume "m * 35 div 100 < c"
    then show "m * 35 < c * 100"
      using mult_div_mod_eq [of 100 "m * 35"] pos_mod_bound [of 100 "m * 35"] by linarith
  next
    assume "m * 35 < c * 100"
    then show "m * 35 div 100 < c"
      using mult_div_mod_eq [of 100 "m * 35"] pos_mod_sign [of 100 "m * 35"] by linarith
  qed
  ultimately show ?thesis
    by (auto simp: GESTURE_SWIPE_DEADZONE_def)
qed

lemma sat32_abs: "\<bar>x\<bar> \<le> 61356675 \<Longrightarrow> sat32 \<bar>x\<bar> = \<bar>x\<bar>"
  by (intro sat32_id) (simp add: is_i32_def i32_min_def i32_max_def)

lemma detect_horizontal:
  assumes "\<bar>dx\<bar> \<le> 61356675" "\<bar>dy\<bar> < \<bar>dx\<bar>"
  shows "detect_swipe dx dy = (if straight \<bar>dx\<bar> dy then Some (if 0 < dx then Right else Left) else None)"
proof -
  have y: "\<bar>dy\<bar> \<le> 61356675" and m: "max \<bar>dx\<bar> \<bar>dy\<bar> = \<bar>dx\<bar>"
    using assms by linarith+
  show ?thesis
    unfolding detect_swipe_def Let_def sat32_abs [OF assms(1)] sat32_abs [OF y] m straight_def
      cross_limit_iff [OF abs_ge_zero assms(1) abs_ge_zero] GESTURE_SWIPE_THRESHOLD_def
    using assms(2) by simp
qed

lemma detect_vertical:
  assumes "\<bar>dy\<bar> \<le> 61356675" "\<bar>dx\<bar> \<le> \<bar>dy\<bar>"
  shows "detect_swipe dx dy = (if straight \<bar>dy\<bar> dx then Some (if 0 < dy then Down else Up) else None)"
proof -
  have x: "\<bar>dx\<bar> \<le> 61356675" and m: "max \<bar>dx\<bar> \<bar>dy\<bar> = \<bar>dy\<bar>"
    using assms by linarith+
  show ?thesis
    unfolding detect_swipe_def Let_def sat32_abs [OF assms(1)] sat32_abs [OF x] m straight_def
      cross_limit_iff [OF abs_ge_zero assms(1) abs_ge_zero] GESTURE_SWIPE_THRESHOLD_def
    using assms(2) by simp
qed

lemma straight_pos: "straight m c \<Longrightarrow> 0 < m"
  by (simp add: straight_def)

text \<open>Swipes are straight. For every travel of up to 61 million units an axis, far beyond a sensor
  report, the classifier commits a direction exactly when the travel on its axis is strictly the
  longer (a tie goes to the vertical axis), at least 50 units, and the drift on the other axis is
  at most 40 units or at most 35 percent of it; the sign gives the side, and never a click.\<close>

theorem detect_swipe_rule:
  assumes "\<bar>dx\<bar> \<le> 61356675" "\<bar>dy\<bar> \<le> 61356675"
  shows "(detect_swipe dx dy = Some Right \<longleftrightarrow> \<bar>dy\<bar> < dx \<and> straight dx dy)
    \<and> (detect_swipe dx dy = Some Left \<longleftrightarrow> \<bar>dy\<bar> < - dx \<and> straight (- dx) dy)
    \<and> (detect_swipe dx dy = Some Down \<longleftrightarrow> \<bar>dx\<bar> \<le> dy \<and> straight dy dx)
    \<and> (detect_swipe dx dy = Some Up \<longleftrightarrow> \<bar>dx\<bar> \<le> - dy \<and> straight (- dy) dx)
    \<and> detect_swipe dx dy \<noteq> Some Click"
proof (cases "\<bar>dy\<bar> < \<bar>dx\<bar>")
  case True
  show ?thesis
    unfolding detect_horizontal [OF assms(1) True]
    using True straight_pos [of dx dy] straight_pos [of "- dx" dy] by (auto simp: abs_if split: if_splits)
next
  case False
  then have le: "\<bar>dx\<bar> \<le> \<bar>dy\<bar>"
    by simp
  show ?thesis
    unfolding detect_vertical [OF assms(2) le]
    using le straight_pos [of dy dx] straight_pos [of "- dy" dx] by (auto simp: abs_if split: if_splits)
qed

section \<open>Travel pays for gestures\<close>

definition report_length :: "int \<Rightarrow> int \<Rightarrow> int" where
  "report_length dx dy = max \<bar>dx\<bar> \<bar>dy\<bar>"

definition banked :: "SwipeAccumulator \<Rightarrow> int" where
  "banked s = max \<bar>sa_dx s\<bar> \<bar>sa_dy s\<bar>"

lemma banked_nonneg: "0 \<le> banked s"
  by (simp add: banked_def le_max_iff_disj)

text \<open>\<open>f\<close> fresh commits and \<open>r\<close> repeats were paid for out of \<open>travel\<close>.\<close>

definition budget :: "SwipeAccumulator \<Rightarrow> int \<Rightarrow> int \<Rightarrow> int \<Rightarrow> bool" where
  "budget s f r travel \<longleftrightarrow> 50 * f + banked s \<le> travel \<and> 600 * r + sa_repeat s \<le> travel \<and> 0 \<le> sa_repeat s"

lemma detect_swipe_length: "detect_swipe dx dy = Some dir \<Longrightarrow> 50 \<le> report_length dx dy"
  using sat32_abs_le [of "\<bar>dx\<bar>"] sat32_abs_le [of "\<bar>dy\<bar>"]
  by (auto simp: detect_swipe_def Let_def report_length_def GESTURE_SWIPE_THRESHOLD_def split: if_splits)

lemma rest_budget: "budget s f r travel \<Longrightarrow> budget ((rest_ends_stroke s dx dy now)\<lparr>sa_moved_at := m\<rparr>) f r travel"
  by (auto simp: budget_def rest_ends_stroke_def banked_def Let_def)

lemma sat32_ge: "i32_min \<le> x \<Longrightarrow> i32_min \<le> y \<Longrightarrow> sat32 (x + y) \<le> max i32_min (x + y)"
  by (auto simp: sat32_def)

lemma sat32_le_pos: "sat32 x \<le> max x 0"
  by (auto simp: sat32_def i32_min_def i32_max_def)

lemma along_le: "along dir dx dy \<le> report_length dx dy"
proof (cases dir)
  case Left
  show ?thesis
    using sat32_le_pos [of "- dx"] by (auto simp: Left report_length_def)
next
  case Up
  show ?thesis
    using sat32_le_pos [of "- dy"] by (auto simp: Up report_length_def)
qed (auto simp: report_length_def)

lemma report_length_nonneg: "0 \<le> report_length dx dy"
  by (simp add: report_length_def le_max_iff_disj)

lemma progress_budget:
  assumes "budget s f r travel"
  shows "budget (repeat_progress s dir dx dy) f r (travel + report_length dx dy)"
  using assms along_le [of dir dx dy] report_length_nonneg [of dx dy] sat32_le_pos [of "sa_repeat s + along dir dx dy"]
  by (auto simp: budget_def repeat_progress_def banked_def Let_def)

lemma clamp_turn_fields [simp]:
  "sa_held_since (clamp_turn s) = sa_held_since s" "sa_fired (clamp_turn s) = sa_fired s"
  "sa_last (clamp_turn s) = sa_last s" "sa_repeat (clamp_turn s) = sa_repeat s"
  "sa_repeat_cross (clamp_turn s) = sa_repeat_cross s" "sa_moved_at (clamp_turn s) = sa_moved_at s"
  by (auto simp: clamp_turn_def split: option.splits GestureDirection.splits)

lemma banked_clamp: "banked (clamp_turn s) \<le> banked s"
  by (auto simp: clamp_turn_def banked_def split: option.splits GestureDirection.splits)

lemma sat32_sum: "\<bar>sat32 (x + y)\<bar> \<le> \<bar>x\<bar> + \<bar>y\<bar>"
  using sat32_abs_le abs_triangle_ineq by (rule order_trans)

lemma banked_sum:
  "banked (s\<lparr>sa_dx := sat32 (sa_dx s + dx), sa_dy := sat32 (sa_dy s + dy)\<rparr>) \<le> banked s + report_length dx dy"
  unfolding banked_def report_length_def
  by (auto intro!: max.boundedI order_trans [OF sat32_sum] add_mono)

definition summed :: "SwipeAccumulator \<Rightarrow> int \<Rightarrow> int \<Rightarrow> SwipeAccumulator" where
  "summed s dx dy = clamp_turn (s\<lparr>sa_dx := sat32 (sa_dx s + dx), sa_dy := sat32 (sa_dy s + dy)\<rparr>)"

lemma banked_summed: "banked (summed s dx dy) \<le> banked s + report_length dx dy"
  using banked_clamp banked_sum order_trans unfolding summed_def by blast

lemma summed_fields [simp]:
  "sa_held_since (summed s dx dy) = sa_held_since s" "sa_fired (summed s dx dy) = sa_fired s"
  "sa_last (summed s dx dy) = sa_last s" "sa_repeat (summed s dx dy) = sa_repeat s"
  "sa_repeat_cross (summed s dx dy) = sa_repeat_cross s"
  by (simp_all add: summed_def)

definition gate_open :: "SwipeAccumulator \<Rightarrow> nat \<Rightarrow> bool" where
  "gate_open s now = (case sa_held_since s of Some t \<Rightarrow> GESTURE_HOLD_FOR_SWIPE \<le> now - t | None \<Rightarrow> False)"

text \<open>The two outcomes of summing a report.\<close>

lemma sum_travel_cases:
  obtains (keep) "sum_travel s dx dy now = (summed s dx dy, None)"
  | (commit) dir where "sum_travel s dx dy now =
      ((summed s dx dy)\<lparr>sa_fired := True, sa_last := Some dir, sa_repeat := 0, sa_repeat_cross := 0, sa_dx := 0, sa_dy := 0\<rparr>,
       Some dir)"
      "gate_open s now" "50 \<le> banked (summed s dx dy)" "detect_swipe (sa_dx (summed s dx dy)) (sa_dy (summed s dx dy)) = Some dir"
proof (cases "if gate_open s now then detect_swipe (sa_dx (summed s dx dy)) (sa_dy (summed s dx dy)) else None")
  case None
  then show ?thesis
    using keep unfolding sum_travel_def summed_def [symmetric] Let_def gate_open_def by simp
next
  case (Some dir)
  then have "gate_open s now" "detect_swipe (sa_dx (summed s dx dy)) (sa_dy (summed s dx dy)) = Some dir"
    by (simp_all split: if_splits)
  then show ?thesis
    using commit [of dir] detect_swipe_length Some
    unfolding sum_travel_def summed_def [symmetric] Let_def gate_open_def banked_def report_length_def by simp
qed

definition paid :: "SwipeAccumulator \<times> GestureDirection option \<Rightarrow> int \<Rightarrow> int \<Rightarrow> int \<Rightarrow> bool" where
  "paid p f r travel \<longleftrightarrow>
     (case snd p of
        None \<Rightarrow> budget (fst p) f r travel
      | Some _ \<Rightarrow> budget (fst p) (f + 1) r travel \<or> budget (fst p) f (r + 1) travel)"

lemma sum_travel_paid:
  assumes "50 * f + banked s \<le> travel" "600 * r + sa_repeat s \<le> travel + report_length dx dy" "0 \<le> sa_repeat s"
  shows "paid (sum_travel s dx dy now) f r (travel + report_length dx dy)"
proof (cases rule: sum_travel_cases [of s dx dy now])
  case keep
  then show ?thesis
    using assms banked_summed [of s dx dy] by (simp add: paid_def budget_def)
next
  case (commit dir)
  have "50 * (f + 1) \<le> travel + report_length dx dy"
    using assms(1) commit(3) banked_summed [of s dx dy] by (simp add: distrib_left)
  then have "budget (fst (sum_travel s dx dy now)) (f + 1) r (travel + report_length dx dy)"
    using assms(2,3) by (simp add: commit(1) budget_def) (simp add: banked_def)
  then show ?thesis
    by (simp add: paid_def commit(1))
qed

lemma accumulate_paid:
  assumes "budget s f r travel"
  shows "paid (accumulate s dx dy now now2) f r (travel + report_length dx dy)"
proof (cases "sa_held_since s = None")
  case True
  then show ?thesis
    using assms report_length_nonneg [of dx dy] by (simp add: accumulate_def paid_def budget_def)
next
  case False
  then obtain t where held: "sa_held_since s = Some t"
    by auto
  define s1 where "s1 = (rest_ends_stroke s dx dy now)\<lparr>sa_moved_at := Some now\<rparr>"
  have s1: "budget s1 f r travel"
    using rest_budget [OF assms] by (simp add: s1_def)
  show ?thesis
  proof (cases "sa_last s1")
    case None
    then have "accumulate s dx dy now now2 = sum_travel s1 dx dy now2"
      using held by (simp add: accumulate_def Let_def flip: s1_def)
    then show ?thesis
      using sum_travel_paid [of f s1 travel r dx dy now2] s1 report_length_nonneg [of dx dy] by (simp add: budget_def)
  next
    case (Some dir)
    define s2 where "s2 = repeat_progress s1 dir dx dy"
    have s2: "budget s2 f r (travel + report_length dx dy)" and b: "banked s2 = banked s1"
      using progress_budget [OF s1] by (simp_all add: s2_def) (simp add: repeat_progress_def banked_def Let_def)
    have sum: "paid (sum_travel s2 dx dy now2) f r (travel + report_length dx dy)"
      using sum_travel_paid [of f s2 travel r dx dy now2] s1 s2 b by (simp add: budget_def)
    have fire: "paid (fire_repeat s2 e a c, Some dir) f r (travel + report_length dx dy)" if "600 \<le> sa_repeat s2" for e a c
    proof -
      have "budget (fire_repeat s2 e a c) f (r + 1) (travel + report_length dx dy)"
        using s2 that banked_nonneg [of s2]
        by (simp add: budget_def fire_repeat_def GESTURE_REPEAT_DISTANCE_def GESTURE_SWIPE_THRESHOLD_def)
          (simp add: banked_def)
      then show ?thesis
        by (simp add: paid_def)
    qed
    show ?thesis
      using held Some sum fire s2
      by (simp add: accumulate_def Let_def GESTURE_REPEAT_DISTANCE_def GESTURE_SWIPE_THRESHOLD_def flip: s1_def s2_def)
        (simp add: paid_def)
  qed
qed

section \<open>The accumulator's state\<close>

definition swipe_ok :: "SwipeAccumulator \<Rightarrow> bool" where
  "swipe_ok s \<longleftrightarrow>
     is_i32 (sa_dx s) \<and> is_i32 (sa_dy s) \<and> is_i32 (sa_repeat s) \<and> is_i32 (sa_repeat_cross s)
     \<and> 0 \<le> sa_repeat s \<and> (sa_last s \<noteq> None \<longrightarrow> sa_fired s)"

lemma is_i32_0 [simp]: "is_i32 0"
  by (simp add: is_i32_def i32_min_def i32_max_def)

lemma is_i32_clamp [simp]: "is_i32 x \<Longrightarrow> is_i32 (min x 0)" "is_i32 x \<Longrightarrow> is_i32 (max x 0)"
  by (auto simp: is_i32_def i32_min_def i32_max_def)

text \<open>What one report may do to the hold: \<open>early\<close> says that a swipe may fire now.\<close>

definition step_ok :: "SwipeAccumulator \<Rightarrow> nat \<Rightarrow> SwipeAccumulator \<times> GestureDirection option \<Rightarrow> bool" where
  "step_ok s now p \<longleftrightarrow>
     swipe_ok (fst p) \<and> sa_held_since (fst p) = sa_held_since s
     \<and> (case snd p of
          None \<Rightarrow> sa_fired (fst p) = sa_fired s
        | Some dir \<Rightarrow> sa_fired (fst p) \<and> dir \<noteq> Click \<and> (gate_open s now \<or> sa_fired s))"

lemma detect_swipe_not_click: "detect_swipe dx dy \<noteq> Some Click"
  by (auto simp: detect_swipe_def Let_def)

lemma clamp_turn_i32:
  "is_i32 (sa_dx s) \<Longrightarrow> is_i32 (sa_dx (clamp_turn s))" "is_i32 (sa_dy s) \<Longrightarrow> is_i32 (sa_dy (clamp_turn s))"
  by (auto simp: clamp_turn_def split: option.splits GestureDirection.splits)

lemma sum_travel_ok: "swipe_ok s \<Longrightarrow> step_ok s now (sum_travel s dx dy now)"
proof (cases rule: sum_travel_cases [of s dx dy now])
  case keep
  assume "swipe_ok s"
  then show ?thesis
    using clamp_turn_i32 [of "s\<lparr>sa_dx := sat32 (sa_dx s + dx), sa_dy := sat32 (sa_dy s + dy)\<rparr>"]
    by (simp add: keep step_ok_def swipe_ok_def) (simp add: summed_def)
next
  case (commit dir)
  assume "swipe_ok s"
  then show ?thesis
    using commit(2,4) detect_swipe_not_click by (auto simp: commit(1) step_ok_def swipe_ok_def)
qed

lemma rest_ends_stroke_ok:
  "swipe_ok s \<Longrightarrow> swipe_ok ((rest_ends_stroke s dx dy now)\<lparr>sa_moved_at := m\<rparr>)"
  "sa_held_since (rest_ends_stroke s dx dy now) = sa_held_since s"
  "sa_fired (rest_ends_stroke s dx dy now) = sa_fired s"
  by (auto simp: rest_ends_stroke_def swipe_ok_def Let_def)

lemma repeat_progress_ok:
  "swipe_ok s \<Longrightarrow> swipe_ok (repeat_progress s dir dx dy)"
  "sa_held_since (repeat_progress s dir dx dy) = sa_held_since s"
  "sa_fired (repeat_progress s dir dx dy) = sa_fired s"
  by (auto simp: repeat_progress_def swipe_ok_def Let_def)

lemma fire_repeat_ok:
  "swipe_ok s \<Longrightarrow> GESTURE_REPEAT_DISTANCE \<le> sa_repeat s \<Longrightarrow> swipe_ok (fire_repeat s e a c)"
  "sa_held_since (fire_repeat s e a c) = sa_held_since s" "sa_fired (fire_repeat s e a c) = sa_fired s"
  by (auto simp: fire_repeat_def swipe_ok_def is_i32_def i32_min_def i32_max_def GESTURE_REPEAT_DISTANCE_def
      GESTURE_SWIPE_THRESHOLD_def sat32_def)

lemma step_ok_from:
  "step_ok s' now p \<Longrightarrow> sa_held_since s' = sa_held_since s \<Longrightarrow> sa_fired s' = sa_fired s \<Longrightarrow> step_ok s now p"
  by (simp add: step_ok_def gate_open_def split: option.splits)

lemma accumulate_ok:
  assumes "swipe_ok s"
  shows "step_ok s now2 (accumulate s dx dy now now2)"
proof (cases "sa_held_since s")
  case None
  then show ?thesis
    using assms by (simp add: accumulate_def step_ok_def)
next
  case (Some t)
  define s1 where "s1 = (rest_ends_stroke s dx dy now)\<lparr>sa_moved_at := Some now\<rparr>"
  have s1: "swipe_ok s1" "sa_held_since s1 = sa_held_since s" "sa_fired s1 = sa_fired s"
    using rest_ends_stroke_ok assms by (simp_all add: s1_def)
  have first: "step_ok s now2 (sum_travel s1 dx dy now2)"
    using sum_travel_ok [OF s1(1)] s1(2,3) by (rule step_ok_from)
  show ?thesis
  proof (cases "sa_last s1")
    case None
    then show ?thesis
      using first Some by (simp add: accumulate_def Let_def flip: s1_def)
  next
    case last: (Some dir)
    define s2 where "s2 = repeat_progress s1 dir dx dy"
    have s2: "swipe_ok s2" "sa_held_since s2 = sa_held_since s" "sa_fired s2 = sa_fired s"
      using repeat_progress_ok s1 by (simp_all add: s2_def)
    have fired: "sa_fired s"
      using s1 last by (simp add: swipe_ok_def)
    have sum: "step_ok s now2 (sum_travel s2 dx dy now2)"
      using sum_travel_ok [OF s2(1)] s2(2,3) by (rule step_ok_from)
    have keep: "step_ok s now2 (s2, None)"
      using s2 by (simp add: step_ok_def)
    have fire: "step_ok s now2 (fire_repeat s2 e a c, Some dir)"
      if "GESTURE_REPEAT_DISTANCE \<le> sa_repeat s2" "continues dir dx dy" for e a c
      using fire_repeat_ok(1) [OF s2(1) that(1)] fire_repeat_ok(2,3) s2 fired that(2)
      by (auto simp: step_ok_def continues_def Let_def)
    show ?thesis
      using Some last sum keep fire by (simp add: accumulate_def Let_def flip: s1_def s2_def)
  qed
qed

section \<open>Holds\<close>

datatype SwipeEvent = SwBegin nat | SwMove int int nat nat | SwEnd

text \<open>The accumulator with the clock, and since the hold began the gestures it fired and the length
  of the path it was given, a report counting its longer axis.\<close>

record SwipeWorld =
  sv_acc :: SwipeAccumulator
  sv_now :: nat
  sv_gestures :: "GestureDirection list"
  sv_travel :: int

definition swipe_init :: "SwipeWorld \<Rightarrow> bool" where
  "swipe_init w \<longleftrightarrow> sv_acc w = swipe_default \<and> sv_gestures w = [] \<and> sv_travel w = 0"

fun swipe_step :: "SwipeWorld \<Rightarrow> SwipeEvent \<Rightarrow> SwipeWorld option" where
  "swipe_step w (SwBegin t) =
     (if sv_now w \<le> t
      then Some \<lparr>sv_acc = swipe_begin (sv_acc w) t, sv_now = t, sv_gestures = [], sv_travel = 0\<rparr> else None)"
| "swipe_step w (SwMove dx dy now now2) =
     (if is_i32 dx \<and> is_i32 dy \<and> sv_now w \<le> now \<and> now \<le> now2
      then (case accumulate (sv_acc w) dx dy now now2 of
              (s, g) \<Rightarrow> Some \<lparr>sv_acc = s, sv_now = now2,
                 sv_gestures = sv_gestures w @ (case g of None \<Rightarrow> [] | Some dir \<Rightarrow> [dir]),
                 sv_travel = sv_travel w + report_length dx dy\<rparr>)
      else None)"
| "swipe_step w SwEnd = Some (w\<lparr>sv_acc := fst (swipe_end (sv_acc w))\<rparr>)"

definition swipe_inv :: "SwipeWorld \<Rightarrow> bool" where
  "swipe_inv w \<longleftrightarrow>
     swipe_ok (sv_acc w)
     \<and> (sa_fired (sv_acc w) \<longleftrightarrow> sv_gestures w \<noteq> [])
     \<and> Click \<notin> set (sv_gestures w)
     \<and> (\<forall>t. sa_held_since (sv_acc w) = Some t \<longrightarrow> sv_gestures w \<noteq> [] \<longrightarrow> t + 160 \<le> sv_now w)
     \<and> (\<exists>f r. int (length (sv_gestures w)) = f + r \<and> budget (sv_acc w) f r (sv_travel w))"

lemma swipe_inv_move:
  assumes inv: "swipe_inv w" and step: "swipe_step w (SwMove dx dy now now2) = Some w'"
  shows "swipe_inv w'"
proof -
  obtain s g where acc: "accumulate (sv_acc w) dx dy now now2 = (s, g)"
    by fastforce
  have w': "w' = \<lparr>sv_acc = s, sv_now = now2, sv_gestures = sv_gestures w @ (case g of None \<Rightarrow> [] | Some dir \<Rightarrow> [dir]),
      sv_travel = sv_travel w + report_length dx dy\<rparr>" and time: "sv_now w \<le> now2"
    using step by (simp_all add: acc split: if_splits)
  have ok: "step_ok (sv_acc w) now2 (s, g)"
    using accumulate_ok [of "sv_acc w" now2 dx dy now] inv by (simp add: acc swipe_inv_def)
  obtain f r where fr: "int (length (sv_gestures w)) = f + r" "budget (sv_acc w) f r (sv_travel w)"
    using inv by (auto simp: swipe_inv_def)
  have paid: "paid (s, g) f r (sv_travel w + report_length dx dy)"
    using accumulate_paid [OF fr(2), of dx dy now now2] by (simp add: acc)
  show ?thesis
  proof (cases g)
    case None
    then show ?thesis
      using ok fr paid inv time by (auto simp: w' step_ok_def paid_def swipe_inv_def)
  next
    case (Some dir)
    have "t + 160 \<le> now2" if "sa_held_since s = Some t" for t
    proof -
      have t: "sa_held_since (sv_acc w) = Some t" and "gate_open (sv_acc w) now2 \<or> sv_gestures w \<noteq> []"
        using ok that inv by (auto simp: Some step_ok_def swipe_inv_def)
      moreover have "sv_gestures w \<noteq> [] \<Longrightarrow> t + 160 \<le> sv_now w"
        using inv t by (simp add: swipe_inv_def)
      ultimately show ?thesis
        using time by (auto simp: gate_open_def GESTURE_HOLD_FOR_SWIPE_def)
    qed
    moreover have "\<exists>f' r'. int (length (sv_gestures w) + 1) = f' + r' \<and> budget s f' r' (sv_travel w + report_length dx dy)"
      using paid fr(1) by (simp add: Some paid_def) (metis add.assoc add.commute)
    ultimately show ?thesis
      using ok inv by (auto simp: w' Some step_ok_def swipe_inv_def)
  qed
qed

interpretation swipe: invariant_system swipe_init swipe_step swipe_inv
proof
  show "swipe_inv w" if "swipe_init w" for w
    using that by (auto simp: swipe_init_def swipe_inv_def swipe_default_def swipe_ok_def budget_def banked_def
        intro!: exI [of _ 0])
  show "swipe_inv w'" if "swipe_inv w" "swipe_step w ev = Some w'" for w ev w'
  proof (cases ev)
    case (SwBegin t)
    then show ?thesis
      using that by (auto simp: swipe_inv_def swipe_begin_def swipe_ok_def budget_def banked_def split: if_splits
          intro!: exI [of _ 0])
  next
    case (SwMove dx dy now now2)
    then show ?thesis
      using that swipe_inv_move by simp
  next
    case SwEnd
    have "budget (s\<lparr>sa_held_since := None\<rparr>) = budget s" "swipe_ok (s\<lparr>sa_held_since := None\<rparr>) = swipe_ok s" for s
      by (simp_all add: budget_def banked_def swipe_ok_def fun_eq_iff)
    moreover have "w' = w\<lparr>sv_acc := (sv_acc w)\<lparr>sa_held_since := None\<rparr>\<rparr>"
      using SwEnd that(2) by (simp add: swipe_end_def)
    ultimately show ?thesis
      using that(1) by (simp add: swipe_inv_def)
  qed
qed

text \<open>C33: every hold is a click or swipes, never both. In any sequence of holds and reports, ending a
  hold reports a click exactly when it fired no swipe; swipes are never clicks; none fires in the
  first 160 milliseconds of the hold; and travel pays for them: 600 units for each gesture repeated
  in one stroke and 50 for every other, so a hold fires at most 13 gestures per 600 units.\<close>

theorem click_or_swipes:
  assumes "reach swipe_init swipe_step w"
  shows "(snd (swipe_end (sv_acc w)) \<longleftrightarrow> is_holding (sv_acc w) \<and> sv_gestures w = [])
    \<and> Click \<notin> set (sv_gestures w)
    \<and> (\<forall>t. sa_held_since (sv_acc w) = Some t \<longrightarrow> sv_now w < t + 160 \<longrightarrow> sv_gestures w = [])
    \<and> 600 * int (length (sv_gestures w)) \<le> 13 * sv_travel w"
proof -
  have inv: "swipe_inv w"
    by (rule swipe.reachable_inv [OF assms])
  obtain f r where "int (length (sv_gestures w)) = f + r" "budget (sv_acc w) f r (sv_travel w)"
    using inv by (auto simp: swipe_inv_def)
  then have "600 * int (length (sv_gestures w)) \<le> 13 * sv_travel w"
    using banked_nonneg [of "sv_acc w"] by (simp add: budget_def)
  then show ?thesis
    using inv by (auto simp: swipe_inv_def swipe_end_def is_holding_def)
qed

section \<open>The arithmetic fits\<close>

definition is_i16 :: "int \<Rightarrow> bool" where
  "is_i16 x \<longleftrightarrow> - (2 ^ 15) \<le> x \<and> x < 2 ^ 15"

definition is_i64 :: "int \<Rightarrow> bool" where
  "is_i64 x \<longleftrightarrow> - (2 ^ 63) \<le> x \<and> x < 2 ^ 63"

lemma is_i32_abs: "is_i32 x \<Longrightarrow> \<bar>x\<bar> \<le> 2 ^ 31"
  by (simp add: is_i32_def i32_min_def i32_max_def abs_le_iff)

lemma is_i16_abs: "is_i16 x \<Longrightarrow> \<bar>x\<bar> \<le> 2 ^ 15"
  by (simp add: is_i16_def abs_le_iff)

lemma mult_abs_le: "\<bar>x\<bar> \<le> m \<Longrightarrow> \<bar>y\<bar> \<le> n \<Longrightarrow> \<bar>x * y\<bar> \<le> (m * n :: int)"
  unfolding abs_mult by (intro mult_mono) auto

lemma abs_is_i64: "\<bar>x\<bar> < 2 ^ 63 \<Longrightarrow> is_i64 x"
  by (simp add: is_i64_def abs_less_iff)

lemma heading_fits:
  assumes "swipe_ok s" "is_i16 dx" "is_i16 dy"
  shows "is_i64 (heading s dx dy)"
proof -
  have "\<bar>sa_dx s * dx\<bar> \<le> 2 ^ 31 * 2 ^ 15" "\<bar>sa_dy s * dy\<bar> \<le> 2 ^ 31 * 2 ^ 15"
    by (rule mult_abs_le [OF is_i32_abs is_i16_abs]; use assms in \<open>simp add: swipe_ok_def\<close>)+
  then show ?thesis
    unfolding heading_def by (intro abs_is_i64) (simp add: abs_le_iff abs_less_iff)
qed

lemma abs_sdiv_le: "0 < b \<Longrightarrow> \<bar>a sdiv b\<bar> \<le> \<bar>a :: int\<bar>"
proof -
  assume "0 < b"
  then have "\<bar>a sdiv b\<bar> = \<bar>a\<bar> div b"
    by (cases "a = 0") (simp_all add: signed_divide_int_def abs_mult abs_sgn_eq pos_imp_zdiv_nonneg_iff)
  also have "\<dots> \<le> \<bar>a\<bar>"
    using \<open>0 < b\<close> zdiv_mono2 [of "\<bar>a\<bar>" 1 b] by simp
  finally show ?thesis .
qed

text \<open>The numbers of one repeat, the report read along and across the committed direction.\<close>

definition repeat_fits :: "SwipeAccumulator \<Rightarrow> int \<Rightarrow> int \<Rightarrow> int \<Rightarrow> bool" where
  "repeat_fits s earlier a c \<longleftrightarrow>
     (let excess = sa_repeat s - GESTURE_REPEAT_DISTANCE in
      0 < a \<and> is_i32 excess \<and> is_i64 (c * min excess a) \<and> is_i32 (max 0 (excess - a))
      \<and> is_i64 (sat32 (sa_repeat_cross s - c) * max 0 (excess - a)) \<and> is_i64 (carried_drift s earlier a c))"

lemma carried_drift_le:
  assumes "0 < a" "\<bar>c\<bar> \<le> 2 ^ 31" "\<bar>t\<bar> \<le> 2 ^ 31" "0 \<le> e" "e \<le> 2 ^ 31"
    "sa_repeat s - GESTURE_REPEAT_DISTANCE = e" "t = sat32 (sa_repeat_cross s - c)" "a \<le> 2 ^ 31"
  shows "\<bar>carried_drift s earlier a c\<bar> < 2 ^ 63"
proof -
  have m: "\<bar>min e a\<bar> \<le> 2 ^ 31"
    using assms by (simp add: abs_le_iff min_le_iff_disj)
  have x: "\<bar>(c * min e a) sdiv a\<bar> \<le> 2 ^ 31 * 2 ^ 31"
    using abs_sdiv_le [OF assms(1)] mult_abs_le [OF assms(2) m] by (rule order_trans)
  have y: "\<bar>(t * (e - a)) sdiv earlier\<bar> \<le> 2 ^ 31 * (2 ^ 31 - 1)" if "a < e" "0 < earlier"
  proof -
    have "\<bar>e - a\<bar> \<le> 2 ^ 31 - 1"
      using assms(1,4,5) that(1) by (simp add: abs_le_iff)
    from order_trans [OF abs_sdiv_le [OF that(2)] mult_abs_le [OF assms(3) this]] show ?thesis .
  qed
  show ?thesis
    using x y unfolding carried_drift_def Let_def assms(6) assms(7) [symmetric]
    by (auto simp: abs_less_iff abs_le_iff)
qed

lemma continues_along: "continues dir dx dy \<Longrightarrow> 0 < along dir dx dy"
  by (cases dir) (auto simp: continues_def Let_def sat32_def i32_min_def i32_max_def)

lemma along_i32: "is_i32 dx \<Longrightarrow> is_i32 dy \<Longrightarrow> is_i32 (along dir dx dy)"
  by (cases dir) auto

lemma across_i32: "is_i32 dx \<Longrightarrow> is_i32 dy \<Longrightarrow> is_i32 (across dir dx dy)"
  by (cases dir) auto

lemma repeat_fits_report:
  assumes "swipe_ok s" "is_i32 dx" "is_i32 dy" "continues dir dx dy" "GESTURE_REPEAT_DISTANCE \<le> sa_repeat s"
  shows "repeat_fits s earlier (along dir dx dy) (across dir dx dy)"
proof -
  define a c e where "a = along dir dx dy" and "c = across dir dx dy" and "e = sa_repeat s - GESTURE_REPEAT_DISTANCE"
  define t where "t = sat32 (sa_repeat_cross s - c)"
  have a: "0 < a" "is_i32 a" and c: "\<bar>c\<bar> \<le> 2 ^ 31" and t: "\<bar>t\<bar> \<le> 2 ^ 31"
    using assms continues_along along_i32 across_i32 is_i32_abs by (auto simp: a_def c_def t_def)
  have e: "0 \<le> e" "is_i32 e"
    using assms(1,5) by (auto simp: e_def swipe_ok_def is_i32_def i32_min_def i32_max_def GESTURE_REPEAT_DISTANCE_def
        GESTURE_SWIPE_THRESHOLD_def)
  have a': "a \<le> 2 ^ 31" and e': "e \<le> 2 ^ 31"
    using a(2) e(2) by (simp_all add: is_i32_def i32_max_def)
  have r: "is_i32 (max 0 (e - a))"
    using a(1) e by (auto simp: is_i32_def i32_min_def i32_max_def)
  have "\<bar>min e a\<bar> \<le> 2 ^ 31"
    using a e a' e' by (simp add: abs_le_iff min_le_iff_disj)
  then have p: "\<bar>c * min e a\<bar> \<le> 2 ^ 31 * 2 ^ 31"
    using c by (intro mult_abs_le)
  have q: "\<bar>t * max 0 (e - a)\<bar> \<le> 2 ^ 31 * 2 ^ 31"
    using t is_i32_abs [OF r] by (rule mult_abs_le)
  have d: "\<bar>carried_drift s earlier a c\<bar> < 2 ^ 63"
    using carried_drift_le [OF a(1) c t e(1) e' _ t_def a'] e_def by simp
  show ?thesis
    unfolding repeat_fits_def Let_def a_def [symmetric] c_def [symmetric] e_def [symmetric] t_def [symmetric]
    using a(1) e(2) r p q d by (auto intro!: abs_is_i64)
qed


text \<open>For 32-bit reports the product does overflow in one corner: travel and report at the minimum on
  both axes.\<close>

definition minimum_world :: SwipeWorld where
  "minimum_world = \<lparr>sv_acc = swipe_default\<lparr>sa_held_since := Some 0, sa_dx := i32_min, sa_dy := i32_min,
     sa_moved_at := Some 0\<rparr>, sv_now = 0, sv_gestures = [], sv_travel = 2 ^ 31\<rparr>"

lemma minimum_world_reach: "reach swipe_init swipe_step minimum_world"
proof -
  have "reach swipe_init swipe_step \<lparr>sv_acc = swipe_default, sv_now = 0, sv_gestures = [], sv_travel = 0\<rparr>"
    by (rule reach_init) (simp add: swipe_init_def)
  then show ?thesis
    by (rule reach_run [of _ _ _ "[SwBegin 0, SwMove i32_min i32_min 0 0]"]) code_simp
qed

theorem heading_overflows_at_minimum:
  "reach swipe_init swipe_step minimum_world \<and> is_i32 i32_min \<and> \<not> is_i64 (heading (sv_acc minimum_world) i32_min i32_min)"
  using minimum_world_reach by (simp add: minimum_world_def heading_def is_i64_def is_i32_def i32_min_def i32_max_def)

section \<open>Witnesses\<close>

definition swiped_world :: SwipeWorld where
  "swiped_world = \<lparr>sv_acc = swipe_default\<lparr>sa_held_since := Some 0, sa_fired := True, sa_last := Some Right,
       sa_repeat := 50, sa_repeat_cross := 0, sa_moved_at := Some 260\<rparr>,
     sv_now = 260, sv_gestures = [Right, Right], sv_travel = 710\<rparr>"

lemma swiped_world_reach: "reach swipe_init swipe_step swiped_world"
proof -
  have "reach swipe_init swipe_step \<lparr>sv_acc = swipe_default, sv_now = 0, sv_gestures = [], sv_travel = 0\<rparr>"
    by (rule reach_init) (simp add: swipe_init_def)
  then show ?thesis
    by (rule reach_run [of _ _ _ "[SwBegin 0, SwMove 60 3 200 200, SwMove 650 10 260 260]"]) code_simp
qed

theorem click_or_swipes_witness:
  "\<not> snd (swipe_end (sv_acc swiped_world)) \<and> 600 * int (length (sv_gestures swiped_world)) \<le> 13 * sv_travel swiped_world"
  using click_or_swipes [OF swiped_world_reach] by (simp add: swiped_world_def)


theorem detect_swipe_rule_witness: "detect_swipe 200 70 = Some Right \<and> detect_swipe 200 71 \<noteq> Some Right"
  using detect_swipe_rule [of 200 70] detect_swipe_rule [of 200 71] by (simp add: straight_def)

end
