(* ===== verification/Gesture_Capture.thy ===== *)
theory Gesture_Capture
  imports Swipe
begin

text \<open>
  Captured buttons and gestures: the accumulator of diverted control reports,
  \<^verbatim>\<open>crates/openlogi-device/src/session/gesture/accum.rs\<close>, the inputs it sends and the tables of
  gesture controls of \<^verbatim>\<open>session/gesture.rs\<close>, and the button names of
  \<^verbatim>\<open>crates/openlogi-core/src/binding\<close>. A send on the sink is an element of the list an operation
  returns. Motion reports carry the clock readings of the swipe accumulator; signed 16-bit values
  are \<open>int\<close>.
\<close>

section \<open>Buttons and inputs\<close>

datatype GridKey =
    TopLeft | TopMiddle | TopRight | MiddleLeft | Middle | MiddleRight | BottomLeft | BottomMiddle | BottomRight

datatype KeypadPage = KeypadPage u8

record GridSlot =
  gs_page :: KeypadPage
  gs_key :: GridKey

datatype GKey = G1 | G2 | G3 | G4 | G5
datatype GKeyProfile = GP_M1 | GP_M2 | GP_M3

record GKeySlot =
  gk_profile :: GKeyProfile
  gk_key :: GKey

datatype ModeKey = MK_M1 | MK_M2 | MK_M3 | MacroRecord

datatype ButtonId =
    LeftClick | RightClick | MiddleClick | Back | Forward | DpiToggle | Thumbwheel | ThumbwheelScrollUp
  | ThumbwheelScrollDown | GestureButton | HapticPanel | WheelTiltLeft | WheelTiltRight | G6 | G7 | G8 | G9
  | Grid GridSlot | Control u16 | GKeyButton GKeySlot | ModeKeyButton ModeKey

record WheelResolution =
  native_res :: u16
  diverted_res :: u16

datatype CapturedInput =
    Gesture ButtonId GestureDirection
  | ButtonDown ButtonId
  | Scroll int WheelResolution
  | ButtonDiverted ButtonId
  | ButtonUp ButtonId
  | ButtonPulse ButtonId
  | HeldWheel ButtonId int u8
  | MainWheel int u8
  | Interrupted
  | HostModeEntered

definition GESTURE_SOURCE_BUTTONS :: "(u16 \<times> ButtonId) list" where
  "GESTURE_SOURCE_BUTTONS = [(0x00c3, GestureButton), (0x00d0, GestureButton), (0x01a0, HapticPanel)]"

datatype RawControlEvent = DivertedButtons "u16 list" | RawXy int int
datatype RawWheelResolution = Low | High

record RawWheelEvent =
  rw_resolution :: RawWheelResolution
  rw_delta :: int

section \<open>The accumulator\<close>

datatype HoldState = HoldIdle | Holding u16 ButtonId SwipeAccumulator bool bool

record CaptureAccum =
  ca_hold :: HoldState
  ca_gestures_down :: "u16 list"
  ca_dpi_down :: bool
  ca_buttons_down :: "u16 list"

definition accum_default :: CaptureAccum where
  "accum_default = \<lparr>ca_hold = HoldIdle, ca_gestures_down = [], ca_dpi_down = False, ca_buttons_down = []\<rparr>"

definition begin_hold :: "u16 \<Rightarrow> ButtonId \<Rightarrow> bool \<Rightarrow> bool \<Rightarrow> nat \<Rightarrow> HoldState" where
  "begin_hold cid button overlap skip_first_raw_xy now =
     Holding cid button (swipe_begin swipe_default now) overlap skip_first_raw_xy"

definition gesture_source_button :: "u16 \<Rightarrow> ButtonId option" where
  "gesture_source_button cid = map_option snd (find (\<lambda>(c, _). c = cid) GESTURE_SOURCE_BUTTONS)"

definition captured_gesture_button :: "u16 \<Rightarrow> (u16 \<times> ButtonId) list \<Rightarrow> ButtonId option" where
  "captured_gesture_button cid gesture_button_cids =
     (case gesture_source_button cid of
        Some button \<Rightarrow> Some button
      | None \<Rightarrow> map_option snd (find (\<lambda>(c, _). c = cid) gesture_button_cids))"

text \<open>The controls armed for one session.\<close>

record ArmedCids =
  ac_gesture :: "u16 list"
  ac_dpi :: "u16 list"
  ac_gesture_button :: "(u16 \<times> ButtonId) list"
  ac_button :: "(u16 \<times> ButtonId) list"

definition held_sources :: "ArmedCids \<Rightarrow> u16 list \<Rightarrow> (u16 \<times> ButtonId) list" where
  "held_sources armed cids =
     List.map_filter (\<lambda>cid. map_option (Pair cid) (gesture_source_button cid))
       (filter (\<lambda>cid. cid \<in> set cids) (ac_gesture armed))
     @ filter (\<lambda>(cid, _). cid \<in> set cids) (ac_gesture_button armed)"

text \<open>The hold after a button report, and the click of a hold that ended without a swipe.\<close>

definition release_hold :: "HoldState \<Rightarrow> CapturedInput list" where
  "release_hold hold =
     (case hold of
        Holding _ button swipe _ _ \<Rightarrow> if snd (swipe_end swipe) then [Gesture button Click] else []
      | HoldIdle \<Rightarrow> [])"

definition next_hold ::
  "CaptureAccum \<Rightarrow> (u16 \<times> ButtonId) list \<Rightarrow> u16 list \<Rightarrow> nat \<Rightarrow> HoldState \<times> CapturedInput list" where
  "next_hold acc held cids now =
     (let taken_over =
        ((case held of
            (cid, button) # _ \<Rightarrow>
              begin_hold cid button (1 < length held) (cid \<notin> set (ca_gestures_down acc)) now
          | [] \<Rightarrow> HoldIdle), release_hold (ca_hold acc)) in
      case ca_hold acc of
        Holding cid button swipe _ skip \<Rightarrow>
          if cid \<in> set cids then (Holding cid button swipe (1 < length held) skip, []) else taken_over
      | HoldIdle \<Rightarrow> taken_over)"

definition gesture_edges ::
  "u16 list \<Rightarrow> (u16 \<times> ButtonId) list \<Rightarrow> (u16 \<times> ButtonId) list \<Rightarrow> CapturedInput list" where
  "gesture_edges down held gesture_button_cids =
     List.map_filter (\<lambda>cid. if cid \<in> fst ` set held then None
       else map_option ButtonUp (captured_gesture_button cid gesture_button_cids)) down
     @ map (\<lambda>(cid, button). ButtonDown button) (filter (\<lambda>(cid, _). cid \<notin> set down) held)"

definition dpi_edges :: "bool \<Rightarrow> bool \<Rightarrow> CapturedInput list" where
  "dpi_edges dpi_down was_down =
     (if dpi_down \<and> \<not> was_down then [ButtonDown DpiToggle]
      else if \<not> dpi_down \<and> was_down then [ButtonUp DpiToggle] else [])"

fun button_edges :: "(u16 \<times> ButtonId) list \<Rightarrow> u16 list \<Rightarrow> u16 list \<Rightarrow> u16 list \<times> CapturedInput list" where
  "button_edges [] cids down = (down, [])"
| "button_edges ((cid, button) # rest) cids down =
     (let (down, sent) =
        (if cid \<in> set cids \<and> cid \<notin> set down then (down @ [cid], [ButtonDown button])
         else if cid \<notin> set cids \<and> cid \<in> set down then (filter (\<lambda>c. c \<noteq> cid) down, [ButtonUp button])
         else (down, []));
          (down, more) = button_edges rest cids down in
      (down, sent @ more))"

definition on_diverted_buttons ::
  "CaptureAccum \<Rightarrow> ArmedCids \<Rightarrow> u16 list \<Rightarrow> nat \<Rightarrow> CaptureAccum \<times> CapturedInput list" where
  "on_diverted_buttons acc armed cids now =
     (let held = held_sources armed cids;
          (hold, clicks) = next_hold acc held cids now;
          gestures = gesture_edges (ca_gestures_down acc) held (ac_gesture_button armed);
          dpi_down = (\<exists>cid \<in> set (ac_dpi armed). cid \<in> set cids);
          dpis = dpi_edges dpi_down (ca_dpi_down acc);
          (buttons_down, buttons) = button_edges (ac_button armed) cids (ca_buttons_down acc) in
      (\<lparr>ca_hold = hold, ca_gestures_down = map fst held, ca_dpi_down = dpi_down, ca_buttons_down = buttons_down\<rparr>,
       clicks @ gestures @ dpis @ buttons))"

definition on_raw_xy ::
  "CaptureAccum \<Rightarrow> int \<Rightarrow> int \<Rightarrow> nat \<Rightarrow> nat \<Rightarrow> CaptureAccum \<times> CapturedInput list" where
  "on_raw_xy acc dx dy now now2 =
     (case ca_hold acc of
        HoldIdle \<Rightarrow> (acc, [])
      | Holding cid button swipe overlap skip \<Rightarrow>
          if skip then (acc\<lparr>ca_hold := Holding cid button swipe overlap False\<rparr>, [])
          else if overlap then (acc, [])
          else (case accumulate swipe dx dy now now2 of
            (swipe, direction) \<Rightarrow>
              (acc\<lparr>ca_hold := Holding cid button swipe overlap skip\<rparr>,
               case direction of Some d \<Rightarrow> [Gesture button d] | None \<Rightarrow> [])))"

fun on_event ::
  "CaptureAccum \<Rightarrow> ArmedCids \<Rightarrow> RawControlEvent \<Rightarrow> nat \<Rightarrow> nat \<Rightarrow> CaptureAccum \<times> CapturedInput list" where
  "on_event acc armed (DivertedButtons cids) now now2 = on_diverted_buttons acc armed cids now"
| "on_event acc armed (RawXy dx dy) now now2 = on_raw_xy acc dx dy now now2"

fun find_map :: "('a \<Rightarrow> 'b option) \<Rightarrow> 'a list \<Rightarrow> 'b option" where
  "find_map f [] = None"
| "find_map f (x # xs) = (case f x of Some y \<Rightarrow> Some y | None \<Rightarrow> find_map f xs)"

definition on_raw_wheel ::
  "CaptureAccum \<Rightarrow> RawWheelEvent \<Rightarrow> (u16 \<times> ButtonId) list \<Rightarrow> u8 option \<Rightarrow> CapturedInput list" where
  "on_raw_wheel acc event wheel_button_cids hires_per_notch =
     (if rw_delta event = 0 then []
      else case find_map (\<lambda>down. map_option snd (find (\<lambda>(cid, _). cid = down) wheel_button_cids)) (ca_buttons_down acc) of
        None \<Rightarrow> []
      | Some button \<Rightarrow>
          (case (case rw_resolution event of Low \<Rightarrow> Some 1 | High \<Rightarrow> hires_per_notch) of
             None \<Rightarrow> []
           | Some per_notch \<Rightarrow> [HeldWheel button (rw_delta event) per_notch]))"

section \<open>The thumb wheel\<close>

datatype RotationStatus = Inactive | Start | Active | Stop | OtherStatus u8

definition rotation_status_from_byte :: "u8 \<Rightarrow> RotationStatus" where
  "rotation_status_from_byte byte =
     (if byte = 0 then Inactive else if byte = 1 then Start else if byte = 2 then Active
      else if byte = 3 then Stop else OtherStatus byte)"

definition is_at_rest :: "RotationStatus \<Rightarrow> bool" where
  "is_at_rest s \<longleftrightarrow> s = Inactive"

definition leaves_roll_open :: "RotationStatus \<Rightarrow> bool" where
  "leaves_roll_open s \<longleftrightarrow> s = Start \<or> s = Active"

record ThumbwheelEvent =
  te_rotation :: int
  te_rotation_status :: RotationStatus
  te_single_tap :: bool
  te_touch :: bool
  te_proxy :: bool

definition thumbwheel_input :: "ThumbwheelEvent \<Rightarrow> RotationStatus \<Rightarrow> WheelResolution \<Rightarrow> CapturedInput option" where
  "thumbwheel_input event previous resolution =
     (if te_rotation event \<noteq> 0 then Some (Scroll (te_rotation event) resolution)
      else if \<not> is_at_rest (te_rotation_status event) \<or> leaves_roll_open previous then None
      else if te_single_tap event then Some (ButtonPulse Thumbwheel) else None)"

section \<open>Presses and releases balance\<close>

fun net_of :: "ButtonId \<Rightarrow> CapturedInput \<Rightarrow> int" where
  "net_of b (ButtonDown b') = of_bool (b' = b)"
| "net_of b (ButtonUp b') = - of_bool (b' = b)"
| "net_of b _ = 0"

definition net :: "ButtonId \<Rightarrow> CapturedInput list \<Rightarrow> int" where
  "net b sent = sum_list (map (net_of b) sent)"

lemma net_simps [simp]: "net b [] = 0" "net b (x # xs) = net_of b x + net b xs" "net b (xs @ ys) = net b xs + net b ys"
  by (simp_all add: net_def)

text \<open>How many armed controls that dispatch as a button a report says are down.\<close>

definition pressed_count :: "ArmedCids \<Rightarrow> u16 list \<Rightarrow> ButtonId \<Rightarrow> int" where
  "pressed_count armed cids b =
     int (length (filter (\<lambda>(_, b'). b' = b) (held_sources armed cids)))
     + of_bool (b = DpiToggle \<and> (\<exists>cid \<in> set (ac_dpi armed). cid \<in> set cids))
     + int (length (filter (\<lambda>(cid, b'). b' = b \<and> cid \<in> set cids) (ac_button armed)))"

text \<open>Each control is armed once, and a standard button never as one of the gesture controls.\<close>

definition armed_ok :: "ArmedCids \<Rightarrow> bool" where
  "armed_ok armed \<longleftrightarrow>
     distinct (ac_gesture armed) \<and> distinct (map fst (ac_gesture_button armed)) \<and> distinct (map fst (ac_button armed))
     \<and> (\<forall>(cid, _) \<in> set (ac_gesture_button armed). gesture_source_button cid = None)"

lemma find_fst_distinct:
  "distinct (map fst xs) \<Longrightarrow> (c, b) \<in> set xs \<Longrightarrow> find (\<lambda>(c', _). c' = c) xs = Some (c, b)"
  by (induction xs) (auto simp: image_iff)

lemma held_sources_captured:
  assumes "armed_ok armed" "(cid, b) \<in> set (held_sources armed cids)"
  shows "captured_gesture_button cid (ac_gesture_button armed) = Some b"
  using assms find_fst_distinct [of "ac_gesture_button armed" cid b]
  by (auto simp: held_sources_def armed_ok_def captured_gesture_button_def List.map_filter_def split: option.splits)

lemma distinct_fst_map_filter:
  "distinct xs \<Longrightarrow> distinct (map fst (List.map_filter (\<lambda>c. map_option (Pair c) (f c)) xs))"
  by (induction xs) (auto simp: List.map_filter_def image_iff split: option.splits)

lemma held_sources_distinct:
  assumes "armed_ok armed"
  shows "distinct (map fst (held_sources armed cids))"
proof -
  have "distinct (map fst (filter (\<lambda>(cid, _). cid \<in> set cids) (ac_gesture_button armed)))"
    using assms by (simp add: armed_ok_def distinct_map_filter)
  moreover have "distinct (map fst (List.map_filter (\<lambda>cid. map_option (Pair cid) (gesture_source_button cid))
      (filter (\<lambda>cid. cid \<in> set cids) (ac_gesture armed))))"
    using assms by (intro distinct_fst_map_filter) (simp add: armed_ok_def)
  ultimately show ?thesis
    using assms unfolding held_sources_def by (auto simp: armed_ok_def List.map_filter_def)
qed

lemma net_ups:
  "net b (List.map_filter (\<lambda>cid. if cid \<in> H then None else map_option ButtonUp (f cid)) down) =
     - int (length (filter (\<lambda>cid. cid \<notin> H \<and> f cid = Some b) down))"
  by (induction down) (auto simp: List.map_filter_def split: option.splits)

lemma net_downs:
  "net b (map (\<lambda>(cid, button). ButtonDown button) (filter (\<lambda>(cid, _). cid \<notin> D) held)) =
     int (length (filter (\<lambda>(cid, b'). b' = b \<and> cid \<notin> D) held))"
  by (induction held) auto

lemma length_filter_card: "distinct xs \<Longrightarrow> length (filter P xs) = card {x \<in> set xs. P x}"
  by (metis distinct_card distinct_filter set_filter)

lemma net_gesture_edges:
  assumes "armed_ok armed" "held = held_sources armed cids" "distinct down"
    and c: "\<And>cid. c cid = captured_gesture_button cid (ac_gesture_button armed)"
  shows "net b (gesture_edges down held (ac_gesture_button armed)) =
    int (length (filter (\<lambda>(_, b'). b' = b) held)) - int (length (filter (\<lambda>cid. c cid = Some b) down))"
proof -
  let ?H = "{cid \<in> fst ` set held. c cid = Some b}" and ?D = "{cid \<in> set down. c cid = Some b}"
  have map_eq: "map fst (filter (\<lambda>(cid, b'). b' = b \<and> P cid) held) = filter (\<lambda>cid. c cid = Some b \<and> P cid) (map fst held)" for P
  proof -
    have "\<forall>(cid, b') \<in> set held. c cid = Some b'"
      using held_sources_captured [OF assms(1)] assms(2) c by auto
    then show ?thesis
      by (induction held) auto
  qed
  have d: "distinct (map fst held)"
    using held_sources_distinct [OF assms(1)] assms(2) by simp
  have len: "length (filter (\<lambda>(cid, b'). b' = b \<and> P cid) held) = card {cid \<in> ?H. P cid}" for P
    using arg_cong [OF map_eq, of length P] length_filter_card [OF d, of "\<lambda>cid. c cid = Some b \<and> P cid"]
    by (simp add: conj_assoc)
  have "card ?H + card (?D - ?H) = card ?D + card (?H - ?D)"
    by (metis (no_types, lifting) List.finite_set Un_commute card_Un_disjoint finite_Diff finite_imageI finite_Collect_conjI
        Un_Diff_cancel Diff_disjoint finite_code mem_Collect_eq)
  moreover have "length (filter (\<lambda>cid. cid \<notin> fst ` set held \<and> c cid = Some b) down) = card (?D - ?H)"
    using length_filter_card [OF assms(3), of "\<lambda>cid. cid \<notin> fst ` set held \<and> c cid = Some b"]
    by (simp add: set_diff_eq conj_commute conj_left_commute) (metis (mono_tags, lifting))
  moreover have "length (filter (\<lambda>(cid, b'). b' = b \<and> cid \<notin> set down) held) = card (?H - ?D)"
    unfolding len by (rule arg_cong [of _ _ card]) auto
  moreover have "length (filter (\<lambda>(_, b'). b' = b) held) = card ?H"
    using len [of "\<lambda>_. True"] by simp
  moreover have "length (filter (\<lambda>cid. c cid = Some b) down) = card ?D"
    by (rule length_filter_card [OF assms(3)])
  ultimately show ?thesis
    unfolding gesture_edges_def net_simps net_ups net_downs c [symmetric] by linarith
qed

lemma button_edges_Cons:
  "button_edges ((cid, button) # rest) cids down =
     (let down' = (if cid \<in> set cids then (if cid \<in> set down then down else down @ [cid]) else filter (\<lambda>c. c \<noteq> cid) down);
          p = button_edges rest cids down' in
      (fst p, (if cid \<in> set cids \<and> cid \<notin> set down then [ButtonDown button]
               else if cid \<notin> set cids \<and> cid \<in> set down then [ButtonUp button] else []) @ snd p))"
proof -
  have "cid \<notin> set down \<Longrightarrow> filter (\<lambda>c. c \<noteq> cid) down = down"
    by (auto intro!: filter_True)
  then show ?thesis
    by (auto simp: Let_def split: prod.splits)
qed

lemma button_edges_down:
  "set (fst (button_edges bs cids down)) =
     {c \<in> set down. c \<notin> fst ` set bs} \<union> {c \<in> fst ` set bs. c \<in> set cids}"
proof (induction bs arbitrary: down)
  case (Cons x bs)
  show ?case
    by (cases x) (auto simp: button_edges_Cons Let_def Cons.IH simp del: button_edges.simps)
qed auto

lemma net_button_edges:
  "distinct (map fst bs) \<Longrightarrow>
   net b (snd (button_edges bs cids down)) =
     int (length (filter (\<lambda>(cid, b'). b' = b \<and> cid \<in> set cids) bs))
     - int (length (filter (\<lambda>(cid, b'). b' = b \<and> cid \<in> set down) bs))"
proof (induction bs arbitrary: down)
  case (Cons x bs)
  obtain cid button where x: "x = (cid, button)"
    by (cases x)
  let ?down = "if cid \<in> set cids then (if cid \<in> set down then down else down @ [cid]) else filter (\<lambda>c. c \<noteq> cid) down"
  have "filter (\<lambda>(c, b'). b' = b \<and> c \<in> set ?down) bs = filter (\<lambda>(c, b'). b' = b \<and> c \<in> set down) bs"
    using Cons.prems by (intro filter_cong) (auto simp: x image_iff)
  then have "net b (snd (button_edges bs cids ?down)) =
     int (length (filter (\<lambda>(cid, b'). b' = b \<and> cid \<in> set cids) bs))
     - int (length (filter (\<lambda>(cid, b'). b' = b \<and> cid \<in> set down) bs))"
    using Cons.IH [of ?down] Cons.prems by simp
  then show ?case
    by (auto simp: x button_edges_Cons Let_def simp del: button_edges.simps)
qed simp

section \<open>The capture over time\<close>

datatype CaptureEvent = CvReport RawControlEvent nat nat | CvWheel RawWheelEvent "(u16 \<times> ButtonId) list" "u8 option"

text \<open>The accumulator with everything it sent, the controls the last report says are down, and the
  swipes of the current hold.\<close>

record CaptureWorld =
  cw_accum :: CaptureAccum
  cw_sent :: "CapturedInput list"
  cw_pressed :: "u16 list"
  cw_swipes :: nat

definition capture_init :: "CaptureWorld \<Rightarrow> bool" where
  "capture_init w \<longleftrightarrow> w = \<lparr>cw_accum = accum_default, cw_sent = [], cw_pressed = [], cw_swipes = 0\<rparr>"

definition holder_down :: "HoldState \<Rightarrow> u16 list \<Rightarrow> bool" where
  "holder_down hold cids = (case hold of Holding cid _ _ _ _ \<Rightarrow> cid \<in> set cids | HoldIdle \<Rightarrow> False)"

fun capture_step :: "ArmedCids \<Rightarrow> CaptureWorld \<Rightarrow> CaptureEvent \<Rightarrow> CaptureWorld option" where
  "capture_step armed w (CvReport (DivertedButtons cids) now now2) =
     (case on_event (cw_accum w) armed (DivertedButtons cids) now now2 of
        (acc, sent) \<Rightarrow> Some \<lparr>cw_accum = acc, cw_sent = cw_sent w @ sent, cw_pressed = cids,
          cw_swipes = (if holder_down (ca_hold (cw_accum w)) cids then cw_swipes w else 0)\<rparr>)"
| "capture_step armed w (CvReport (RawXy dx dy) now now2) =
     (case on_event (cw_accum w) armed (RawXy dx dy) now now2 of
        (acc, sent) \<Rightarrow> Some (w\<lparr>cw_accum := acc, cw_sent := cw_sent w @ sent, cw_swipes := cw_swipes w + length sent\<rparr>))"
| "capture_step armed w (CvWheel event wheels per_notch) =
     Some (w\<lparr>cw_sent := cw_sent w @ on_raw_wheel (cw_accum w) event wheels per_notch\<rparr>)"

definition hold_ok :: "ArmedCids \<Rightarrow> u16 list \<Rightarrow> nat \<Rightarrow> HoldState \<Rightarrow> bool" where
  "hold_ok armed pressed swipes hold =
     (case hold of
        HoldIdle \<Rightarrow> held_sources armed pressed = []
      | Holding cid button swipe overlap skip \<Rightarrow>
          (cid, button) \<in> set (held_sources armed pressed)
          \<and> overlap = (1 < length (held_sources armed pressed))
          \<and> swipe_ok swipe \<and> is_holding swipe \<and> (sa_fired swipe \<longleftrightarrow> 0 < swipes))"

definition capture_inv :: "ArmedCids \<Rightarrow> CaptureWorld \<Rightarrow> bool" where
  "capture_inv armed w \<longleftrightarrow>
     ca_gestures_down (cw_accum w) = map fst (held_sources armed (cw_pressed w))
     \<and> ca_dpi_down (cw_accum w) = (\<exists>cid \<in> set (ac_dpi armed). cid \<in> set (cw_pressed w))
     \<and> set (ca_buttons_down (cw_accum w)) = {c \<in> fst ` set (ac_button armed). c \<in> set (cw_pressed w)}
     \<and> hold_ok armed (cw_pressed w) (cw_swipes w) (ca_hold (cw_accum w))
     \<and> (\<forall>b. net b (cw_sent w) = pressed_count armed (cw_pressed w) b)"

lemma held_sources_stay:
  "(cid, b) \<in> set (held_sources armed cids) \<Longrightarrow> cid \<in> set cids' \<Longrightarrow> (cid, b) \<in> set (held_sources armed cids')"
  by (auto simp: held_sources_def List.map_filter_def)

lemma begun_ok: "swipe_ok (swipe_begin swipe_default now) \<and> is_holding (swipe_begin swipe_default now)
    \<and> \<not> sa_fired (swipe_begin swipe_default now)"
  by (simp add: swipe_begin_def swipe_ok_def is_holding_def)

lemma next_hold_ok:
  assumes "hold_ok armed pressed swipes (ca_hold acc)"
  shows "hold_ok armed cids (if holder_down (ca_hold acc) cids then swipes else 0)
    (fst (next_hold acc (held_sources armed cids) cids now))"
proof -
  have fresh: "hold_ok armed cids 0 (case held_sources armed cids of
      (cid, button) # _ \<Rightarrow> begin_hold cid button (1 < length (held_sources armed cids)) (cid \<notin> set (ca_gestures_down acc)) now
    | [] \<Rightarrow> HoldIdle)"
    using begun_ok by (auto simp: hold_ok_def begin_hold_def split: list.splits)
  show ?thesis
  proof (cases "ca_hold acc")
    case HoldIdle
    then show ?thesis
      using fresh by (simp add: next_hold_def holder_down_def Let_def)
  next
    case (Holding cid button swipe overlap skip)
    then show ?thesis
      using fresh assms held_sources_stay [of cid button armed pressed cids]
      by (auto simp: next_hold_def holder_down_def hold_ok_def Let_def)
  qed
qed

lemma held_captured_count:
  assumes "armed_ok armed"
  shows "length (filter (\<lambda>cid. captured_gesture_button cid (ac_gesture_button armed) = Some b)
      (map fst (held_sources armed cids))) = length (filter (\<lambda>(_, b'). b' = b) (held_sources armed cids))"
proof -
  have "\<forall>(cid, b') \<in> set (held_sources armed cids). captured_gesture_button cid (ac_gesture_button armed) = Some b'"
    using held_sources_captured [OF assms] by auto
  then show ?thesis
    by (induction "held_sources armed cids" arbitrary: cids rule: list.induct) (auto simp: filter_map comp_def
        intro!: arg_cong [of _ _ length] filter_cong)
qed

lemma net_release [simp]: "net b (release_hold hold) = 0"
  by (simp add: release_hold_def split: HoldState.splits)

lemma net_next_hold [simp]: "net b (snd (next_hold acc held cids now)) = 0"
  by (simp add: next_hold_def Let_def split: HoldState.splits)

lemma net_dpi: "net b (dpi_edges down was) = of_bool (b = DpiToggle \<and> down) - of_bool (b = DpiToggle \<and> was)"
  by (auto simp: dpi_edges_def)

lemma net_swipe [simp]: "net b (case d of None \<Rightarrow> [] | Some d \<Rightarrow> [Gesture button d]) = 0"
  by (simp split: option.splits)

lemma on_diverted_buttons_parts:
  "on_diverted_buttons acc armed cids now =
     (\<lparr>ca_hold = fst (next_hold acc (held_sources armed cids) cids now),
       ca_gestures_down = map fst (held_sources armed cids),
       ca_dpi_down = (\<exists>cid \<in> set (ac_dpi armed). cid \<in> set cids),
       ca_buttons_down = fst (button_edges (ac_button armed) cids (ca_buttons_down acc))\<rparr>,
      snd (next_hold acc (held_sources armed cids) cids now)
      @ gesture_edges (ca_gestures_down acc) (held_sources armed cids) (ac_gesture_button armed)
      @ dpi_edges (\<exists>cid \<in> set (ac_dpi armed). cid \<in> set cids) (ca_dpi_down acc)
      @ snd (button_edges (ac_button armed) cids (ca_buttons_down acc)))"
  by (simp add: on_diverted_buttons_def Let_def case_prod_beta)

lemma buttons_down_filter:
  assumes "set down = {c \<in> fst ` set bs. c \<in> set pressed}"
  shows "filter (\<lambda>(cid, b'). b' = b \<and> cid \<in> set down) bs = filter (\<lambda>(cid, b'). b' = b \<and> cid \<in> set pressed) bs"
  using assms by (intro filter_cong) (auto intro: rev_image_eqI)

lemma net_diverted:
  assumes "armed_ok armed" "capture_inv armed w"
  shows "net b (snd (on_diverted_buttons (cw_accum w) armed cids now)) =
    pressed_count armed cids b - pressed_count armed (cw_pressed w) b"
proof -
  let ?acc = "cw_accum w"
  have g: "net b (gesture_edges (ca_gestures_down ?acc) (held_sources armed cids) (ac_gesture_button armed)) =
      int (length (filter (\<lambda>(_, b'). b' = b) (held_sources armed cids)))
      - int (length (filter (\<lambda>(_, b'). b' = b) (held_sources armed (cw_pressed w))))"
    using net_gesture_edges [OF assms(1) refl _ refl, of "map fst (held_sources armed (cw_pressed w))" b cids]
      held_sources_distinct [OF assms(1)] held_captured_count [OF assms(1)] assms(2) by (simp add: capture_inv_def)
  have n: "net b (snd (button_edges (ac_button armed) cids (ca_buttons_down ?acc))) =
      int (length (filter (\<lambda>(cid, b'). b' = b \<and> cid \<in> set cids) (ac_button armed)))
      - int (length (filter (\<lambda>(cid, b'). b' = b \<and> cid \<in> set (cw_pressed w)) (ac_button armed)))"
    using assms buttons_down_filter [of "ca_buttons_down ?acc" "ac_button armed" "cw_pressed w" b]
    by (simp add: net_button_edges armed_ok_def capture_inv_def)
  show ?thesis
    using assms(2) unfolding on_diverted_buttons_parts snd_conv net_simps net_next_hold g n net_dpi pressed_count_def
    by (simp add: capture_inv_def)
qed

lemma capture_inv_buttons:
  assumes "armed_ok armed" "capture_inv armed w"
    "capture_step armed w (CvReport (DivertedButtons cids) now now2) = Some w'"
  shows "capture_inv armed w'"
proof -
  let ?p = "on_diverted_buttons (cw_accum w) armed cids now"
  have w': "w' = \<lparr>cw_accum = fst ?p, cw_sent = cw_sent w @ snd ?p, cw_pressed = cids,
      cw_swipes = (if holder_down (ca_hold (cw_accum w)) cids then cw_swipes w else 0)\<rparr>"
    using assms(3) by (simp add: case_prod_beta)
  have hold: "hold_ok armed cids (cw_swipes w') (ca_hold (fst ?p))"
    using next_hold_ok [of armed "cw_pressed w" "cw_swipes w" "cw_accum w" cids now] assms(2)
    by (simp add: w' on_diverted_buttons_parts capture_inv_def split del: if_split)
  have "net b (cw_sent w') = pressed_count armed cids b" for b
    using assms(2) net_diverted [OF assms(1,2), of b cids now] by (simp add: w' capture_inv_def)
  then show ?thesis
    using hold assms(2) unfolding capture_inv_def
    by (simp add: w' on_diverted_buttons_parts button_edges_down) auto
qed

lemma on_raw_xy_frame:
  "ca_gestures_down (fst (on_raw_xy acc dx dy now now2)) = ca_gestures_down acc"
  "ca_dpi_down (fst (on_raw_xy acc dx dy now now2)) = ca_dpi_down acc"
  "ca_buttons_down (fst (on_raw_xy acc dx dy now now2)) = ca_buttons_down acc"
  "net b (snd (on_raw_xy acc dx dy now now2)) = 0"
  by (simp_all add: on_raw_xy_def split: HoldState.splits prod.splits option.splits)

lemma on_raw_xy_hold:
  assumes "hold_ok armed pressed swipes (ca_hold acc)"
  shows "hold_ok armed pressed (swipes + length (snd (on_raw_xy acc dx dy now now2)))
    (ca_hold (fst (on_raw_xy acc dx dy now now2)))"
proof (cases "ca_hold acc")
  case HoldIdle
  then show ?thesis
    using assms by (simp add: on_raw_xy_def)
next
  case (Holding cid button swipe overlap skip)
  have s: "swipe_ok swipe" "is_holding swipe" "sa_fired swipe \<longleftrightarrow> 0 < swipes"
    using assms Holding by (simp_all add: hold_ok_def)
  obtain swipe' g where a: "accumulate swipe dx dy now now2 = (swipe', g)"
    by fastforce
  have step: "swipe_ok swipe'" "is_holding swipe'" "sa_fired swipe' \<longleftrightarrow> sa_fired swipe \<or> g \<noteq> None"
    using accumulate_ok [OF s(1), of now2 dx dy now] s(2)
    by (auto simp: a step_ok_def is_holding_def split: option.splits)
  show ?thesis
    using assms s step by (cases g) (simp_all add: on_raw_xy_def Holding a hold_ok_def)
qed

lemma capture_inv_xy:
  assumes "capture_inv armed w" "capture_step armed w (CvReport (RawXy dx dy) now now2) = Some w'"
  shows "capture_inv armed w'"
proof -
  let ?p = "on_raw_xy (cw_accum w) dx dy now now2"
  have w': "w' = w\<lparr>cw_accum := fst ?p, cw_sent := cw_sent w @ snd ?p, cw_swipes := cw_swipes w + length (snd ?p)\<rparr>"
    using assms(2) by (simp add: case_prod_beta)
  show ?thesis
    using assms(1) on_raw_xy_hold [of armed "cw_pressed w" "cw_swipes w" "cw_accum w" dx dy now now2]
    unfolding capture_inv_def w' by (simp add: on_raw_xy_frame)
qed

lemma net_wheel [simp]: "net b (on_raw_wheel acc event wheels per_notch) = 0"
  by (simp add: on_raw_wheel_def split: option.splits RawWheelResolution.splits)

lemma capture_inv_wheel:
  assumes "capture_inv armed w" "capture_step armed w (CvWheel event wheels per_notch) = Some w'"
  shows "capture_inv armed w'"
proof -
  have w': "w' = w\<lparr>cw_sent := cw_sent w @ on_raw_wheel (cw_accum w) event wheels per_notch\<rparr>"
    using assms(2) by simp
  show ?thesis
    using assms(1) unfolding capture_inv_def w' by simp
qed

lemma held_sources_none [simp]: "held_sources armed [] = []"
  by (simp add: held_sources_def List.map_filter_def)

definition armed_init :: "ArmedCids \<Rightarrow> CaptureWorld \<Rightarrow> bool" where
  "armed_init armed w \<longleftrightarrow> armed_ok armed \<and> capture_init w"

interpretation capture: invariant_system "armed_init armed" "capture_step armed"
  "\<lambda>w. armed_ok armed \<and> capture_inv armed w" for armed
proof
  show "armed_ok armed \<and> capture_inv armed w" if "armed_init armed w" for w
    using that by (simp add: armed_init_def capture_init_def capture_inv_def accum_default_def hold_ok_def pressed_count_def)
  show "armed_ok armed \<and> capture_inv armed w'"
    if "armed_ok armed \<and> capture_inv armed w" "capture_step armed w ev = Some w'" for w ev w'
  proof (cases "(armed, w, ev)" rule: capture_step.cases)
    case (1 a v cids now now2)
    then show ?thesis
      using that capture_inv_buttons by blast
  next
    case (2 a v dx dy now now2)
    then show ?thesis
      using that capture_inv_xy by blast
  next
    case (3 a v event wheels per_notch)
    then show ?thesis
      using that capture_inv_wheel by blast
  qed
qed

text \<open>No button sticks. Whatever reports arrive, for every button the presses sent minus the
  releases sent is exactly the number of armed controls dispatching as it that the last report says
  are down; so after a report without them every press has had its release, and no release comes
  without its press.\<close>

theorem buttons_balanced:
  assumes "reach (armed_init armed) (capture_step armed) w"
  shows "net b (cw_sent w) = pressed_count armed (cw_pressed w) b \<and> 0 \<le> net b (cw_sent w)"
proof -
  have "net b (cw_sent w) = pressed_count armed (cw_pressed w) b"
    using capture.reachable_inv [OF assms] by (simp add: capture_inv_def)
  then show ?thesis
    by (simp add: pressed_count_def)
qed

lemma raw_xy_gesture:
  assumes "hold_ok armed pressed swipes (ca_hold acc)" "Gesture b d \<in> set (snd (on_raw_xy acc dx dy now now2))"
  shows "d \<noteq> Click \<and> (\<exists>cid swipe. held_sources armed pressed = [(cid, b)] \<and> ca_hold acc = Holding cid b swipe False False)"
proof (cases "ca_hold acc")
  case HoldIdle
  then show ?thesis
    using assms(2) by (simp add: on_raw_xy_def)
next
  case (Holding cid button swipe overlap skip)
  have flags: "\<not> skip" "\<not> overlap" "button = b" "snd (accumulate swipe dx dy now now2) = Some d"
    using assms(2) by (auto simp: on_raw_xy_def Holding split: if_splits prod.splits option.splits)
  have held: "(cid, b) \<in> set (held_sources armed pressed)" "length (held_sources armed pressed) \<le> 1" "swipe_ok swipe"
    using assms(1) flags by (auto simp: hold_ok_def Holding)
  then have "held_sources armed pressed = [(cid, b)]"
    by (cases "held_sources armed pressed") auto
  moreover have "d \<noteq> Click"
    using accumulate_ok [OF held(3), of now2 dx dy now] flags(4) by (auto simp: step_ok_def)
  ultimately show ?thesis
    using Holding flags by auto
qed

lemma no_gesture_edges:
  "Gesture b d \<notin> set (gesture_edges down held gs)" "Gesture b d \<notin> set (dpi_edges p q)"
  by (auto simp: gesture_edges_def dpi_edges_def List.map_filter_def split: if_splits)

lemma no_button_edges: "Gesture b d \<notin> set (snd (button_edges bs cids down))"
  by (induction bs cids down rule: button_edges.induct) (auto simp: case_prod_beta Let_def)

lemma diverted_gesture:
  assumes "hold_ok armed pressed swipes (ca_hold acc)"
  shows "Gesture b d \<in> set (snd (on_diverted_buttons acc armed cids now)) \<longleftrightarrow>
    d = Click \<and> swipes = 0
    \<and> (\<exists>cid swipe overlap skip. ca_hold acc = Holding cid b swipe overlap skip \<and> cid \<notin> set cids)"
proof -
  have "Gesture b d \<in> set (snd (on_diverted_buttons acc armed cids now)) \<longleftrightarrow>
      Gesture b d \<in> set (snd (next_hold acc (held_sources armed cids) cids now))"
    using no_gesture_edges no_button_edges by (simp add: on_diverted_buttons_parts)
  also have "\<dots> \<longleftrightarrow> d = Click \<and> swipes = 0
      \<and> (\<exists>cid swipe overlap skip. ca_hold acc = Holding cid b swipe overlap skip \<and> cid \<notin> set cids)"
    using assms by (cases "ca_hold acc")
      (auto simp: next_hold_def release_hold_def hold_ok_def swipe_end_def is_holding_def Let_def)
  finally show ?thesis .
qed


section \<open>Witnesses\<close>

definition mx_armed :: ArmedCids where
  "mx_armed = \<lparr>ac_gesture = [0xc3], ac_dpi = [0xc4], ac_gesture_button = [(0x53, Back)], ac_button = [(0x52, MiddleClick)]\<rparr>"

definition mx_world :: CaptureWorld where
  "mx_world = the (run (capture_step mx_armed) \<lparr>cw_accum = accum_default, cw_sent = [], cw_pressed = [], cw_swipes = 0\<rparr>
     [CvReport (DivertedButtons [0xc3, 0x52, 0, 0]) 0 0, CvReport (RawXy 900 900) 100 100])"

lemma mx_world_reach: "reach (armed_init mx_armed) (capture_step mx_armed) mx_world"
proof -
  have "reach (armed_init mx_armed) (capture_step mx_armed)
      \<lparr>cw_accum = accum_default, cw_sent = [], cw_pressed = [], cw_swipes = 0\<rparr>"
    by (rule reach_init) (simp add: armed_init_def capture_init_def armed_ok_def mx_armed_def gesture_source_button_def
        GESTURE_SOURCE_BUTTONS_def)
  moreover have "run (capture_step mx_armed) \<lparr>cw_accum = accum_default, cw_sent = [], cw_pressed = [], cw_swipes = 0\<rparr>
     [CvReport (DivertedButtons [0xc3, 0x52, 0, 0]) 0 0, CvReport (RawXy 900 900) 100 100] = Some mx_world"
    unfolding mx_world_def by (rule some_the) code_simp
  ultimately show ?thesis
    by (rule reach_run)
qed

theorem buttons_balanced_witness: "net MiddleClick (cw_sent mx_world) = 1 \<and> net Back (cw_sent mx_world) = 0"
proof -
  have "pressed_count mx_armed (cw_pressed mx_world) MiddleClick = 1" "pressed_count mx_armed (cw_pressed mx_world) Back = 0"
    by code_simp+
  then show ?thesis
    using buttons_balanced [OF mx_world_reach] by simp
qed


end
