(* ===== verification/Reprog_Controls.thy ===== *)
theory Reprog_Controls
  imports Hidpp_Feature Device_Key
begin

text \<open>
  The reprogrammable controls, HID++2.0 feature 0x1b04: \<^verbatim>\<open>feature/reprog_controls.rs\<close> of
  \<^verbatim>\<open>crates/openlogi-hidpp/src\<close> (the control table, the reporting state of a control, the change a host
  writes and its echo, with their payloads and the feature's calls) and the changes a capture
  session writes to take a control and to hand it back (\<^verbatim>\<open>crates/openlogi-device/src/reprog_controls.rs\<close>
  and \<^verbatim>\<open>session/capture_restore.rs\<close>).
\<close>

section \<open>The control table\<close>

text \<open>The flags are the bits of their word; unknown bits are kept.\<close>

definition CID_DIVERTABLE :: u16 where "CID_DIVERTABLE = push_bit 5 1"
definition CID_RAW_XY :: u16 where "CID_RAW_XY = push_bit 8 1"
definition CID_ANALYTICS_KEY_EVENTS :: u16 where "CID_ANALYTICS_KEY_EVENTS = push_bit 10 1"
definition CID_RAW_WHEEL :: u16 where "CID_RAW_WHEEL = push_bit 11 1"

definition cid_flags_contains :: "u16 \<Rightarrow> u16 \<Rightarrow> bool" where
  "cid_flags_contains flags flag \<longleftrightarrow> flags AND flag = flag"

definition cid_flags_from_bytes :: "u8 \<Rightarrow> u8 \<Rightarrow> u16" where
  "cid_flags_from_bytes primary additional = ucast primary OR push_bit 8 (ucast additional)"

record CidInfo =
  ci_cid :: u16
  ci_task_id :: u16
  ci_flags :: u16
  ci_position :: u8
  ci_group :: u8
  ci_group_mask :: u8

definition cid_info_from_payload :: "u8 list \<Rightarrow> CidInfo" where
  "cid_info_from_payload p =
     \<lparr>ci_cid = u16_from_be_bytes (p ! 0) (p ! 1), ci_task_id = u16_from_be_bytes (p ! 2) (p ! 3),
      ci_flags = cid_flags_from_bytes (p ! 4) (p ! 8), ci_position = p ! 5, ci_group = p ! 6, ci_group_mask = p ! 7\<rparr>"

record CtrlIdInfo =
  ct_cid :: u16
  ct_task_id :: u16
  ct_flags :: u16

definition ctrl_id_info_from :: "CidInfo \<Rightarrow> CtrlIdInfo" where
  "ctrl_id_info_from info = \<lparr>ct_cid = ci_cid info, ct_task_id = ci_task_id info, ct_flags = ci_flags info\<rparr>"

definition is_divertable :: "CtrlIdInfo \<Rightarrow> bool" where
  "is_divertable c \<longleftrightarrow> cid_flags_contains (ct_flags c) CID_DIVERTABLE"

definition supports_raw_xy :: "CtrlIdInfo \<Rightarrow> bool" where
  "supports_raw_xy c \<longleftrightarrow> cid_flags_contains (ct_flags c) CID_RAW_XY"

definition supports_raw_wheel :: "CtrlIdInfo \<Rightarrow> bool" where
  "supports_raw_wheel c \<longleftrightarrow> cid_flags_contains (ct_flags c) CID_RAW_WHEEL"

definition supports_analytics_events :: "CtrlIdInfo \<Rightarrow> bool" where
  "supports_analytics_events c \<longleftrightarrow> cid_flags_contains (ct_flags c) CID_ANALYTICS_KEY_EVENTS"

section \<open>Reporting\<close>

record CidReporting =
  cr_cid :: u16
  cr_diverted :: bool
  cr_persistently_diverted :: bool
  cr_force_raw_xy :: bool
  cr_raw_xy :: bool
  cr_remap :: "u16 option"
  cr_analytics_key_events :: bool
  cr_raw_wheel :: bool

text \<open>A change, and the echo of it that the device answers: a setting that is absent is kept.\<close>

record CidReportingChange =
  cg_diverted :: "bool option"
  cg_persistently_diverted :: "bool option"
  cg_force_raw_xy :: "bool option"
  cg_raw_xy :: "bool option"
  cg_remap :: "u16 option"
  cg_analytics_key_events :: "bool option"
  cg_raw_wheel :: "bool option"

record CidReportingChangeEcho =
  ce_cid :: u16
  ce_diverted :: "bool option"
  ce_persistently_diverted :: "bool option"
  ce_force_raw_xy :: "bool option"
  ce_raw_xy :: "bool option"
  ce_remap :: "u16 option"
  ce_analytics_key_events :: "bool option"
  ce_raw_wheel :: "bool option"

definition change_default :: CidReportingChange where
  "change_default = \<lparr>cg_diverted = None, cg_persistently_diverted = None, cg_force_raw_xy = None, cg_raw_xy = None,
     cg_remap = None, cg_analytics_key_events = None, cg_raw_wheel = None\<rparr>"

text \<open>\<open>byte & (1 << n) != 0\<close>.\<close>

definition flag_set :: "u8 \<Rightarrow> nat \<Rightarrow> bool" where
  "flag_set byte n \<longleftrightarrow> byte AND push_bit n 1 \<noteq> 0"

definition remap_from_payload :: "u8 list \<Rightarrow> u16 option" where
  "remap_from_payload p =
     (let remap = u16_from_be_bytes (p ! 3) (p ! 4) in if remap \<noteq> 0 then Some remap else None)"

definition cid_reporting_from_payload :: "u8 list \<Rightarrow> CidReporting" where
  "cid_reporting_from_payload p =
     \<lparr>cr_cid = u16_from_be_bytes (p ! 0) (p ! 1), cr_diverted = flag_set (p ! 2) 0,
      cr_persistently_diverted = flag_set (p ! 2) 2, cr_force_raw_xy = flag_set (p ! 2) 6,
      cr_raw_xy = flag_set (p ! 2) 4, cr_remap = remap_from_payload p,
      cr_analytics_key_events = flag_set (p ! 5) 0, cr_raw_wheel = flag_set (p ! 5) 2\<rparr>"

text \<open>A setting of a change is a valid bit above its value bit.\<close>

definition setting_bits :: "bool option \<Rightarrow> nat \<Rightarrow> u8" where
  "setting_bits setting n =
     (case setting of None \<Rightarrow> 0 | Some value \<Rightarrow> push_bit (Suc n) 1 OR push_bit n (of_bool value))"

definition change_to_payload :: "CidReportingChange \<Rightarrow> u16 \<Rightarrow> u8 list" where
  "change_to_payload ch cid =
     u16_to_be_bytes cid
     @ [setting_bits (cg_diverted ch) 0 OR setting_bits (cg_persistently_diverted ch) 2
        OR setting_bits (cg_raw_xy ch) 4 OR setting_bits (cg_force_raw_xy ch) 6]
     @ (case cg_remap ch of Some remap \<Rightarrow> u16_to_be_bytes remap | None \<Rightarrow> [0, 0])
     @ [setting_bits (cg_analytics_key_events ch) 0 OR setting_bits (cg_raw_wheel ch) 2]
     @ replicate 10 0"

definition setting_from :: "u8 \<Rightarrow> nat \<Rightarrow> bool option" where
  "setting_from byte n = (if flag_set byte (Suc n) then Some (flag_set byte n) else None)"

definition echo_from_payload :: "u8 list \<Rightarrow> CidReportingChangeEcho" where
  "echo_from_payload p =
     \<lparr>ce_cid = u16_from_be_bytes (p ! 0) (p ! 1), ce_diverted = setting_from (p ! 2) 0,
      ce_persistently_diverted = setting_from (p ! 2) 2, ce_force_raw_xy = setting_from (p ! 2) 6,
      ce_raw_xy = setting_from (p ! 2) 4, ce_remap = remap_from_payload p,
      ce_analytics_key_events = setting_from (p ! 5) 0, ce_raw_wheel = setting_from (p ! 5) 2\<rparr>"

section \<open>Calls\<close>

text \<open>A call whose answer is read from its payload.\<close>

definition reading :: "(u8 list \<Rightarrow> 'a) \<Rightarrow> (Hidpp20Error + v20_message) \<times> link_state \<Rightarrow> (Hidpp20Error + 'a) \<times> link_state" where
  "reading f r =
     (case r of
        (Inl e, st) \<Rightarrow> (Inl e, st)
      | (Inr response, st) \<Rightarrow> (Inr (f (v20_extend_payload response)), st))"

definition get_count :: "link \<Rightarrow> FeatureEndpoint \<Rightarrow> link_state \<Rightarrow> (Hidpp20Error + u8) \<times> link_state" where
  "get_count link ep st = reading (\<lambda>p. p ! 0) (call link ep 0 [0, 0, 0] st)"

definition get_cid_info :: "link \<Rightarrow> FeatureEndpoint \<Rightarrow> u8 \<Rightarrow> link_state \<Rightarrow> (Hidpp20Error + CidInfo) \<times> link_state" where
  "get_cid_info link ep index st = reading cid_info_from_payload (call_long link ep 1 (index # replicate 15 0) st)"

definition get_ctrl_id_info :: "link \<Rightarrow> FeatureEndpoint \<Rightarrow> u8 \<Rightarrow> link_state \<Rightarrow> (Hidpp20Error + CtrlIdInfo) \<times> link_state" where
  "get_ctrl_id_info link ep index st =
     (case get_cid_info link ep index st of
        (Inl e, st) \<Rightarrow> (Inl e, st)
      | (Inr info, st) \<Rightarrow> (Inr (ctrl_id_info_from info), st))"

definition get_cid_reporting ::
  "link \<Rightarrow> FeatureEndpoint \<Rightarrow> u16 \<Rightarrow> link_state \<Rightarrow> (Hidpp20Error + CidReporting) \<times> link_state" where
  "get_cid_reporting link ep cid st = reading cid_reporting_from_payload (call link ep 2 (u16_to_be_bytes cid @ [0]) st)"

definition set_cid_reporting ::
  "link \<Rightarrow> FeatureEndpoint \<Rightarrow> u16 \<Rightarrow> CidReportingChange \<Rightarrow> link_state \<Rightarrow> (Hidpp20Error + CidReportingChangeEcho) \<times> link_state" where
  "set_cid_reporting link ep cid change st = reading echo_from_payload (call_long link ep 3 (change_to_payload change cid) st)"

definition get_capabilities :: "link \<Rightarrow> FeatureEndpoint \<Rightarrow> link_state \<Rightarrow> (Hidpp20Error + bool) \<times> link_state" where
  "get_capabilities link ep st = reading (\<lambda>p. p ! 0 AND 1 \<noteq> 0) (call link ep 4 [0, 0, 0] st)"

definition reset_all_cid_report_settings :: "link \<Rightarrow> FeatureEndpoint \<Rightarrow> link_state \<Rightarrow> (Hidpp20Error + unit) \<times> link_state" where
  "reset_all_cid_report_settings link ep st = reading (\<lambda>_. ()) (call link ep 5 [0, 0, 0] st)"

definition divert_cid :: "link \<Rightarrow> FeatureEndpoint \<Rightarrow> u16 \<Rightarrow> link_state \<Rightarrow> (Hidpp20Error + unit) \<times> link_state" where
  "divert_cid link ep cid st =
     (case set_cid_reporting link ep cid (change_default\<lparr>cg_diverted := Some True, cg_raw_xy := Some False\<rparr>) st of
        (Inl e, st) \<Rightarrow> (Inl e, st)
      | (Inr _, st) \<Rightarrow> (Inr (), st))"

section \<open>Taking a control and handing it back\<close>

datatype PointerDivert = Plain | DivRawXy | DivRawWheel
datatype ReprogRestorePolicy = Pointer PointerDivert | Keyboard

record ArmedReporting =
  arm_cid :: u16
  arm_original :: CidReporting
  arm_policy :: ReprogRestorePolicy
  arm_restore_as_found :: bool

definition armed_pointer :: "u16 \<Rightarrow> CidReporting \<Rightarrow> PointerDivert \<Rightarrow> ArmedReporting" where
  "armed_pointer cid original divert =
     \<lparr>arm_cid = cid, arm_original = original, arm_policy = Pointer divert, arm_restore_as_found = False\<rparr>"

definition armed_keyboard :: "u16 \<Rightarrow> CidReporting \<Rightarrow> ArmedReporting" where
  "armed_keyboard cid original =
     \<lparr>arm_cid = cid, arm_original = original, arm_policy = Keyboard, arm_restore_as_found = False\<rparr>"

definition pointer_divert_change :: "CidReporting \<Rightarrow> PointerDivert \<Rightarrow> CidReportingChange" where
  "pointer_divert_change reporting divert =
     change_default\<lparr>cg_diverted := Some True, cg_raw_xy := Some (divert = DivRawXy),
       cg_raw_wheel := (if divert = DivRawWheel then Some True else None), cg_remap := cr_remap reporting\<rparr>"

definition divert_keyboard_key :: "CidReporting \<Rightarrow> CidReportingChange" where
  "divert_keyboard_key reporting = change_default\<lparr>cg_diverted := Some True, cg_remap := cr_remap reporting\<rparr>"

definition pointer_undivert_change :: "CidReporting \<Rightarrow> CidReportingChange" where
  "pointer_undivert_change reporting =
     change_default\<lparr>cg_diverted := Some False, cg_raw_xy := Some False, cg_remap := cr_remap reporting\<rparr>"

definition undivert_raw_wheel_change :: "CidReporting \<Rightarrow> CidReportingChange" where
  "undivert_raw_wheel_change reporting = (pointer_undivert_change reporting)\<lparr>cg_raw_wheel := Some False\<rparr>"

definition undivert_keyboard_key :: "CidReporting \<Rightarrow> CidReportingChange" where
  "undivert_keyboard_key reporting = change_default\<lparr>cg_diverted := Some False, cg_remap := cr_remap reporting\<rparr>"

definition divert_change :: "ArmedReporting \<Rightarrow> CidReportingChange" where
  "divert_change a =
     (case arm_policy a of
        Pointer divert \<Rightarrow> pointer_divert_change (arm_original a) divert
      | Keyboard \<Rightarrow> divert_keyboard_key (arm_original a))"

text \<open>The target system the program is built for (\<open>cfg!(target_os = "linux")\<close>) is an argument.\<close>

definition BACK_CIDS :: "u16 list" where "BACK_CIDS = [0x0053, 0x00BD, 0x00CE, 0x00DB]"
definition FORWARD_CIDS :: "u16 list" where "FORWARD_CIDS = [0x0056, 0x00CF]"

definition kernel_diverts :: "bool \<Rightarrow> DeviceRoute \<Rightarrow> u16 \<Rightarrow> bool" where
  "kernel_diverts linux route cid \<longleftrightarrow>
     linux \<and> route = RouteDirect 0x046d 0xb02a \<and> cid \<in> set [BACK_CIDS ! 0, FORWARD_CIDS ! 0]"

definition kernel_diversion_on :: "bool \<Rightarrow> DeviceRoute \<Rightarrow> ArmedReporting \<Rightarrow> ArmedReporting" where
  "kernel_diversion_on linux route a =
     a\<lparr>arm_restore_as_found := (cr_diverted (arm_original a) \<and> (case arm_policy a of Pointer _ \<Rightarrow> True | Keyboard \<Rightarrow> False)
         \<and> kernel_diverts linux route (arm_cid a))\<rparr>"

definition undivert_change :: "ArmedReporting \<Rightarrow> CidReportingChange" where
  "undivert_change a =
     (if arm_restore_as_found a then
        change_default\<lparr>cg_diverted := Some True, cg_raw_xy := Some (cr_raw_xy (arm_original a)),
          cg_raw_wheel := (if arm_policy a = Pointer DivRawWheel then Some (cr_raw_wheel (arm_original a)) else None),
          cg_remap := cr_remap (arm_original a)\<rparr>
      else case arm_policy a of
        Pointer DivRawWheel \<Rightarrow> undivert_raw_wheel_change (arm_original a)
      | Pointer _ \<Rightarrow> pointer_undivert_change (arm_original a)
      | Keyboard \<Rightarrow> undivert_keyboard_key (arm_original a))"

definition setting_holds :: "bool option \<Rightarrow> bool \<Rightarrow> bool" where
  "setting_holds wanted now = (case wanted of None \<Rightarrow> True | Some w \<Rightarrow> w = now)"

definition change_holds :: "CidReportingChange \<Rightarrow> CidReporting \<Rightarrow> bool" where
  "change_holds change current \<longleftrightarrow>
     setting_holds (cg_diverted change) (cr_diverted current)
     \<and> setting_holds (cg_persistently_diverted change) (cr_persistently_diverted current)
     \<and> setting_holds (cg_raw_xy change) (cr_raw_xy current)
     \<and> setting_holds (cg_force_raw_xy change) (cr_force_raw_xy current)
     \<and> setting_holds (cg_analytics_key_events change) (cr_analytics_key_events current)
     \<and> setting_holds (cg_raw_wheel change) (cr_raw_wheel current)"

definition redivert_change :: "ArmedReporting \<Rightarrow> CidReporting \<Rightarrow> CidReportingChange option" where
  "redivert_change a current =
     (let change = (divert_change a)\<lparr>cg_remap := None\<rparr> in if change_holds change current then None else Some change)"

definition restore_reporting :: "link \<Rightarrow> FeatureEndpoint \<Rightarrow> ArmedReporting \<Rightarrow> link_state \<Rightarrow> bool \<times> link_state" where
  "restore_reporting link ep a st =
     (case set_cid_reporting link ep (arm_cid a) (undivert_change a) st of
        (Inl _, st) \<Rightarrow> (False, st)
      | (Inr _, st) \<Rightarrow> (True, st))"

section \<open>Settings on the wire\<close>

lemma flag_set_bit: "flag_set byte n \<longleftrightarrow> bit byte n"
proof -
  have "byte AND push_bit n 1 = of_bool (bit byte n) * push_bit n 1"
    by (rule bit_word_eqI) (auto simp: bit_simps)
  then show ?thesis
    by (cases "bit byte n") (auto simp: flag_set_def push_bit_eq_0_iff dest: bit_imp_le_length)
qed

lemma setting_bits_bit:
  assumes "Suc n < 8"
  shows "bit (setting_bits s n) m \<longleftrightarrow> (m = Suc n \<and> s \<noteq> None) \<or> (m = n \<and> s = Some True)"
  using assms by (auto simp: setting_bits_def bit_simps split: option.splits)

lemma remap_from_to: "(case r of Some remap \<Rightarrow> u16_to_be_bytes remap | None \<Rightarrow> [0, 0]) = u16_to_be_bytes (case r of Some remap \<Rightarrow> remap | None \<Rightarrow> 0)"
  by (simp add: u16_to_be_bytes_def split: option.splits)

lemma change_payload_nth:
  "change_to_payload ch cid ! 0 = ucast (drop_bit 8 cid)" "change_to_payload ch cid ! 1 = ucast cid"
  "change_to_payload ch cid ! 2 = setting_bits (cg_diverted ch) 0 OR setting_bits (cg_persistently_diverted ch) 2
      OR setting_bits (cg_raw_xy ch) 4 OR setting_bits (cg_force_raw_xy ch) 6"
  "u16_from_be_bytes (change_to_payload ch cid ! 3) (change_to_payload ch cid ! 4) = (case cg_remap ch of Some remap \<Rightarrow> remap | None \<Rightarrow> 0)"
  "change_to_payload ch cid ! 5 = setting_bits (cg_analytics_key_events ch) 0 OR setting_bits (cg_raw_wheel ch) 2"
  by (simp_all add: change_to_payload_def remap_from_to u16_to_be_bytes_def nth_append u16_from_to_be_bytes)

lemma change_payload_length: "length (change_to_payload ch cid) = 16"
  by (simp add: change_to_payload_def u16_to_be_bytes_def split: option.splits)

lemma setting_roundtrip:
  "setting_from (change_to_payload ch cid ! 2) 0 = cg_diverted ch"
  "setting_from (change_to_payload ch cid ! 2) 2 = cg_persistently_diverted ch"
  "setting_from (change_to_payload ch cid ! 2) 4 = cg_raw_xy ch"
  "setting_from (change_to_payload ch cid ! 2) 6 = cg_force_raw_xy ch"
  "setting_from (change_to_payload ch cid ! 5) 0 = cg_analytics_key_events ch"
  "setting_from (change_to_payload ch cid ! 5) 2 = cg_raw_wheel ch"
  by (auto simp: setting_from_def flag_set_bit change_payload_nth bit_or_iff setting_bits_bit)

section \<open>Properties\<close>

text \<open>C39: The device's echo of a reporting change, read back from the sixteen bytes the change is sent as,
  is that change: every setting it writes with its value, every absent setting absent, the control it was
  sent for; a remap target is read back unless it is zero, the wire value for keeping the remap.\<close>

theorem reporting_change_roundtrip:
  "length (change_to_payload ch cid) = 16
   \<and> echo_from_payload (change_to_payload ch cid) =
      \<lparr>ce_cid = cid, ce_diverted = cg_diverted ch, ce_persistently_diverted = cg_persistently_diverted ch,
       ce_force_raw_xy = cg_force_raw_xy ch, ce_raw_xy = cg_raw_xy ch,
       ce_remap = (if cg_remap ch = Some 0 then None else cg_remap ch),
       ce_analytics_key_events = cg_analytics_key_events ch, ce_raw_wheel = cg_raw_wheel ch\<rparr>"
  unfolding echo_from_payload_def setting_roundtrip remap_from_payload_def Let_def change_payload_nth(1,2,4)
    u16_from_to_be_bytes
  by (simp add: change_payload_length split: option.splits)

text \<open>What the feature documents of a device that accepts a change: an absent setting is kept, a remap to
  the control itself clears the remap, which then reads as absent.\<close>

definition obeys_changes :: "(CidReporting \<Rightarrow> CidReportingChange \<Rightarrow> CidReporting) \<Rightarrow> bool" where
  "obeys_changes fw \<longleftrightarrow>
     (\<forall>r ch. fw r ch =
        \<lparr>cr_cid = cr_cid r, cr_diverted = (case cg_diverted ch of Some v \<Rightarrow> v | None \<Rightarrow> cr_diverted r),
         cr_persistently_diverted = (case cg_persistently_diverted ch of Some v \<Rightarrow> v | None \<Rightarrow> cr_persistently_diverted r),
         cr_force_raw_xy = (case cg_force_raw_xy ch of Some v \<Rightarrow> v | None \<Rightarrow> cr_force_raw_xy r),
         cr_raw_xy = (case cg_raw_xy ch of Some v \<Rightarrow> v | None \<Rightarrow> cr_raw_xy r),
         cr_remap = (case cg_remap ch of Some v \<Rightarrow> if v = cr_cid r then None else Some v | None \<Rightarrow> cr_remap r),
         cr_analytics_key_events = (case cg_analytics_key_events ch of Some v \<Rightarrow> v | None \<Rightarrow> cr_analytics_key_events r),
         cr_raw_wheel = (case cg_raw_wheel ch of Some v \<Rightarrow> v | None \<Rightarrow> cr_raw_wheel r)\<rparr>)"

lemma obeys_holds: "obeys_changes fw \<Longrightarrow> change_holds ch (fw r ch)"
  by (simp add: obeys_changes_def change_holds_def setting_holds_def split: option.splits)

lemmas restore_defs = divert_change_def undivert_change_def pointer_divert_change_def divert_keyboard_key_def
  pointer_undivert_change_def undivert_raw_wheel_change_def undivert_keyboard_key_def change_default_def

text \<open>C38: A capture session hands a control back as it found it. On a device that applies a change as the
  feature documents, taking a control and handing it back leaves every setting as it was read at arming,
  except that the diversion is cleared, for a pointer control its raw XY reporting too, and its raw wheel
  reporting when it was armed with it; a control the kernel diverts gets back exactly what was found. A
  control whose diversion still holds is not written again, and after diverting it again it holds.\<close>

theorem control_handed_back:
  assumes "obeys_changes fw" "cr_remap (arm_original a) \<noteq> Some (cr_cid (arm_original a))"
    and "arm_restore_as_found a \<Longrightarrow> cr_diverted (arm_original a) \<and> arm_policy a \<noteq> Keyboard"
  shows "fw (fw (arm_original a) (divert_change a)) (undivert_change a) =
      (if arm_restore_as_found a then arm_original a
       else case arm_policy a of
         Keyboard \<Rightarrow> (arm_original a)\<lparr>cr_diverted := False\<rparr>
       | Pointer DivRawWheel \<Rightarrow> (arm_original a)\<lparr>cr_diverted := False, cr_raw_xy := False, cr_raw_wheel := False\<rparr>
       | Pointer _ \<Rightarrow> (arm_original a)\<lparr>cr_diverted := False, cr_raw_xy := False\<rparr>)
    \<and> redivert_change a (fw (arm_original a) (divert_change a)) = None
    \<and> (case redivert_change a r of None \<Rightarrow> change_holds ((divert_change a)\<lparr>cg_remap := None\<rparr>) r
        | Some ch \<Rightarrow> cr_remap (fw r ch) = cr_remap r \<and> redivert_change a (fw r ch) = None)"
proof -
  let ?o = "arm_original a"
  have "fw (fw ?o (divert_change a)) (undivert_change a) =
      (if arm_restore_as_found a then ?o
       else case arm_policy a of
         Keyboard \<Rightarrow> ?o\<lparr>cr_diverted := False\<rparr>
       | Pointer DivRawWheel \<Rightarrow> ?o\<lparr>cr_diverted := False, cr_raw_xy := False, cr_raw_wheel := False\<rparr>
       | Pointer _ \<Rightarrow> ?o\<lparr>cr_diverted := False, cr_raw_xy := False\<rparr>)"
    using assms unfolding obeys_changes_def
    by (auto simp: restore_defs split: option.splits ReprogRestorePolicy.splits PointerDivert.splits)
  moreover have "redivert_change a (fw ?o (divert_change a)) = None"
    using obeys_holds [OF assms(1), of "divert_change a" ?o] by (simp add: redivert_change_def change_holds_def)
  moreover have "case redivert_change a r of None \<Rightarrow> change_holds ((divert_change a)\<lparr>cg_remap := None\<rparr>) r
      | Some ch \<Rightarrow> cr_remap (fw r ch) = cr_remap r \<and> redivert_change a (fw r ch) = None"
    using obeys_holds [OF assms(1), of "(divert_change a)\<lparr>cg_remap := None\<rparr>" r] assms(1)
    by (simp add: redivert_change_def Let_def obeys_changes_def)
  ultimately show ?thesis
    by blast
qed

section \<open>Examples\<close>

text \<open>A device that does what the feature documents, and a key remapped to another control.\<close>

definition documented_device :: "CidReporting \<Rightarrow> CidReportingChange \<Rightarrow> CidReporting" where
  "documented_device r ch =
     \<lparr>cr_cid = cr_cid r, cr_diverted = (case cg_diverted ch of Some v \<Rightarrow> v | None \<Rightarrow> cr_diverted r),
      cr_persistently_diverted = (case cg_persistently_diverted ch of Some v \<Rightarrow> v | None \<Rightarrow> cr_persistently_diverted r),
      cr_force_raw_xy = (case cg_force_raw_xy ch of Some v \<Rightarrow> v | None \<Rightarrow> cr_force_raw_xy r),
      cr_raw_xy = (case cg_raw_xy ch of Some v \<Rightarrow> v | None \<Rightarrow> cr_raw_xy r),
      cr_remap = (case cg_remap ch of Some v \<Rightarrow> if v = cr_cid r then None else Some v | None \<Rightarrow> cr_remap r),
      cr_analytics_key_events = (case cg_analytics_key_events ch of Some v \<Rightarrow> v | None \<Rightarrow> cr_analytics_key_events r),
      cr_raw_wheel = (case cg_raw_wheel ch of Some v \<Rightarrow> v | None \<Rightarrow> cr_raw_wheel r)\<rparr>"

definition back_button :: CidReporting where
  "back_button = \<lparr>cr_cid = 0x53, cr_diverted = True, cr_persistently_diverted = False, cr_force_raw_xy = False,
     cr_raw_xy = False, cr_remap = Some 0x56, cr_analytics_key_events = True, cr_raw_wheel = False\<rparr>"

theorem control_handed_back_witness:
  "documented_device (documented_device back_button (divert_change (armed_pointer 0x53 back_button DivRawXy)))
     (undivert_change (armed_pointer 0x53 back_button DivRawXy)) = back_button\<lparr>cr_diverted := False\<rparr>"
proof -
  have "obeys_changes documented_device"
    by (simp add: obeys_changes_def documented_device_def)
  then show ?thesis
    using control_handed_back [of documented_device "armed_pointer 0x53 back_button DivRawXy"]
    by (simp add: armed_pointer_def back_button_def)
qed

end
