(* ===== verification/Capture_Session.thy ===== *)
theory Capture_Session
  imports Gesture_Capture Reprog_Controls Bytes
begin

text \<open>
  From HID++ messages to captured inputs: the event decoders of the reprogrammable controls, the
  button spy, the high-resolution wheel and the thumb wheel (\<^verbatim>\<open>crates/openlogi-hidpp/src/feature\<close>
  and \<^verbatim>\<open>crates/openlogi-device/src/thumbwheel.rs\<close>), the spy's edges, and the report handler of a
  capture session with its reset (\<^verbatim>\<open>session/gesture.rs\<close>, \<^verbatim>\<open>session/gesture/spy.rs\<close>,
  \<^verbatim>\<open>session/gesture/main_wheel.rs\<close>). Locks guard single steps and are left out.
\<close>

section \<open>Decoding events\<close>

definition i16_from_be_bytes :: "u8 \<Rightarrow> u8 \<Rightarrow> int" where
  "i16_from_be_bytes b0 b1 = sint (u16_from_be_bytes b0 b1)"

record AnalyticsKeyEvent =
  ak_cid :: u16
  ak_event :: u8

datatype ReprogControlsEvent =
    RcDivertedButtons "u16 list"
  | RcDivertedRawMouseXy int int
  | RcAnalyticsKeyEvents "AnalyticsKeyEvent list"
  | RcDivertedRawWheel RawWheelResolution U4 int
  | RcReportingChangedElsewhere CidReportingChangeEcho

definition analytics_from_payload :: "u8 list \<Rightarrow> AnalyticsKeyEvent" where
  "analytics_from_payload bytes = \<lparr>ak_cid = u16_from_be_bytes (bytes ! 0) (bytes ! 1), ak_event = bytes ! 2\<rparr>"

definition decode_event_payload :: "u8 \<Rightarrow> u8 list \<Rightarrow> ReprogControlsEvent option" where
  "decode_event_payload fid p =
     (if fid = 0 then Some (RcDivertedButtons (map (\<lambda>i. u16_from_be_bytes (p ! i) (p ! (i + 1))) [0, 2, 4, 6]))
      else if fid = 1 then Some (RcDivertedRawMouseXy (i16_from_be_bytes (p ! 0) (p ! 1)) (i16_from_be_bytes (p ! 2) (p ! 3)))
      else if fid = 2 then Some (RcAnalyticsKeyEvents (map (\<lambda>i. analytics_from_payload (drop i p)) [0, 3, 6, 9, 12]))
      else if fid = 4 then
        Some (RcDivertedRawWheel (if drop_bit 4 (p ! 0) AND 1 = 0 then Low else High) (from_lo (p ! 0))
          (i16_from_be_bytes (p ! 1) (p ! 2)))
      else None)"

text \<open>A response to a change another client made: only a long one carries the whole echo.\<close>

definition SET_CID_REPORTING :: u8 where "SET_CID_REPORTING = 3"

fun reprog_foreign_response :: "v20_message \<Rightarrow> ReprogControlsEvent option" where
  "reprog_foreign_response (V20_Long h payload) =
     (if to_lo (function_id h) = SET_CID_REPORTING then Some (RcReportingChangedElsewhere (echo_from_payload payload)) else None)"
| "reprog_foreign_response (V20_Short _ _) = None"

definition reprog_events :: "ReprogControlsEvent decode_event" where
  "reprog_events = \<lparr>de_decode = decode_event_payload, de_min_payload_len = (\<lambda>_. 0), de_foreign = reprog_foreign_response\<rparr>"

fun reporting_change_of :: "ReprogControlsEvent \<Rightarrow> CidReportingChangeEcho option" where
  "reporting_change_of (RcReportingChangedElsewhere echo) = Some echo"
| "reporting_change_of _ = None"

text \<open>The guard the four \<open>decode_event\<close> functions share: an event of this device and feature.\<close>

definition is_event_of :: "v20_message \<Rightarrow> u8 \<Rightarrow> u8 \<Rightarrow> bool" where
  "is_event_of msg dev feat \<longleftrightarrow>
     (let h = v20_header_of msg in
      device_index h = dev \<and> feature_index h = feat \<and> to_lo (software_id h) = 0)"

definition decode_full_event :: "v20_message \<Rightarrow> u8 \<Rightarrow> u8 \<Rightarrow> ReprogControlsEvent option" where
  "decode_full_event msg dev feat =
     (if \<not> is_event_of msg dev feat then None
      else decode_event_payload (to_lo (function_id (v20_header_of msg))) (v20_extend_payload msg))"

fun raw_control_try_from :: "ReprogControlsEvent \<Rightarrow> RawControlEvent option" where
  "raw_control_try_from (RcDivertedButtons cids) = Some (DivertedButtons cids)"
| "raw_control_try_from (RcDivertedRawMouseXy dx dy) = Some (RawXy dx dy)"
| "raw_control_try_from _ = None"

definition decode_reprog_event :: "v20_message \<Rightarrow> u8 \<Rightarrow> u8 \<Rightarrow> RawControlEvent option" where
  "decode_reprog_event msg dev feat = Option.bind (decode_full_event msg dev feat) raw_control_try_from"

definition decode_raw_wheel_event :: "v20_message \<Rightarrow> u8 \<Rightarrow> u8 \<Rightarrow> RawWheelEvent option" where
  "decode_raw_wheel_event msg dev feat =
     (case decode_full_event msg dev feat of
        Some (RcDivertedRawWheel resolution _ delta) \<Rightarrow> Some \<lparr>rw_resolution = resolution, rw_delta = delta\<rparr>
      | _ \<Rightarrow> None)"

definition EV_SINGLE_TAP :: u8 where "EV_SINGLE_TAP = 0x08"
definition EV_PROXY :: u8 where "EV_PROXY = 0x04"
definition EV_TOUCH :: u8 where "EV_TOUCH = 0x02"

definition decode_thumbwheel_event :: "v20_message \<Rightarrow> u8 \<Rightarrow> u8 \<Rightarrow> ThumbwheelEvent option" where
  "decode_thumbwheel_event msg dev feat =
     (if \<not> is_event_of msg dev feat \<or> to_lo (function_id (v20_header_of msg)) \<noteq> 0 then None
      else let p = v20_extend_payload msg in
        Some \<lparr>te_rotation = i16_from_be_bytes (p ! 0) (p ! 1), te_rotation_status = rotation_status_from_byte (p ! 4),
              te_single_tap = (p ! 5 AND EV_SINGLE_TAP \<noteq> 0), te_touch = (p ! 5 AND EV_TOUCH \<noteq> 0),
              te_proxy = (p ! 5 AND EV_PROXY \<noteq> 0)\<rparr>)"

text \<open>The event of the button spy is its mask.\<close>

definition spy_decode :: "u8 \<Rightarrow> u8 list \<Rightarrow> u16 option" where
  "spy_decode sub payload = (if sub = 0 then Some (u16_from_be_bytes (payload ! 0) (payload ! 1)) else None)"

definition decode_mask :: "v20_message \<Rightarrow> u8 \<Rightarrow> u8 \<Rightarrow> u16 option" where
  "decode_mask msg dev spy_index =
     (if \<not> is_event_of msg dev spy_index then None
      else spy_decode (to_lo (function_id (v20_header_of msg))) (v20_extend_payload msg))"

datatype HiResWheelResolution = HrLow | HrHigh
datatype WheelRatchetState = Freespin | Ratchet

record WheelMovementData =
  wm_resolution :: HiResWheelResolution
  wm_periods :: U4
  wm_delta_vertical :: int
  wm_delta_horizontal :: int

datatype HiResWheelEvent = WheelMovement WheelMovementData | RatchetSwitch WheelRatchetState

definition hires_decode :: "u8 \<Rightarrow> u8 list \<Rightarrow> HiResWheelEvent option" where
  "hires_decode sub p =
     (if sub = 0 then
        Some (WheelMovement \<lparr>wm_resolution = (if drop_bit 4 (p ! 0 AND push_bit 4 1) = 0 then HrLow else HrHigh),
          wm_periods = from_lo (p ! 0), wm_delta_vertical = i16_from_be_bytes (p ! 1) (p ! 2),
          wm_delta_horizontal = i16_from_be_bytes (p ! 3) (p ! 4)\<rparr>)
      else if sub = 1 then Some (RatchetSwitch (if p ! 0 AND 1 = 0 then Freespin else Ratchet))
      else None)"

definition hires_events :: "HiResWheelEvent decode_event" where
  "hires_events = \<lparr>de_decode = hires_decode, de_min_payload_len = (\<lambda>sub. if sub = 0 then 5 else 0),
     de_foreign = (\<lambda>_. None)\<rparr>"

definition decode_hires_event :: "v20_message \<Rightarrow> u8 \<Rightarrow> u8 \<Rightarrow> HiResWheelEvent option" where
  "decode_hires_event msg dev feat = (if \<not> is_event_of msg dev feat then None else decode_message hires_events msg)"

definition movement_input :: "HiResWheelEvent \<Rightarrow> u8 \<Rightarrow> CapturedInput option" where
  "movement_input event per_notch =
     (case event of
        WheelMovement m \<Rightarrow>
          if wm_delta_vertical m = 0 then None
          else Some (MainWheel (wm_delta_vertical m) (if wm_resolution m = HrHigh then per_notch else 1))
      | _ \<Rightarrow> None)"

section \<open>The button spy's edges\<close>

text \<open>\<open>1u16 << slot\<close>: the slots of a mapping are below 16.\<close>

definition slot_bit :: "u8 \<Rightarrow> u16" where
  "slot_bit slot = push_bit (unat slot) 1"

definition on_mask :: "u16 \<Rightarrow> u16 \<Rightarrow> (u8 \<times> ButtonId) list \<Rightarrow> u16 \<times> CapturedInput list" where
  "on_mask held btns captured =
     (let changed = btns XOR held in
      (btns, map (\<lambda>(slot, button). if btns AND slot_bit slot = 0 then ButtonUp button else ButtonDown button)
               (filter (\<lambda>(slot, _). changed AND slot_bit slot \<noteq> 0) captured)))"

definition spy_interrupt :: "u16 \<Rightarrow> CapturedInput list" where
  "spy_interrupt held = (if held \<noteq> 0 then [Interrupted] else [])"

section \<open>The session\<close>

record ArmedControls =
  ar_device :: u8
  ar_reprog :: "u8 option"
  ar_cids :: ArmedCids
  ar_wheel_buttons :: "(u16 \<times> ButtonId) list"
  ar_hires_per_notch :: "u8 option"
  ar_thumb :: "(u8 \<times> WheelResolution) option"
  ar_main_wheel :: "(u8 \<times> u8) option"
  ar_spy :: "(u8 \<times> (u8 \<times> ButtonId) list) option"

record SessionInput =
  si_accum :: CaptureAccum
  si_thumb_status :: RotationStatus
  si_spy_held :: u16

definition session_input_new :: SessionInput where
  "session_input_new = \<lparr>si_accum = accum_default, si_thumb_status = Inactive, si_spy_held = 0\<rparr>"

text \<open>The handler tries the spy, the reprogrammable controls, their raw wheel, the thumb wheel and the
  main wheel in this order; each step is the guard of one of its \<open>if\<close>s.\<close>

definition spy_mask :: "ArmedControls \<Rightarrow> v20_message \<Rightarrow> (u16 \<times> (u8 \<times> ButtonId) list) option" where
  "spy_mask ar msg =
     (case ar_spy ar of
        None \<Rightarrow> None
      | Some (spy_index, captured) \<Rightarrow> map_option (\<lambda>btns. (btns, captured)) (decode_mask msg (ar_device ar) spy_index))"

definition reprog_event :: "ArmedControls \<Rightarrow> v20_message \<Rightarrow> RawControlEvent option" where
  "reprog_event ar msg = Option.bind (ar_reprog ar) (decode_reprog_event msg (ar_device ar))"

definition raw_wheel_event :: "ArmedControls \<Rightarrow> v20_message \<Rightarrow> RawWheelEvent option" where
  "raw_wheel_event ar msg = Option.bind (ar_reprog ar) (decode_raw_wheel_event msg (ar_device ar))"

definition thumb_event :: "ArmedControls \<Rightarrow> v20_message \<Rightarrow> (ThumbwheelEvent \<times> WheelResolution) option" where
  "thumb_event ar msg =
     (case ar_thumb ar of
        None \<Rightarrow> None
      | Some (idx, resolution) \<Rightarrow> map_option (\<lambda>event. (event, resolution)) (decode_thumbwheel_event msg (ar_device ar) idx))"

definition main_wheel_inputs :: "ArmedControls \<Rightarrow> v20_message \<Rightarrow> CapturedInput list" where
  "main_wheel_inputs ar msg =
     (case ar_main_wheel ar of
        None \<Rightarrow> []
      | Some (idx, per_notch) \<Rightarrow>
          (case decode_hires_event msg (ar_device ar) idx of
             None \<Rightarrow> []
           | Some event \<Rightarrow> (case movement_input event per_notch of Some input \<Rightarrow> [input] | None \<Rightarrow> [])))"

text \<open>The press and release of a wheel-hold button are ordinary button edges.\<close>

definition handler_cids :: "ArmedControls \<Rightarrow> ArmedCids" where
  "handler_cids ar = (ar_cids ar)\<lparr>ac_button := ac_button (ar_cids ar) @ ar_wheel_buttons ar\<rparr>"

definition report_handler ::
  "ArmedControls \<Rightarrow> SessionInput \<Rightarrow> v20_message \<Rightarrow> nat \<Rightarrow> nat \<Rightarrow> SessionInput \<times> CapturedInput list" where
  "report_handler ar si msg now now2 =
     (case spy_mask ar msg of
        Some (btns, captured) \<Rightarrow>
          (case on_mask (si_spy_held si) btns captured of (held, sent) \<Rightarrow> (si\<lparr>si_spy_held := held\<rparr>, sent))
      | None \<Rightarrow>
     (case reprog_event ar msg of
        Some event \<Rightarrow>
          (case on_event (si_accum si) (handler_cids ar) event now now2 of (acc, sent) \<Rightarrow> (si\<lparr>si_accum := acc\<rparr>, sent))
      | None \<Rightarrow>
     (case raw_wheel_event ar msg of
        Some event \<Rightarrow> (si, on_raw_wheel (si_accum si) event (ar_wheel_buttons ar) (ar_hires_per_notch ar))
      | None \<Rightarrow>
     (case thumb_event ar msg of
        Some (event, resolution) \<Rightarrow>
          (si\<lparr>si_thumb_status := te_rotation_status event\<rparr>,
           case thumbwheel_input event (si_thumb_status si) resolution of Some input \<Rightarrow> [input] | None \<Rightarrow> [])
      | None \<Rightarrow> (si, main_wheel_inputs ar msg)))))"

text \<open>A reconnected device: the inputs forget what was held.\<close>

definition reset_input_state :: "SessionInput \<Rightarrow> SessionInput \<times> CapturedInput list" where
  "reset_input_state si = (session_input_new, spy_interrupt (si_spy_held si))"

section \<open>Events on the wire\<close>

lemma diverted_buttons_wire:
  "decode_event_payload 0 (u16_to_be_bytes a @ u16_to_be_bytes b @ u16_to_be_bytes c @ u16_to_be_bytes d @ rest) =
     Some (RcDivertedButtons [a, b, c, d])"
  by (simp add: decode_event_payload_def u16_to_be_bytes_def u16_from_to_be_bytes)

lemma i16_be_bounds: "is_i16 (i16_from_be_bytes b0 b1)"
  using sint_ge [of "u16_from_be_bytes b0 b1"] sint_lt [of "u16_from_be_bytes b0 b1"]
  by (simp add: i16_from_be_bytes_def is_i16_def)

text \<open>A message that is no event of the session's device: another device's, or an answer.\<close>

definition not_ours :: "ArmedControls \<Rightarrow> v20_message \<Rightarrow> bool" where
  "not_ours ar msg \<longleftrightarrow>
     device_index (v20_header_of msg) \<noteq> ar_device ar \<or> to_lo (software_id (v20_header_of msg)) \<noteq> 0"

lemma not_ours_no_event: "not_ours ar msg \<Longrightarrow> \<not> is_event_of msg (ar_device ar) feat"
  by (auto simp: not_ours_def is_event_of_def Let_def)

lemma not_ours_ignored: "not_ours ar msg \<Longrightarrow> report_handler ar si msg now now2 = (si, [])"
  using not_ours_no_event [of ar msg]
  by (auto simp: report_handler_def spy_mask_def decode_mask_def reprog_event_def decode_reprog_event_def
      decode_full_event_def raw_wheel_event_def decode_raw_wheel_event_def thumb_event_def
      decode_thumbwheel_event_def main_wheel_inputs_def decode_hires_event_def bind_eq_Some_conv
      split: option.splits prod.splits bind_splits)

section \<open>The spied buttons\<close>

definition spied_count :: "ArmedControls \<Rightarrow> u16 \<Rightarrow> ButtonId \<Rightarrow> int" where
  "spied_count ar held b =
     (case ar_spy ar of
        None \<Rightarrow> 0
      | Some (_, captured) \<Rightarrow> int (length (filter (\<lambda>(slot, b'). b' = b \<and> held AND slot_bit slot \<noteq> 0) captured)))"

lemma slot_bit_test: "w AND slot_bit slot \<noteq> 0 \<longleftrightarrow> bit w (unat slot)"
proof -
  have "w AND slot_bit slot = of_bool (bit w (unat slot)) * push_bit (unat slot) 1"
    by (rule bit_word_eqI) (auto simp: slot_bit_def bit_simps)
  then show ?thesis
    by (cases "bit w (unat slot)") (auto simp: bit_imp_le_length push_bit_eq_0_iff dest: bit_imp_le_length)
qed

lemma net_on_mask:
  "net b (snd (on_mask held btns captured)) =
     int (length (filter (\<lambda>(slot, b'). b' = b \<and> btns AND slot_bit slot \<noteq> 0) captured))
     - int (length (filter (\<lambda>(slot, b'). b' = b \<and> held AND slot_bit slot \<noteq> 0) captured))"
proof -
  have y: "btns AND slot_bit slot = 0 \<longleftrightarrow> \<not> bit btns (unat slot)" for slot
    using slot_bit_test [of btns slot] by blast
  show ?thesis
    unfolding on_mask_def Let_def snd_conv y slot_bit_test
    by (induction captured) (auto simp: bit_xor_iff)
qed

section \<open>The session over time\<close>

datatype SessionEvent = SeReport v20_message nat nat | SeReconnect

text \<open>The session's inputs and everything sent, with two ghosts: the capture machine that reads the
  same control reports, and per button the presses that were down at reconnects.\<close>

record SessionWorld =
  sw_inputs :: SessionInput
  sw_sent :: "CapturedInput list"
  sw_capture :: CaptureWorld
  sw_lost :: "ButtonId \<Rightarrow> int"

definition capture_start :: CaptureWorld where
  "capture_start = \<lparr>cw_accum = accum_default, cw_sent = [], cw_pressed = [], cw_swipes = 0\<rparr>"

definition session_init :: "ArmedControls \<Rightarrow> SessionWorld \<Rightarrow> bool" where
  "session_init ar w \<longleftrightarrow>
     armed_ok (handler_cids ar) \<and> sw_inputs w = session_input_new \<and> sw_sent w = [] \<and> sw_capture w = capture_start
     \<and> sw_lost w = (\<lambda>_. 0)"

definition down_now :: "ArmedControls \<Rightarrow> SessionWorld \<Rightarrow> ButtonId \<Rightarrow> int" where
  "down_now ar w b = pressed_count (handler_cids ar) (cw_pressed (sw_capture w)) b + spied_count ar (si_spy_held (sw_inputs w)) b"

definition capture_read :: "ArmedControls \<Rightarrow> CaptureWorld \<Rightarrow> v20_message \<Rightarrow> nat \<Rightarrow> nat \<Rightarrow> CaptureWorld" where
  "capture_read ar c msg now now2 =
     (if spy_mask ar msg \<noteq> None then c
      else case reprog_event ar msg of
        Some event \<Rightarrow> the (capture_step (handler_cids ar) c (CvReport event now now2))
      | None \<Rightarrow> c)"

fun session_event_step :: "ArmedControls \<Rightarrow> SessionWorld \<Rightarrow> SessionEvent \<Rightarrow> SessionWorld option" where
  "session_event_step ar w (SeReport msg now now2) =
     (case report_handler ar (sw_inputs w) msg now now2 of
        (si, sent) \<Rightarrow> Some (w\<lparr>sw_inputs := si, sw_sent := sw_sent w @ sent,
                              sw_capture := capture_read ar (sw_capture w) msg now now2\<rparr>))"
| "session_event_step ar w SeReconnect =
     (case reset_input_state (sw_inputs w) of
        (si, sent) \<Rightarrow> Some (w\<lparr>sw_inputs := si, sw_sent := sw_sent w @ sent, sw_capture := capture_start,
                              sw_lost := (\<lambda>b. sw_lost w b + down_now ar w b)\<rparr>))"

definition session_inv :: "ArmedControls \<Rightarrow> SessionWorld \<Rightarrow> bool" where
  "session_inv ar w \<longleftrightarrow>
     armed_ok (handler_cids ar) \<and> capture_inv (handler_cids ar) (sw_capture w)
     \<and> si_accum (sw_inputs w) = cw_accum (sw_capture w)
     \<and> (\<forall>b. net b (sw_sent w) = down_now ar w b + sw_lost w b)"

lemma capture_start_inv: "capture_inv armed capture_start"
  by (simp add: capture_start_def capture_inv_def accum_default_def hold_ok_def pressed_count_def)

lemma capture_step_report:
  "capture_step armed c (CvReport event now now2) =
     Some (the (capture_step armed c (CvReport event now now2)))"
  by (cases event) (simp_all split: prod.splits)

lemma capture_step_accum:
  "cw_accum (the (capture_step armed c (CvReport event now now2))) = fst (on_event (cw_accum c) armed event now now2)"
  by (cases event) (simp_all split: prod.splits)

lemma capture_step_sent:
  "cw_sent (the (capture_step armed c (CvReport event now now2))) =
     cw_sent c @ snd (on_event (cw_accum c) armed event now now2)"
  by (cases event) (simp_all split: prod.splits)

lemma capture_report_inv:
  assumes "armed_ok armed" "capture_inv armed c"
  shows "capture_inv armed (the (capture_step armed c (CvReport event now now2)))"
  by (rule capture.inv_step [of armed c "CvReport event now now2", THEN conjunct2])
    (use assms capture_step_report in auto)

lemma net_event:
  assumes "armed_ok armed" "capture_inv armed c"
  shows "net b (snd (on_event (cw_accum c) armed event now now2)) =
    pressed_count armed (cw_pressed (the (capture_step armed c (CvReport event now now2)))) b
    - pressed_count armed (cw_pressed c) b"
proof -
  let ?c = "the (capture_step armed c (CvReport event now now2))"
  have "net b (cw_sent ?c) = pressed_count armed (cw_pressed ?c) b" "net b (cw_sent c) = pressed_count armed (cw_pressed c) b"
    using assms(2) capture_report_inv [OF assms, of event now now2] by (simp_all add: capture_inv_def)
  then show ?thesis
    unfolding capture_step_sent by simp
qed

lemma net_main_wheel [simp]: "net b (main_wheel_inputs ar msg) = 0"
  by (auto simp: main_wheel_inputs_def movement_input_def split: option.splits HiResWheelEvent.splits)

lemma net_thumb [simp]: "net b (case thumbwheel_input e p r of Some input \<Rightarrow> [input] | None \<Rightarrow> []) = 0"
  by (auto simp: thumbwheel_input_def)

text \<open>What the handler does with each kind of message, as the session's invariant needs it.\<close>

lemma handler_accum:
  "si_accum (fst (report_handler ar si msg now now2)) =
     (if spy_mask ar msg \<noteq> None then si_accum si
      else case reprog_event ar msg of
        Some event \<Rightarrow> fst (on_event (si_accum si) (handler_cids ar) event now now2)
      | None \<Rightarrow> si_accum si)"
  by (auto simp: report_handler_def split: option.splits prod.splits)

lemma handler_spy:
  "si_spy_held (fst (report_handler ar si msg now now2)) =
     (case spy_mask ar msg of Some (btns, _) \<Rightarrow> btns | None \<Rightarrow> si_spy_held si)"
  by (auto simp: report_handler_def on_mask_def Let_def split: option.splits prod.splits)

lemma handler_net:
  "net b (snd (report_handler ar si msg now now2)) =
     (case spy_mask ar msg of
        Some (btns, captured) \<Rightarrow> net b (snd (on_mask (si_spy_held si) btns captured))
      | None \<Rightarrow>
         (case reprog_event ar msg of
            Some event \<Rightarrow> net b (snd (on_event (si_accum si) (handler_cids ar) event now now2))
          | None \<Rightarrow> 0))"
  unfolding report_handler_def
  by (cases "spy_mask ar msg"; cases "reprog_event ar msg"; cases "raw_wheel_event ar msg"; cases "thumb_event ar msg")
    (simp_all add: case_prod_beta)

lemma spy_mask_spied:
  assumes "spy_mask ar msg = Some (btns, captured)"
  shows "net b (snd (on_mask held btns captured)) = spied_count ar btns b - spied_count ar held b"
  using assms unfolding net_on_mask by (auto simp: spy_mask_def spied_count_def split: option.splits prod.splits)

lemma session_inv_report:
  assumes "session_inv ar w" "session_event_step ar w (SeReport msg now now2) = Some w'"
  shows "session_inv ar w'"
proof -
  let ?p = "report_handler ar (sw_inputs w) msg now now2" and ?c = "sw_capture w"
  have w': "w' = w\<lparr>sw_inputs := fst ?p, sw_sent := sw_sent w @ snd ?p, sw_capture := capture_read ar ?c msg now now2\<rparr>"
    using assms(2) by (simp add: case_prod_beta)
  have inv: "armed_ok (handler_cids ar)" "capture_inv (handler_cids ar) ?c" "si_accum (sw_inputs w) = cw_accum ?c"
      "net b (sw_sent w) = down_now ar w b + sw_lost w b" for b
    using assms(1) by (simp_all add: session_inv_def)
  have c: "capture_inv (handler_cids ar) (capture_read ar ?c msg now now2)"
    using inv capture_report_inv [OF inv(1,2)] by (simp add: capture_read_def split: option.splits)
  have a: "si_accum (fst ?p) = cw_accum (capture_read ar ?c msg now now2)"
    using inv(3) by (simp add: handler_accum capture_read_def capture_step_accum split: option.splits)
  have n: "net b (snd ?p) = down_now ar w' b - down_now ar w b" for b
  proof (cases "spy_mask ar msg")
    case (Some m)
    then show ?thesis
      by (cases m) (simp add: w' down_now_def handler_net handler_spy capture_read_def spy_mask_spied)
  next
    case None
    then show ?thesis
      using net_event [OF inv(1,2)] inv(3)
      by (cases "reprog_event ar msg") (simp_all add: w' down_now_def handler_net handler_spy capture_read_def)
  qed
  show ?thesis
    using inv c a n by (simp add: session_inv_def w')
qed

lemma session_inv_reconnect:
  assumes "session_inv ar w" "session_event_step ar w SeReconnect = Some w'"
  shows "session_inv ar w'"
proof -
  have w': "w' = w\<lparr>sw_inputs := session_input_new, sw_sent := sw_sent w @ spy_interrupt (si_spy_held (sw_inputs w)),
      sw_capture := capture_start, sw_lost := (\<lambda>b. sw_lost w b + down_now ar w b)\<rparr>"
    using assms(2) by (simp add: reset_input_state_def)
  have none: "down_now ar w' b = 0" for b
    by (simp add: w' down_now_def capture_start_def session_input_new_def pressed_count_def spied_count_def split: option.splits)
  show ?thesis
    using assms(1) capture_start_inv none unfolding session_inv_def
    by (simp add: w' session_input_new_def capture_start_def spy_interrupt_def)
qed

interpretation session: invariant_system "session_init ar" "session_event_step ar" "session_inv ar" for ar
proof
  show "session_inv ar w" if "session_init ar w" for w
    using that capture_start_inv
    by (auto simp: session_init_def session_inv_def session_input_new_def capture_start_def down_now_def pressed_count_def
        spied_count_def split: option.splits)
  show "session_inv ar w'" if "session_inv ar w" "session_event_step ar w ev = Some w'" for w ev w'
  proof (cases ev)
    case (SeReport msg now now2)
    then show ?thesis using session_inv_report [OF that(1)] that(2) by blast
  next
    case SeReconnect
    then show ?thesis using session_inv_reconnect [OF that(1)] that(2) by blast
  qed
qed

lemma down_now_reset:
  "down_now ar (w\<lparr>sw_inputs := session_input_new, sw_sent := s, sw_capture := capture_start, sw_lost := l\<rparr>) b = 0"
  by (simp add: down_now_def capture_start_def session_input_new_def pressed_count_def spied_count_def split: option.splits)

section \<open>Properties\<close>

text \<open>C31: Over every run of a capture session on a mouse, with its messages decoded from the wire and any
  number of reconnects in between, the presses sent for a button less the releases sent for it are the
  sources of the button that are down now plus those that were down at a reconnect: no press or release
  is lost, invented or doubled between reconnects.\<close>

theorem session_balanced:
  assumes "reach (session_init ar) (session_event_step ar) w"
  shows "net b (sw_sent w) = down_now ar w b + sw_lost w b"
  using session.reachable_inv [OF assms] by (simp add: session_inv_def)


section \<open>Examples\<close>

text \<open>A mouse with diverted controls at feature index 9 and a button spy at 11.\<close>

definition mx_session :: ArmedControls where
  "mx_session = \<lparr>ar_device = 2, ar_reprog = Some 9, ar_cids = mx_armed, ar_wheel_buttons = [], ar_hires_per_notch = None,
     ar_thumb = None, ar_main_wheel = None, ar_spy = Some (11, [(3, Forward)])\<rparr>"

definition mx_session_start :: SessionWorld where
  "mx_session_start = \<lparr>sw_inputs = session_input_new, sw_sent = [], sw_capture = capture_start, sw_lost = (\<lambda>_. 0)\<rparr>"

definition mx_event :: "u8 \<Rightarrow> u8 list \<Rightarrow> v20_message" where
  "mx_event feat bytes = V20_Long \<lparr>device_index = 2, feature_index = feat, function_id = from_lo 0, software_id = from_lo 0\<rparr>
     (bytes @ replicate (16 - length bytes) 0)"

definition mx_session_world :: SessionWorld where
  "mx_session_world = the (run (session_event_step mx_session) mx_session_start
     [SeReport (mx_event 9 [0, 0x52]) 0 0, SeReport (mx_event 11 [0, 8]) 10 10])"

lemma mx_session_reach: "reach (session_init mx_session) (session_event_step mx_session) mx_session_world"
proof -
  have "reach (session_init mx_session) (session_event_step mx_session) mx_session_start"
    by (rule reach_init) (simp add: session_init_def mx_session_start_def mx_session_def handler_cids_def armed_ok_def
        mx_armed_def gesture_source_button_def GESTURE_SOURCE_BUTTONS_def)
  moreover have "run (session_event_step mx_session) mx_session_start
     [SeReport (mx_event 9 [0, 0x52]) 0 0, SeReport (mx_event 11 [0, 8]) 10 10] = Some mx_session_world"
    unfolding mx_session_world_def by (rule some_the) (simp add: case_prod_beta)
  ultimately show ?thesis
    by (rule reach_run)
qed

theorem session_balanced_witness: "net MiddleClick (sw_sent mx_session_world) = 1 \<and> net Forward (sw_sent mx_session_world) = 1"
proof -
  have "down_now mx_session mx_session_world MiddleClick + sw_lost mx_session_world MiddleClick = 1"
      "down_now mx_session mx_session_world Forward + sw_lost mx_session_world Forward = 1"
    by code_simp+
  then show ?thesis
    using session_balanced [OF mx_session_reach] by simp
qed


end
