(* ===== verification/Keyboard_Session.thy ===== *)
theory Keyboard_Session
  imports Capture_Session Rust_Btree
begin

text \<open>
  A keyboard capture session, \<^verbatim>\<open>crates/openlogi-device/src/session/keyboard.rs\<close>: the keys it dispatches
  (diverted controls, keypad grid keys, the gaming cluster) with the edges their reports become, and
  the firmware writes that take keys and hand them back while the wanted set changes and calls fail.
  \<open>BTreeMap\<close> is an association list in key order, \<open>BTreeSet\<close> a set that is walked in order. Feature calls go
  through a \<open>link\<close>; every write that was issued is also logged, with whether the device confirmed it. A
  change of the wanted set is one step: the reports that arrive while its calls wait come before or after it.
\<close>

section \<open>Diverted keys\<close>

definition key_edge :: "bool \<Rightarrow> bool \<Rightarrow> ButtonId \<Rightarrow> CapturedInput list" where
  "key_edge was now button =
     (if now \<and> \<not> was then [ButtonDown button] else if was \<and> \<not> now then [ButtonUp button] else [])"

record DivertedKeys =
  dk_buttons :: "(u16 \<times> ButtonId) list"
  dk_held :: "u16 set"

definition diverted_default :: DivertedKeys where
  "diverted_default = \<lparr>dk_buttons = [], dk_held = {}\<rparr>"

fun diverted_loop :: "u16 list \<Rightarrow> (u16 \<times> ButtonId) list \<Rightarrow> u16 set \<Rightarrow> u16 set \<times> CapturedInput list" where
  "diverted_loop cids [] held = (held, [])"
| "diverted_loop cids ((cid, button) # rest) held =
     (let now = (cid \<in> set cids);
          (held', sent) = diverted_loop cids rest (if now then insert cid held else held - {cid}) in
      (held', key_edge (cid \<in> held) now button @ sent))"

definition diverted_report :: "DivertedKeys \<Rightarrow> u16 list \<Rightarrow> DivertedKeys \<times> CapturedInput list" where
  "diverted_report k cids =
     (case diverted_loop cids (dk_buttons k) (dk_held k) of (held, sent) \<Rightarrow> (k\<lparr>dk_held := held\<rparr>, sent))"

definition diverted_remove :: "u16 \<Rightarrow> DivertedKeys \<Rightarrow> DivertedKeys" where
  "diverted_remove cid k = k\<lparr>dk_buttons := filter (\<lambda>e. fst e \<noteq> cid) (dk_buttons k), dk_held := dk_held k - {cid}\<rparr>"

section \<open>Keypad grid keys\<close>

definition INPUT_REPORT_ID :: u8 where "INPUT_REPORT_ID = 0x13"
definition VENDOR_CHANNEL :: "u8 list" where "VENDOR_CHANNEL = [0xff, 0x02]"
definition VF_GRID_KEYS :: u8 where "VF_GRID_KEYS = 0x00"
definition GRID_ID_LIST :: u8 where "GRID_ID_LIST = 0x01"

fun input_payload :: "u8 list \<Rightarrow> u8 \<Rightarrow> u8 list option" where
  "input_payload (rid # c0 # c1 # byte # payload) function =
     (if rid = INPUT_REPORT_ID \<and> [c0, c1] = VENDOR_CHANNEL \<and> byte = function then Some payload else None)"
| "input_payload _ _ = None"

definition grid_key_frame :: "u8 list \<Rightarrow> u8 list option" where
  "grid_key_frame bytes =
     (case input_payload bytes VF_GRID_KEYS of
        Some (_ # marker # ids) \<Rightarrow>
          if marker = GRID_ID_LIST \<and> ids \<noteq> [] then Some (takeWhile (\<lambda>i. i \<noteq> 0) ids) else None
      | _ \<Rightarrow> None)"

record GridKeys =
  gd_buttons :: "(u8 \<times> ButtonId) list"
  gd_held :: "u8 set"

definition grid_default :: GridKeys where
  "grid_default = \<lparr>gd_buttons = [], gd_held = {}\<rparr>"

text \<open>\<open>grid[index]\<close> is reached only for keys of the map.\<close>

definition grid_button :: "(u8 \<times> ButtonId) list \<Rightarrow> u8 \<Rightarrow> ButtonId" where
  "grid_button grid i = the (map_of grid i)"

definition emit_grid_edges :: "u8 set \<Rightarrow> u8 list \<Rightarrow> (u8 \<times> ButtonId) list \<Rightarrow> u8 set \<times> CapturedInput list" where
  "emit_grid_edges down bytes grid =
     (case grid_key_frame bytes of
        None \<Rightarrow> (down, [])
      | Some ids \<Rightarrow>
          let held = set (filter (\<lambda>i. i \<in> fst ` set grid) ids) in
          (held, map (\<lambda>i. ButtonUp (grid_button grid i)) (sorted_list_of_set (down - held))
                 @ map (\<lambda>i. ButtonDown (grid_button grid i)) (sorted_list_of_set (held - down))))"

definition grid_report :: "GridKeys \<Rightarrow> u8 list \<Rightarrow> GridKeys \<times> CapturedInput list" where
  "grid_report g bytes =
     (case emit_grid_edges (gd_held g) bytes (gd_buttons g) of (held, sent) \<Rightarrow> (g\<lparr>gd_held := held\<rparr>, sent))"

definition grid_follow :: "GridKeys \<Rightarrow> (u8 \<times> ButtonId) list \<Rightarrow> GridKeys" where
  "grid_follow g wanted = \<lparr>gd_buttons = wanted, gd_held = {i \<in> gd_held g. i \<in> fst ` set wanted}\<rparr>"

section \<open>The gaming cluster\<close>

record GamingFeatures =
  gf_g_keys :: "u8 option"
  gf_m_keys :: "u8 option"
  gf_macro_record :: "u8 option"

record GamingKeys =
  gm_features :: GamingFeatures
  gm_g_row :: bool
  gm_mode_keys :: "ModeKey set"
  gm_g_held :: u32
  gm_m_held :: u8
  gm_mr_held :: bool

definition gaming_default :: GamingKeys where
  "gaming_default = \<lparr>gm_features = \<lparr>gf_g_keys = None, gf_m_keys = None, gf_macro_record = None\<rparr>, gm_g_row = False,
     gm_mode_keys = {}, gm_g_held = 0, gm_m_held = 0, gm_mr_held = False\<rparr>"

definition GKEY_ALL :: "GKey list" where "GKEY_ALL = [G1, G2, G3, G4, G5]"

fun gkey_number :: "GKey \<Rightarrow> nat" where
  "gkey_number G1 = 1"
| "gkey_number G2 = 2"
| "gkey_number G3 = 3"
| "gkey_number G4 = 4"
| "gkey_number G5 = 5"

definition gkey_bit :: "GKey \<Rightarrow> u32" where
  "gkey_bit key = push_bit (gkey_number key - 1) 1"

definition g_key :: "GKey \<Rightarrow> ButtonId" where
  "g_key key = GKeyButton \<lparr>gk_profile = GP_M1, gk_key = key\<rparr>"

definition MKEYS :: "(ModeKey \<times> u8) list" where
  "MKEYS = [(MK_M1, push_bit 0 1), (MK_M2, push_bit 1 1), (MK_M3, push_bit 2 1)]"

definition keys_contain :: "'a::len word \<Rightarrow> 'a word \<Rightarrow> bool" where
  "keys_contain held flag \<longleftrightarrow> held AND flag = flag"

definition on_g_keys :: "GamingKeys \<Rightarrow> u32 \<Rightarrow> GamingKeys \<times> CapturedInput list" where
  "on_g_keys k reported =
     (let held = (if gm_g_row k then reported else 0) in
      (k\<lparr>gm_g_held := held\<rparr>,
       concat (map (\<lambda>key. key_edge (keys_contain (gm_g_held k) (gkey_bit key)) (keys_contain held (gkey_bit key)) (g_key key))
         GKEY_ALL)))"

fun m_keys_loop :: "u8 \<Rightarrow> ModeKey set \<Rightarrow> (ModeKey \<times> u8) list \<Rightarrow> u8 \<Rightarrow> u8 \<times> CapturedInput list" where
  "m_keys_loop held mode_keys [] m_held = (m_held, [])"
| "m_keys_loop held mode_keys ((key, flag) # rest) m_held =
     (let now = (keys_contain held flag \<and> key \<in> mode_keys);
          (m', sent) = m_keys_loop held mode_keys rest (if now then m_held OR flag else m_held AND NOT flag) in
      (m', key_edge (keys_contain m_held flag) now (ModeKeyButton key) @ sent))"

definition on_m_keys :: "GamingKeys \<Rightarrow> u8 \<Rightarrow> GamingKeys \<times> CapturedInput list" where
  "on_m_keys k held =
     (case m_keys_loop held (gm_mode_keys k) MKEYS (gm_m_held k) of (m, sent) \<Rightarrow> (k\<lparr>gm_m_held := m\<rparr>, sent))"

definition on_macro_record :: "GamingKeys \<Rightarrow> bool \<Rightarrow> GamingKeys \<times> CapturedInput list" where
  "on_macro_record k held =
     (let now = (held \<and> MacroRecord \<in> gm_mode_keys k) in
      (k\<lparr>gm_mr_held := now\<rparr>, key_edge (gm_mr_held k) now (ModeKeyButton MacroRecord)))"

definition g_keys_decode :: "u8 \<Rightarrow> u8 list \<Rightarrow> u32 option" where
  "g_keys_decode sub p = (if sub = 0 then Some (u32_from_le_bytes (p ! 0) (p ! 1) (p ! 2) (p ! 3)) else None)"

definition m_keys_decode :: "u8 \<Rightarrow> u8 list \<Rightarrow> u8 option" where
  "m_keys_decode sub p = (if sub = 0 then Some (p ! 0) else None)"

definition macro_record_decode :: "u8 \<Rightarrow> u8 list \<Rightarrow> bool option" where
  "macro_record_decode sub p = (if sub = 0 then Some (p ! 0 \<noteq> 0) else None)"

definition gaming_report :: "GamingKeys \<Rightarrow> v20_message \<Rightarrow> u8 \<Rightarrow> GamingKeys \<times> CapturedInput list" where
  "gaming_report k msg dev =
     (let h = v20_header_of msg; index = Some (feature_index h); function = to_lo (function_id h);
          payload = v20_extend_payload msg in
      if device_index h \<noteq> dev \<or> to_lo (software_id h) \<noteq> 0 then (k, [])
      else if index = gf_g_keys (gm_features k) then
        (case g_keys_decode function payload of Some held \<Rightarrow> on_g_keys k held | None \<Rightarrow> (k, []))
      else if index = gf_m_keys (gm_features k) then
        (case m_keys_decode function payload of Some held \<Rightarrow> on_m_keys k held | None \<Rightarrow> (k, []))
      else if index = gf_macro_record (gm_features k) then
        (case macro_record_decode function payload of Some held \<Rightarrow> on_macro_record k held | None \<Rightarrow> (k, []))
      else (k, []))"

definition gaming_follow :: "bool \<Rightarrow> ModeKey set \<Rightarrow> GamingKeys \<Rightarrow> GamingKeys" where
  "gaming_follow g_row wanted k =
     k\<lparr>gm_g_row := g_row, gm_g_held := (if g_row then gm_g_held k else 0), gm_mode_keys := wanted,
       gm_m_held := fold (\<lambda>(key, flag) m. if key \<in> wanted then m else m AND NOT flag) MKEYS (gm_m_held k),
       gm_mr_held := (gm_mr_held k \<and> MacroRecord \<in> wanted)\<rparr>"

text \<open>The sink is set when the session starts to listen.\<close>

definition gaming_interrupt :: "GamingKeys \<Rightarrow> GamingKeys \<times> CapturedInput list" where
  "gaming_interrupt k =
     (k\<lparr>gm_g_held := 0, gm_m_held := 0, gm_mr_held := False\<rparr>,
      if gm_g_held k \<noteq> 0 \<or> gm_m_held k \<noteq> 0 \<or> gm_mr_held k \<or> gm_g_row k then [Interrupted] else [])"

section \<open>Firmware writes\<close>

text \<open>The writes a session issues: a reporting change of a control, or taking (\<open>True\<close>) or releasing the
  G-key row at a feature index; the flag says whether the device confirmed it.\<close>

datatype KbWrite = WReporting u16 CidReportingChange bool | WRow u8 bool bool

record KbIo =
  io_link :: link_state
  io_writes :: "KbWrite list"

type_synonym 'a kb_result = "Hidpp20Error + 'a"

definition io_set_reporting :: "link \<Rightarrow> FeatureEndpoint \<Rightarrow> u16 \<Rightarrow> CidReportingChange \<Rightarrow> KbIo \<Rightarrow> unit kb_result \<times> KbIo" where
  "io_set_reporting link ep cid change io =
     (case set_cid_reporting link ep cid change (io_link io) of
        (Inl e, st) \<Rightarrow> (Inl e, \<lparr>io_link = st, io_writes = io_writes io @ [WReporting cid change False]\<rparr>)
      | (Inr _, st) \<Rightarrow> (Inr (), \<lparr>io_link = st, io_writes = io_writes io @ [WReporting cid change True]\<rparr>))"

definition io_get_reporting :: "link \<Rightarrow> FeatureEndpoint \<Rightarrow> u16 \<Rightarrow> KbIo \<Rightarrow> CidReporting kb_result \<times> KbIo" where
  "io_get_reporting link ep cid io =
     (case get_cid_reporting link ep cid (io_link io) of (r, st) \<Rightarrow> (r, io\<lparr>io_link := st\<rparr>))"

text \<open>\<^verbatim>\<open>feature/gaming_g_keys.rs\<close>: the column's length, and taking or releasing the row.\<close>

definition FN_GET_COUNT :: u8 where "FN_GET_COUNT = 0"
definition FN_SET_SOFTWARE_CONTROL :: u8 where "FN_SET_SOFTWARE_CONTROL = 2"

definition key_count :: "link \<Rightarrow> FeatureEndpoint \<Rightarrow> link_state \<Rightarrow> (Hidpp20Error + u8) \<times> link_state" where
  "key_count link ep st = reading (\<lambda>p. p ! 0) (call link ep FN_GET_COUNT [0, 0, 0] st)"

definition take_row :: "link \<Rightarrow> FeatureEndpoint \<Rightarrow> link_state \<Rightarrow> (Hidpp20Error + unit) \<times> link_state" where
  "take_row link ep st = reading (\<lambda>_. ()) (call_write_through link ep FN_SET_SOFTWARE_CONTROL [1, 0, 0] st)"

definition release_row :: "link \<Rightarrow> FeatureEndpoint \<Rightarrow> link_state \<Rightarrow> (Hidpp20Error + unit) \<times> link_state" where
  "release_row link ep st = reading (\<lambda>_. ()) (call_write_through link ep FN_SET_SOFTWARE_CONTROL [0, 0, 0] st)"

definition io_row :: "link \<Rightarrow> FeatureEndpoint \<Rightarrow> bool \<Rightarrow> KbIo \<Rightarrow> unit kb_result \<times> KbIo" where
  "io_row link ep taking io =
     (case (if taking then take_row link ep (io_link io) else release_row link ep (io_link io)) of
        (Inl e, st) \<Rightarrow> (Inl e, \<lparr>io_link = st, io_writes = io_writes io @ [WRow (ep_feature_index ep) taking False]\<rparr>)
      | (Inr _, st) \<Rightarrow> (Inr (), \<lparr>io_link = st, io_writes = io_writes io @ [WRow (ep_feature_index ep) taking True]\<rparr>))"

section \<open>The session's keys\<close>

definition RESERVED_KEYBOARD_CONTROLS :: "u16 list" where
  "RESERVED_KEYBOARD_CONTROLS = [0xD1, 0xD2, 0xD3, 0x0050, 0x0051]"

definition is_reserved_keyboard_control :: "u16 \<Rightarrow> bool" where
  "is_reserved_keyboard_control cid \<longleftrightarrow> cid \<in> set RESERVED_KEYBOARD_CONTROLS"

definition can_divert :: "u16 \<Rightarrow> CtrlIdInfo list \<Rightarrow> bool" where
  "can_divert cid table \<longleftrightarrow>
     \<not> is_reserved_keyboard_control cid \<and> (\<exists>c \<in> set table. ct_cid c = cid \<and> is_divertable c)"

record GamingWanted =
  gw_take_g_row :: bool
  gw_mode_keys :: "ModeKey set"

record KeyboardWanted =
  kw_controls :: "(u16 \<times> ButtonId) list"
  kw_grid :: "(u8 \<times> ButtonId) list"
  kw_gaming :: GamingWanted

record DivertChange =
  dc_hand_back :: "u16 list"
  dc_divert :: "(u16 \<times> ButtonId) list"
  dc_keep :: "(u16 \<times> ButtonId) list"

definition divert_between :: "(u16 \<times> ButtonId) list \<Rightarrow> (u16 \<times> ButtonId) list \<Rightarrow> CtrlIdInfo list \<Rightarrow> DivertChange" where
  "divert_between diverted wanted table =
     \<lparr>dc_hand_back = filter (\<lambda>cid. cid \<notin> fst ` set wanted) (map fst diverted),
      dc_divert = filter (\<lambda>(cid, _). cid \<notin> fst ` set diverted \<and> can_divert cid table) wanted,
      dc_keep = filter (\<lambda>(cid, _). cid \<in> fst ` set diverted) wanted\<rparr>"

definition writes_nothing :: "DivertChange \<Rightarrow> bool" where
  "writes_nothing c \<longleftrightarrow> dc_hand_back c = [] \<and> dc_divert c = []"

record ArmedKeys =
  kb_controls :: "u8 option"
  kb_table :: "CtrlIdInfo list"
  kb_reporting :: "ArmedReporting list"
  kb_keys :: DivertedKeys
  kb_grid :: GridKeys
  kb_device :: u8
  kb_gaming :: GamingKeys
  kb_g_row_taken :: "u8 option"
  kb_gaming_looked_up :: bool

definition kb_endpoint :: "ArmedKeys \<Rightarrow> u8 \<Rightarrow> FeatureEndpoint" where
  "kb_endpoint a index = \<lparr>ep_device_index = kb_device a, ep_feature_index = index\<rparr>"

text \<open>The hand-backs of a change; a failed write ends it with the key still owed.\<close>

fun apply_hand_back :: "link \<Rightarrow> FeatureEndpoint \<Rightarrow> u16 list \<Rightarrow> ArmedKeys \<Rightarrow> KbIo \<Rightarrow> unit kb_result \<times> ArmedKeys \<times> KbIo" where
  "apply_hand_back link ep [] a io = (Inr (), a, io)"
| "apply_hand_back link ep (cid # cids) a io =
     (case position (\<lambda>r. arm_cid r = cid) (kb_reporting a) of
        None \<Rightarrow> apply_hand_back link ep cids (a\<lparr>kb_keys := diverted_remove cid (kb_keys a)\<rparr>) io
      | Some i \<Rightarrow>
          (case io_set_reporting link ep cid (undivert_change (kb_reporting a ! i)) io of
             (Inl e, io) \<Rightarrow> (Inl e, a, io)
           | (Inr _, io) \<Rightarrow>
               apply_hand_back link ep cids
                 (a\<lparr>kb_reporting := remove_at i (kb_reporting a), kb_keys := diverted_remove cid (kb_keys a)\<rparr>) io))"

definition keys_insert :: "u16 \<Rightarrow> ButtonId \<Rightarrow> DivertedKeys \<Rightarrow> DivertedKeys" where
  "keys_insert cid button k = k\<lparr>dk_buttons := btree_insert cid button (dk_buttons k)\<rparr>"

fun apply_divert :: "link \<Rightarrow> FeatureEndpoint \<Rightarrow> (u16 \<times> ButtonId) list \<Rightarrow> ArmedKeys \<Rightarrow> KbIo \<Rightarrow> unit kb_result \<times> ArmedKeys \<times> KbIo" where
  "apply_divert link ep [] a io = (Inr (), a, io)"
| "apply_divert link ep ((cid, button) # rest) a io =
     (case io_get_reporting link ep cid io of
        (Inl e, io) \<Rightarrow> (Inl e, a, io)
      | (Inr original, io) \<Rightarrow>
          let a = a\<lparr>kb_reporting := kb_reporting a @ [armed_keyboard cid original], kb_keys := keys_insert cid button (kb_keys a)\<rparr> in
          (case io_set_reporting link ep cid (divert_keyboard_key original) io of
             (Inl e, io) \<Rightarrow> (Inl e, a, io)
           | (Inr _, io) \<Rightarrow> apply_divert link ep rest a io))"

definition keyboard_apply :: "link \<Rightarrow> DivertChange \<Rightarrow> ArmedKeys \<Rightarrow> KbIo \<Rightarrow> unit kb_result \<times> ArmedKeys \<times> KbIo" where
  "keyboard_apply link change a io =
     (case kb_controls a of
        None \<Rightarrow> (Inr (), a, io)
      | Some index \<Rightarrow>
          let ep = kb_endpoint a index in
          (case apply_hand_back link ep (dc_hand_back change) a io of
             (Inl e, a, io) \<Rightarrow> (Inl e, a, io)
           | (Inr _, a, io) \<Rightarrow>
               (case apply_divert link ep (dc_divert change) a io of
                  (Inl e, a, io) \<Rightarrow> (Inl e, a, io)
                | (Inr _, a, io) \<Rightarrow>
                    (Inr (), a\<lparr>kb_keys := fold (\<lambda>(cid, button). keys_insert cid button) (dc_keep change) (kb_keys a)\<rparr>, io))))"

text \<open>Looking up one feature: its index in the device's table.\<close>

definition io_feature_index :: "link \<Rightarrow> u8 \<Rightarrow> u16 \<Rightarrow> KbIo \<Rightarrow> u8 option kb_result \<times> KbIo" where
  "io_feature_index link dev fid io =
     (case root_get_feature link dev fid Bounded (io_link io) of
        (Inl e, st) \<Rightarrow> (Inl e, io\<lparr>io_link := st\<rparr>)
      | (Inr info, st) \<Rightarrow> (Inr (map_option rfi_index info), io\<lparr>io_link := st\<rparr>))"

definition look_up_gaming :: "link \<Rightarrow> u8 \<Rightarrow> KbIo \<Rightarrow> GamingFeatures kb_result \<times> KbIo" where
  "look_up_gaming link dev io =
     (case io_feature_index link dev 0x8010 io of
        (Inl e, io) \<Rightarrow> (Inl e, io)
      | (Inr g, io) \<Rightarrow>
     (case io_feature_index link dev 0x8020 io of
        (Inl e, io) \<Rightarrow> (Inl e, io)
      | (Inr m, io) \<Rightarrow>
     (case io_feature_index link dev 0x8030 io of
        (Inl e, io) \<Rightarrow> (Inl e, io)
      | (Inr mr, io) \<Rightarrow> (Inr \<lparr>gf_g_keys = g, gf_m_keys = m, gf_macro_record = mr\<rparr>, io))))"

definition gaming_wanted_default :: GamingWanted where
  "gaming_wanted_default = \<lparr>gw_take_g_row = False, gw_mode_keys = {}\<rparr>"

definition gaming_follows :: "bool \<Rightarrow> GamingWanted \<Rightarrow> ArmedKeys \<Rightarrow> ArmedKeys" where
  "gaming_follows row wanted a = a\<lparr>kb_gaming := gaming_follow row (gw_mode_keys wanted) (kb_gaming a)\<rparr>"

text \<open>Taking or releasing the row: taken before the write, released only once it is confirmed.\<close>

definition follow_row :: "link \<Rightarrow> GamingWanted \<Rightarrow> ArmedKeys \<Rightarrow> KbIo \<Rightarrow> unit kb_result \<times> ArmedKeys \<times> KbIo" where
  "follow_row link wanted a io =
     (case (if gw_take_g_row wanted then gf_g_keys (gm_features (kb_gaming a)) else None, kb_g_row_taken a) of
        (Some index, None) \<Rightarrow>
          (case key_count link (kb_endpoint a index) (io_link io) of
             (Inl e, st) \<Rightarrow> (Inl e, a, io\<lparr>io_link := st\<rparr>)
           | (Inr count, st) \<Rightarrow>
               if unat count > length GKEY_ALL then (Inr (), a, io\<lparr>io_link := st\<rparr>)
               else (case io_row link (kb_endpoint a index) True (io\<lparr>io_link := st\<rparr>) of
                       (r, io) \<Rightarrow> (r, gaming_follows True wanted (a\<lparr>kb_g_row_taken := Some index\<rparr>), io)))
      | (None, Some index) \<Rightarrow>
          let a = gaming_follows False wanted a in
          (case io_row link (kb_endpoint a index) False io of
             (Inl e, io) \<Rightarrow> (Inl e, a, io)
           | (Inr _, io) \<Rightarrow> (Inr (), a\<lparr>kb_g_row_taken := None\<rparr>, io))
      | _ \<Rightarrow> (Inr (), a, io))"

definition gaming_lookup :: "link \<Rightarrow> GamingWanted \<Rightarrow> ArmedKeys \<Rightarrow> KbIo \<Rightarrow> unit kb_result \<times> ArmedKeys \<times> KbIo" where
  "gaming_lookup link wanted a io =
     (if wanted \<noteq> gaming_wanted_default \<and> \<not> kb_gaming_looked_up a then
        (case look_up_gaming link (kb_device a) io of
           (Inl e, io) \<Rightarrow> (Inl e, a, io)
         | (Inr features, io) \<Rightarrow>
             (Inr (), a\<lparr>kb_gaming := (kb_gaming a)\<lparr>gm_features := features\<rparr>, kb_gaming_looked_up := True\<rparr>, io))
      else (Inr (), a, io))"

definition follow_gaming :: "link \<Rightarrow> GamingWanted \<Rightarrow> ArmedKeys \<Rightarrow> KbIo \<Rightarrow> unit kb_result \<times> ArmedKeys \<times> KbIo" where
  "follow_gaming link wanted a io =
     (case gaming_lookup link wanted a io of
        (Inl e, a, io) \<Rightarrow> (Inl e, a, io)
      | (Inr _, a, io) \<Rightarrow>
          (case follow_row link wanted a io of
             (Inl e, a, io) \<Rightarrow> (Inl e, a, io)
           | (Inr _, a, io) \<Rightarrow> (Inr (), gaming_follows (kb_g_row_taken a \<noteq> None) wanted a, io)))"

definition keyboard_retarget :: "link \<Rightarrow> KeyboardWanted \<Rightarrow> ArmedKeys \<Rightarrow> KbIo \<Rightarrow> unit kb_result \<times> ArmedKeys \<times> KbIo" where
  "keyboard_retarget link wanted a io =
     (case follow_gaming link (kw_gaming wanted) (a\<lparr>kb_grid := grid_follow (kb_grid a) (kw_grid wanted)\<rparr>) io of
        (Inl e, a, io) \<Rightarrow> (Inl e, a, io)
      | (Inr _, a, io) \<Rightarrow>
          keyboard_apply link (divert_between (dk_buttons (kb_keys a)) (kw_controls wanted) (kb_table a)) a io)"

section \<open>Waking and ending\<close>

fun redivert_all :: "link \<Rightarrow> FeatureEndpoint \<Rightarrow> ArmedReporting list \<Rightarrow> KbIo \<Rightarrow> KbIo" where
  "redivert_all link ep [] io = io"
| "redivert_all link ep (r # rs) io =
     redivert_all link ep rs (snd (io_set_reporting link ep (arm_cid r) (divert_keyboard_key (arm_original r)) io))"

definition rearm :: "link \<Rightarrow> ArmedKeys \<Rightarrow> KbIo \<Rightarrow> bool \<times> KbIo" where
  "rearm link a io =
     (let io = (case kb_controls a of None \<Rightarrow> io | Some index \<Rightarrow> redivert_all link (kb_endpoint a index) (kb_reporting a) io) in
      case kb_g_row_taken a of
        None \<Rightarrow> (True, io)
      | Some index \<Rightarrow> (case io_row link (kb_endpoint a index) True io of (Inl e, io) \<Rightarrow> (False, io) | (Inr _, io) \<Rightarrow> (True, io)))"

definition keyboard_reset_input_state :: "ArmedKeys \<Rightarrow> ArmedKeys \<times> CapturedInput list" where
  "keyboard_reset_input_state a = (case gaming_interrupt (kb_gaming a) of (g, sent) \<Rightarrow> (a\<lparr>kb_gaming := g\<rparr>, sent))"

definition keyboard_report_handler :: "ArmedKeys \<Rightarrow> v20_message \<Rightarrow> ArmedKeys \<times> CapturedInput list" where
  "keyboard_report_handler a msg =
     (case gaming_report (kb_gaming a) msg (kb_device a) of
        (g, sent) \<Rightarrow>
          (case Option.bind (kb_controls a) (decode_reprog_event msg (kb_device a)) of
             Some (DivertedButtons cids) \<Rightarrow>
               (case diverted_report (kb_keys a) cids of (k, sent') \<Rightarrow> (a\<lparr>kb_gaming := g, kb_keys := k\<rparr>, sent @ sent'))
           | _ \<Rightarrow> (a\<lparr>kb_gaming := g\<rparr>, sent)))"

definition raw_report_handler :: "ArmedKeys \<Rightarrow> u8 list \<Rightarrow> ArmedKeys \<times> CapturedInput list" where
  "raw_report_handler a bytes = (case grid_report (kb_grid a) bytes of (g, sent) \<Rightarrow> (a\<lparr>kb_grid := g\<rparr>, sent))"

text \<open>What the session owes when it ends, and one attempt at it on the device: the controls, then the row. A
  keyboard owes neither wheels nor host mode, the other parts of a restore plan.\<close>

record KeyboardRestore =
  kr_controls :: "(u8 \<times> ArmedReporting list) option"
  kr_g_keys :: "u8 option"

definition into_pending :: "ArmedKeys \<Rightarrow> KeyboardRestore option" where
  "into_pending a =
     (let controls = Option.bind (kb_controls a) (\<lambda>index. if kb_reporting a = [] then None else Some (index, kb_reporting a)) in
      if controls = None \<and> kb_g_row_taken a = None then None
      else Some \<lparr>kr_controls = controls, kr_g_keys = kb_g_row_taken a\<rparr>)"

fun restore_controls :: "link \<Rightarrow> bool \<Rightarrow> DeviceRoute \<Rightarrow> FeatureEndpoint \<Rightarrow> ArmedReporting list \<Rightarrow> bool \<Rightarrow> KbIo \<Rightarrow> bool \<times> KbIo" where
  "restore_controls link linux route ep [] restored io = (restored, io)"
| "restore_controls link linux route ep (r # rs) restored io =
     (case io_set_reporting link ep (arm_cid r) (undivert_change (kernel_diversion_on linux route r)) io of
        (Inl e, io) \<Rightarrow> restore_controls link linux route ep rs False io
      | (Inr _, io) \<Rightarrow> restore_controls link linux route ep rs restored io)"

definition restore_on :: "link \<Rightarrow> bool \<Rightarrow> DeviceRoute \<Rightarrow> u8 \<Rightarrow> KeyboardRestore \<Rightarrow> KbIo \<Rightarrow> bool \<times> KbIo" where
  "restore_on link linux route dev plan io =
     (case (case kr_controls plan of
              None \<Rightarrow> (True, io)
            | Some (index, controls) \<Rightarrow>
                restore_controls link linux route \<lparr>ep_device_index = dev, ep_feature_index = index\<rparr> controls True io) of
        (restored, io) \<Rightarrow>
          (case kr_g_keys plan of
             None \<Rightarrow> (restored, io)
           | Some index \<Rightarrow>
               (case io_row link \<lparr>ep_device_index = dev, ep_feature_index = index\<rparr> False io of
                  (Inl e, io) \<Rightarrow> (False, io)
                | (Inr _, io) \<Rightarrow> (restored, io))))"

section \<open>What the firmware may still hold\<close>

text \<open>A write that was not confirmed may have been applied: a control counts as diverted from the first
  write that diverts it to the first confirmed write that clears it, the row likewise.\<close>

fun upd_divert :: "KbWrite \<Rightarrow> u16 set \<Rightarrow> u16 set" where
  "upd_divert (WReporting cid ch ok) S = (if cg_diverted ch = Some True then insert cid S else if ok then S - {cid} else S)"
| "upd_divert (WRow _ _ _) S = S"

fun upd_row :: "KbWrite \<Rightarrow> u8 set \<Rightarrow> u8 set" where
  "upd_row (WRow i taking ok) S = (if taking then insert i S else if ok then S - {i} else S)"
| "upd_row (WReporting _ _ _) S = S"

definition may_divert :: "KbWrite list \<Rightarrow> u16 set" where
  "may_divert ws = fold upd_divert ws {}"

definition may_take :: "KbWrite list \<Rightarrow> u8 set" where
  "may_take ws = fold upd_row ws {}"

lemma may_simps [simp]:
  "may_divert [] = {}" "may_take [] = {}"
  "may_divert (ws @ [w]) = upd_divert w (may_divert ws)" "may_take (ws @ [w]) = upd_row w (may_take ws)"
  by (simp_all add: may_divert_def may_take_def)

lemma io_set_reporting_write:
  assumes "io_set_reporting link ep cid ch io = (r, io')"
  shows "io_writes io' = io_writes io @ [WReporting cid ch (r = Inr ())]"
  using assms by (auto simp: io_set_reporting_def split: prod.splits sum.splits)

lemma io_row_write:
  assumes "io_row link ep taking io = (r, io')"
  shows "io_writes io' = io_writes io @ [WRow (ep_feature_index ep) taking (r = Inr ())]"
  using assms by (auto simp: io_row_def split: prod.splits sum.splits)

lemma io_get_reporting_writes [simp]: "io_writes (snd (io_get_reporting link ep cid io)) = io_writes io"
  by (simp add: io_get_reporting_def case_prod_beta)

lemma undivert_keyboard: "arm_policy r = Keyboard \<Longrightarrow> \<not> arm_restore_as_found r \<Longrightarrow> cg_diverted (undivert_change r) = Some False"
  by (simp add: restore_defs)

lemma divert_keyboard: "cg_diverted (divert_keyboard_key o') = Some True"
  by (simp add: restore_defs)

section \<open>The keys a session owns\<close>

definition keys_inv :: "ArmedKeys \<Rightarrow> KbWrite list \<Rightarrow> bool" where
  "keys_inv a ws \<longleftrightarrow>
     btree_ok (dk_buttons (kb_keys a)) \<and> distinct (map arm_cid (kb_reporting a))
     \<and> arm_cid ` set (kb_reporting a) = fst ` set (dk_buttons (kb_keys a))
     \<and> dk_held (kb_keys a) \<subseteq> fst ` set (dk_buttons (kb_keys a))
     \<and> (\<forall>r \<in> set (kb_reporting a). arm_policy r = Keyboard \<and> \<not> arm_restore_as_found r \<and> can_divert (arm_cid r) (kb_table a))
     \<and> may_divert ws \<subseteq> arm_cid ` set (kb_reporting a)
     \<and> (kb_controls a = None \<longrightarrow> kb_reporting a = [])"

lemma keys_inv_with:
  "keys_inv (a\<lparr>kb_reporting := rs, kb_keys := k\<rparr>) ws \<longleftrightarrow>
     btree_ok (dk_buttons k) \<and> distinct (map arm_cid rs) \<and> arm_cid ` set rs = fst ` set (dk_buttons k)
     \<and> dk_held k \<subseteq> fst ` set (dk_buttons k)
     \<and> (\<forall>r \<in> set rs. arm_policy r = Keyboard \<and> \<not> arm_restore_as_found r \<and> can_divert (arm_cid r) (kb_table a))
     \<and> may_divert ws \<subseteq> arm_cid ` set rs \<and> (kb_controls a = None \<longrightarrow> rs = [])"
  by (simp add: keys_inv_def)

lemma keys_inv_refused:
  "keys_inv a ws \<Longrightarrow> r \<in> set (kb_reporting a) \<Longrightarrow> keys_inv a (ws @ [WReporting cid (undivert_change r) False])"
  by (auto simp: keys_inv_def undivert_keyboard)

lemma keys_inv_handed_back:
  assumes "keys_inv a ws" "kb_reporting a = us @ r # vs" "arm_cid r = cid"
  shows "keys_inv (a\<lparr>kb_reporting := us @ vs, kb_keys := diverted_remove cid (kb_keys a)\<rparr>)
    (ws @ [WReporting cid (undivert_change r) True])"
proof -
  have i: "btree_ok (dk_buttons (kb_keys a))" "distinct (map arm_cid (us @ r # vs))"
      "arm_cid ` set (us @ r # vs) = fst ` set (dk_buttons (kb_keys a))"
      "dk_held (kb_keys a) \<subseteq> fst ` set (dk_buttons (kb_keys a))"
      "may_divert ws \<subseteq> arm_cid ` set (us @ r # vs)" "kb_controls a \<noteq> None"
      "\<forall>r \<in> set (us @ r # vs). arm_policy r = Keyboard \<and> \<not> arm_restore_as_found r \<and> can_divert (arm_cid r) (kb_table a)"
    using assms unfolding keys_inv_def by auto
  have keys: "fst ` set (filter (\<lambda>e. fst e \<noteq> cid) (dk_buttons (kb_keys a))) = fst ` set (dk_buttons (kb_keys a)) - {cid}"
    by auto
  have k: "dk_buttons (diverted_remove cid (kb_keys a)) = filter (\<lambda>e. fst e \<noteq> cid) (dk_buttons (kb_keys a))"
      "dk_held (diverted_remove cid (kb_keys a)) = dk_held (kb_keys a) - {cid}"
    by (simp_all add: diverted_remove_def)
  have r: "arm_cid ` set (us @ vs) = fst ` set (dk_buttons (kb_keys a)) - {cid}"
    using i(2) assms(3) unfolding i(3) [symmetric] by (simp add: image_Un)
  have "may_divert (ws @ [WReporting cid (undivert_change r) True]) = may_divert ws - {cid}"
    using i(7) undivert_keyboard [of r] by simp
  then have "may_divert (ws @ [WReporting cid (undivert_change r) True]) \<subseteq> fst ` set (dk_buttons (kb_keys a)) - {cid}"
    using i(5) unfolding i(3) by blast
  moreover have "dk_held (kb_keys a) - {cid} \<subseteq> fst ` set (dk_buttons (kb_keys a)) - {cid}"
    using i(4) by blast
  moreover have "distinct (map arm_cid (us @ vs))"
    using i(2) by simp
  moreover have "\<forall>r \<in> set (us @ vs). arm_policy r = Keyboard \<and> \<not> arm_restore_as_found r \<and> can_divert (arm_cid r) (kb_table a)"
    using i(7) by simp
  ultimately show ?thesis
    using i(1,6) unfolding keys_inv_with r k keys by auto
qed

lemma keys_inv_diverted:
  assumes "keys_inv a ws" "kb_controls a \<noteq> None" "cid \<notin> fst ` set (dk_buttons (kb_keys a))" "can_divert cid (kb_table a)"
  shows "keys_inv (a\<lparr>kb_reporting := kb_reporting a @ [armed_keyboard cid original], kb_keys := keys_insert cid button (kb_keys a)\<rparr>)
    (ws @ [WReporting cid (divert_keyboard_key original) ok])"
proof -
  let ?b = "dk_buttons (kb_keys a)" and ?rs = "kb_reporting a" and ?r = "armed_keyboard cid original"
  have i: "btree_ok ?b" "distinct (map arm_cid ?rs)" "arm_cid ` set ?rs = fst ` set ?b" "dk_held (kb_keys a) \<subseteq> fst ` set ?b"
      "\<forall>r \<in> set ?rs. arm_policy r = Keyboard \<and> \<not> arm_restore_as_found r \<and> can_divert (arm_cid r) (kb_table a)"
      "may_divert ws \<subseteq> arm_cid ` set ?rs"
    using assms(1) unfolding keys_inv_def by blast+
  have k: "dk_buttons (keys_insert cid button (kb_keys a)) = btree_insert cid button ?b"
      "dk_held (keys_insert cid button (kb_keys a)) = dk_held (kb_keys a)"
    by (simp_all add: keys_insert_def)
  have r: "arm_cid ?r = cid" "arm_policy ?r = Keyboard \<and> \<not> arm_restore_as_found ?r"
    by (simp_all add: armed_keyboard_def)
  have rs: "arm_cid ` set (?rs @ [?r]) = insert cid (fst ` set ?b)"
    using i(3) r(1) by simp
  have "may_divert (ws @ [WReporting cid (divert_keyboard_key original) ok]) \<subseteq> insert cid (fst ` set ?b)"
    using i(3,6) by (simp add: divert_keyboard) blast
  moreover have "distinct (map arm_cid (?rs @ [?r]))"
    using i(2,3) assms(3) r(1) by simp
  moreover have "\<forall>r \<in> set (?rs @ [?r]). arm_policy r = Keyboard \<and> \<not> arm_restore_as_found r \<and> can_divert (arm_cid r) (kb_table a)"
    using i(5) r assms(4) by simp
  moreover have "dk_held (kb_keys a) \<subseteq> insert cid (fst ` set ?b)"
    using i(4) by blast
  ultimately show ?thesis
    using i(1) assms(2) unfolding keys_inv_with rs k btree_insert_keys by simp
qed

text \<open>The reporting writes among a session's writes, and the controls they are for.\<close>

fun written_cid :: "KbWrite \<Rightarrow> u16 option" where
  "written_cid (WReporting cid _ _) = Some cid"
| "written_cid (WRow _ _ _) = None"

definition only_keys :: "ArmedKeys \<Rightarrow> ArmedKeys \<Rightarrow> bool" where
  "only_keys a a' \<longleftrightarrow>
     kb_controls a' = kb_controls a \<and> kb_table a' = kb_table a \<and> kb_grid a' = kb_grid a \<and> kb_device a' = kb_device a
     \<and> kb_gaming a' = kb_gaming a \<and> kb_g_row_taken a' = kb_g_row_taken a \<and> kb_gaming_looked_up a' = kb_gaming_looked_up a"

lemma only_keys_simps [simp]:
  "only_keys a a" "only_keys (a\<lparr>kb_reporting := rs, kb_keys := k\<rparr>) a' \<longleftrightarrow> only_keys a a'"
  "only_keys a (a\<lparr>kb_reporting := rs, kb_keys := k\<rparr>)"
  by (simp_all add: only_keys_def)

lemma written_in: "written_cid ` set ws \<subseteq> Some ` S \<Longrightarrow> w \<in> set ws \<Longrightarrow> written_cid w = Some cid \<Longrightarrow> cid \<in> S"
proof -
  assume "written_cid ` set ws \<subseteq> Some ` S" "w \<in> set ws" and w: "written_cid w = Some cid"
  then have "written_cid w \<in> Some ` S"
    by blast
  then show "cid \<in> S"
    unfolding w by auto
qed

lemma apply_hand_back_inv:
  assumes "apply_hand_back link ep cids a io = (r, a', io')" "keys_inv a (io_writes io)"
  shows "keys_inv a' (io_writes io') \<and> only_keys a a'
    \<and> (\<exists>ws. io_writes io' = io_writes io @ ws \<and> written_cid ` set ws \<subseteq> Some ` set cids)
    \<and> (r = Inr () \<longrightarrow> dk_buttons (kb_keys a') = filter (\<lambda>e. fst e \<notin> set cids) (dk_buttons (kb_keys a)))"
  using assms
proof (induction cids arbitrary: a io)
  case Nil
  then show ?case by auto
next
  case (Cons cid cids)
  show ?case
  proof (cases "position (\<lambda>r. arm_cid r = cid) (kb_reporting a)")
    case None
    then have "cid \<notin> arm_cid ` set (kb_reporting a)"
      by (auto simp: position_None)
    then have gone: "cid \<notin> fst ` set (dk_buttons (kb_keys a))"
      using Cons.prems(2) by (simp add: keys_inv_def)
    have same: "diverted_remove cid (kb_keys a) = kb_keys a"
    proof -
      have "cid \<notin> dk_held (kb_keys a)"
        using gone Cons.prems(2) unfolding keys_inv_def by blast
      moreover have "filter (\<lambda>e. fst e \<noteq> cid) (dk_buttons (kb_keys a)) = dk_buttons (kb_keys a)"
        using gone by (auto simp: filter_id_conv)
      ultimately show ?thesis
        by (simp add: diverted_remove_def)
    qed
    have "filter (\<lambda>e. fst e \<notin> set (cid # cids)) (dk_buttons (kb_keys a)) = filter (\<lambda>e. fst e \<notin> set cids) (dk_buttons (kb_keys a))"
      using gone by (intro filter_cong) auto
    moreover have "apply_hand_back link ep cids a io = (r, a', io')"
      using Cons.prems(1) None same by simp
    ultimately have *: "keys_inv a' (io_writes io') \<and> only_keys a a'
        \<and> (\<exists>ws. io_writes io' = io_writes io @ ws \<and> written_cid ` set ws \<subseteq> Some ` set cids)
        \<and> (r = Inr () \<longrightarrow> dk_buttons (kb_keys a') = filter (\<lambda>e. fst e \<notin> set (cid # cids)) (dk_buttons (kb_keys a)))"
      using Cons.IH [OF _ Cons.prems(2)] by simp
    then obtain ws where ws: "io_writes io' = io_writes io @ ws" "written_cid ` set ws \<subseteq> Some ` set cids"
      by (elim conjE exE)
    have "written_cid ` set ws \<subseteq> Some ` set (cid # cids)"
      using ws(2) by (rule order_trans) auto
    then show ?thesis
      using * ws(1) by (intro conjI exI [of _ ws]) simp_all
  next
    case (Some i)
    from position_Some_split [OF this] obtain us x vs
      where x: "kb_reporting a = us @ x # vs" "length us = i" "arm_cid x = cid" by blast
    obtain r1 io1 where w: "io_set_reporting link ep cid (undivert_change x) io = (r1, io1)"
      by (cases "io_set_reporting link ep cid (undivert_change x) io")
    note ws = io_set_reporting_write [OF w]
    let ?a = "a\<lparr>kb_reporting := us @ vs, kb_keys := diverted_remove cid (kb_keys a)\<rparr>"
    show ?thesis
    proof (cases r1)
      case (Inl e)
      then have "r = Inl e" "a' = a" "io' = io1"
        using Cons.prems(1) Some x w by auto
      then show ?thesis
        using keys_inv_refused [OF Cons.prems(2), of x cid] x(1) ws Inl
        by (intro conjI exI [of _ "[WReporting cid (undivert_change x) False]"]) simp_all
    next
      case (Inr u)
      then have "apply_hand_back link ep cids ?a io1 = (r, a', io')"
        using Cons.prems(1) Some x w by auto
      moreover have "keys_inv ?a (io_writes io1)"
        using keys_inv_handed_back [OF Cons.prems(2) x(1,3)] ws Inr by simp
      ultimately have *: "keys_inv a' (io_writes io') \<and> only_keys ?a a'
          \<and> (\<exists>ws. io_writes io' = io_writes io1 @ ws \<and> written_cid ` set ws \<subseteq> Some ` set cids)
          \<and> (r = Inr () \<longrightarrow> dk_buttons (kb_keys a') = filter (\<lambda>e. fst e \<notin> set cids) (dk_buttons (kb_keys ?a)))"
        by (rule Cons.IH)
      obtain ws' where ws': "io_writes io' = io_writes io1 @ ws'" "written_cid ` set ws' \<subseteq> Some ` set cids"
        using * by blast
      have "io_writes io' = io_writes io @ (WReporting cid (undivert_change x) (r1 = Inr ()) # ws')"
        using ws' ws by simp
      moreover have "written_cid ` set (WReporting cid (undivert_change x) (r1 = Inr ()) # ws') \<subseteq> Some ` set (cid # cids)"
        using ws'(2) by auto
      moreover have "only_keys a a'"
        using * by simp
      moreover have "filter (\<lambda>e. fst e \<notin> set cids) (dk_buttons (kb_keys ?a)) = filter (\<lambda>e. fst e \<notin> set (cid # cids)) (dk_buttons (kb_keys a))"
        by (auto simp: diverted_remove_def intro: filter_cong)
      ultimately show ?thesis
        using * by (intro conjI exI [of _ "WReporting cid (undivert_change x) (r1 = Inr ()) # ws'"]) simp_all
    qed
  qed
qed

lemma apply_divert_inv:
  assumes "apply_divert link ep new a io = (r, a', io')" "keys_inv a (io_writes io)" "kb_controls a \<noteq> None"
    "distinct (map fst new)" "\<And>cid. cid \<in> fst ` set new \<Longrightarrow> cid \<notin> fst ` set (dk_buttons (kb_keys a)) \<and> can_divert cid (kb_table a)"
  shows "keys_inv a' (io_writes io') \<and> only_keys a a'
    \<and> (\<exists>ws. io_writes io' = io_writes io @ ws \<and> written_cid ` set ws \<subseteq> Some ` fst ` set new)
    \<and> (r = Inr () \<longrightarrow> dk_buttons (kb_keys a') = btree_extend (dk_buttons (kb_keys a)) new)"
  using assms
proof (induction new arbitrary: a io)
  case Nil
  then show ?case by (auto simp: btree_extend_def)
next
  case (Cons e new)
  obtain cid button where e: "e = (cid, button)" by (cases e)
  obtain r1 io1 where g: "io_get_reporting link ep cid io = (r1, io1)"
    by (cases "io_get_reporting link ep cid io")
  then have w1: "io_writes io1 = io_writes io"
    using io_get_reporting_writes [of link ep cid io] by simp
  show ?case
  proof (cases r1)
    case (Inl err)
    then show ?thesis
      using Cons.prems(1,2) g e w1 by auto
  next
    case (Inr original)
    let ?a = "a\<lparr>kb_reporting := kb_reporting a @ [armed_keyboard cid original], kb_keys := keys_insert cid button (kb_keys a)\<rparr>"
    obtain r2 io2 where w: "io_set_reporting link ep cid (divert_keyboard_key original) io1 = (r2, io2)"
      by (cases "io_set_reporting link ep cid (divert_keyboard_key original) io1")
    let ?w = "WReporting cid (divert_keyboard_key original) (r2 = Inr ())"
    have w2: "io_writes io2 = io_writes io @ [?w]"
      using io_set_reporting_write [OF w] w1 by simp
    have inv: "keys_inv ?a (io_writes io2)"
      using keys_inv_diverted [OF Cons.prems(2,3), of cid button original] Cons.prems(5) [of cid] w2 e by simp
    have b: "dk_buttons (kb_keys ?a) = btree_insert cid button (dk_buttons (kb_keys a))"
      by (simp add: keys_insert_def)
    show ?thesis
    proof (cases r2)
      case (Inl err)
      then have "r = Inl err" "a' = ?a" "io' = io2"
        using Cons.prems(1) g w e Inr by (auto simp: Let_def)
      then show ?thesis
        using inv w2 e by auto
    next
      case (Inr u)
      then have "apply_divert link ep new ?a io2 = (r, a', io')"
        using Cons.prems(1) g w e \<open>r1 = Inr original\<close> by (auto simp: Let_def)
      moreover have "kb_controls ?a \<noteq> None" "distinct (map fst new)"
        using Cons.prems(3,4) by simp_all
      moreover have "c \<notin> fst ` set (dk_buttons (kb_keys ?a)) \<and> can_divert c (kb_table ?a)" if "c \<in> fst ` set new" for c
      proof -
        have "c \<noteq> cid"
          using that Cons.prems(4) e by auto
        then show ?thesis
          using Cons.prems(5) [of c] that unfolding b btree_insert_keys by simp
      qed
      ultimately have *: "keys_inv a' (io_writes io') \<and> only_keys ?a a'
          \<and> (\<exists>ws. io_writes io' = io_writes io2 @ ws \<and> written_cid ` set ws \<subseteq> Some ` fst ` set new)
          \<and> (r = Inr () \<longrightarrow> dk_buttons (kb_keys a') = btree_extend (dk_buttons (kb_keys ?a)) new)"
        using inv by (intro Cons.IH)
      then obtain ws where ws: "io_writes io' = io_writes io2 @ ws" "written_cid ` set ws \<subseteq> Some ` fst ` set new"
        by blast
      have "io_writes io' = io_writes io @ (?w # ws)" "written_cid ` set (?w # ws) \<subseteq> Some ` fst ` set (e # new)"
        using ws w2 e by auto
      moreover have "only_keys a a'"
        using * by simp
      moreover have "btree_extend (dk_buttons (kb_keys ?a)) new = btree_extend (dk_buttons (kb_keys a)) (e # new)"
        using b e by (simp add: btree_extend_def)
      ultimately show ?thesis
        using * by (intro conjI exI [of _ "?w # ws"]) simp_all
    qed
  qed
qed

lemma btree_lookup_extend:
  "distinct (map fst es) \<Longrightarrow> map_of (btree_extend m es) k = (case map_of es k of Some v \<Rightarrow> Some v | None \<Rightarrow> map_of m k)"
proof (induction es arbitrary: m)
  case Nil
  then show ?case by (simp add: btree_extend_def)
next
  case (Cons e es)
  have "btree_extend m (e # es) = btree_extend (btree_insert (fst e) (snd e) m) es"
    by (simp add: btree_extend_def case_prod_beta)
  moreover have "map_of es (fst e) = None"
    using Cons.prems by (simp add: map_of_eq_None_iff)
  ultimately show ?case
    using Cons by (auto split: option.splits)
qed

text \<open>The keys a session dispatches once a change went through: the wanted ones it can divert.\<close>

definition divert_target :: "(u16 \<times> ButtonId) list \<Rightarrow> CtrlIdInfo list \<Rightarrow> (u16 \<times> ButtonId) list" where
  "divert_target wanted table = filter (\<lambda>e. can_divert (fst e) table) wanted"

lemma divert_between_parts:
  "dc_hand_back (divert_between d w t) = filter (\<lambda>cid. cid \<notin> fst ` set w) (map fst d)"
  "dc_divert (divert_between d w t) = filter (\<lambda>e. fst e \<notin> fst ` set d \<and> can_divert (fst e) t) w"
  "dc_keep (divert_between d w t) = filter (\<lambda>e. fst e \<in> fst ` set d) w"
  by (simp_all add: divert_between_def case_prod_unfold)

lemma divert_target_reached:
  assumes "btree_ok d" "btree_ok w" "\<And>cid. cid \<in> fst ` set d \<Longrightarrow> can_divert cid t"
  shows "btree_extend (btree_extend (filter (\<lambda>e. fst e \<notin> set (dc_hand_back (divert_between d w t))) d)
      (dc_divert (divert_between d w t))) (dc_keep (divert_between d w t)) = divert_target w t"
proof (rule btree_ext)
  show "map_of (btree_extend (btree_extend (filter (\<lambda>e. fst e \<notin> set (dc_hand_back (divert_between d w t))) d)
      (dc_divert (divert_between d w t))) (dc_keep (divert_between d w t))) = map_of (divert_target w t)"
  proof
    fix k
    have dist: "distinct (map fst (filter P w))" for P
      using assms(2) by (intro btree_ok_distinct btree_filter_ok)
    have m: "map_of (filter (\<lambda>e. P (fst e)) w) k = (if P k then map_of w k else None)"
        "map_of (filter (\<lambda>e. P (fst e)) d) k = (if P k then map_of d k else None)" for P
      using btree_filter_lookup assms(1,2) by blast+
    have n: "map_of w k = None \<longleftrightarrow> k \<notin> fst ` set w" "map_of d k = None \<longleftrightarrow> k \<notin> fst ` set d"
      by (simp_all add: map_of_eq_None_iff)
    show "map_of (btree_extend (btree_extend (filter (\<lambda>e. fst e \<notin> set (dc_hand_back (divert_between d w t))) d)
        (dc_divert (divert_between d w t))) (dc_keep (divert_between d w t))) k = map_of (divert_target w t) k"
      unfolding divert_between_parts divert_target_def btree_lookup_extend [OF dist]
        m(1) [of "\<lambda>c. c \<notin> fst ` set d \<and> can_divert c t"] m(1) [of "\<lambda>c. c \<in> fst ` set d"] m(1) [of "\<lambda>c. can_divert c t"]
        m(2) [of "\<lambda>c. c \<notin> set (filter (\<lambda>cid. cid \<notin> fst ` set w) (map fst d))"]
      using n assms(3) [of k] by (auto split: option.splits)
  qed
qed (use assms in \<open>simp_all add: divert_target_def\<close>)

lemma keep_fold:
  "fold (\<lambda>(cid, button). keys_insert cid button) es k = k\<lparr>dk_buttons := btree_extend (dk_buttons k) es\<rparr>"
  unfolding btree_extend_def by (induction es arbitrary: k) (simp_all add: keys_insert_def case_prod_beta)

lemma keys_inv_kept:
  assumes "keys_inv a ws" "fst ` set es \<subseteq> fst ` set (dk_buttons (kb_keys a))"
  shows "keys_inv (a\<lparr>kb_keys := (kb_keys a)\<lparr>dk_buttons := btree_extend (dk_buttons (kb_keys a)) es\<rparr>\<rparr>) ws"
proof -
  have "fst ` set (btree_extend (dk_buttons (kb_keys a)) es) = fst ` set (dk_buttons (kb_keys a))"
    using assms(2) by auto
  then show ?thesis
    using assms(1) by (auto simp: keys_inv_def)
qed

lemma keys_inv_divertable: "keys_inv a ws \<Longrightarrow> cid \<in> fst ` set (dk_buttons (kb_keys a)) \<Longrightarrow> can_divert cid (kb_table a)"
  unfolding keys_inv_def by (metis imageE)

lemma keyboard_apply_inv:
  assumes "keyboard_apply link (divert_between (dk_buttons (kb_keys a)) w (kb_table a)) a io = (r, a', io')"
    and inv: "keys_inv a (io_writes io)" and ok: "btree_ok w" and none: "kb_controls a = None \<longrightarrow> kb_table a = []"
  shows "keys_inv a' (io_writes io') \<and> only_keys a a'
    \<and> (\<exists>ws. io_writes io' = io_writes io @ ws
          \<and> written_cid ` set ws \<subseteq> Some ` {cid. (cid \<in> fst ` set (dk_buttons (kb_keys a))) \<noteq> (cid \<in> fst ` set w)})
    \<and> (r = Inr () \<longrightarrow> dk_buttons (kb_keys a') = divert_target w (kb_table a))"
proof (cases "kb_controls a")
  case None
  have "dk_buttons (kb_keys a) = []"
    using inv None by (auto simp: keys_inv_def)
  then show ?thesis
    using assms(1) inv none None by (auto simp: keyboard_apply_def divert_target_def can_divert_def)
next
  case (Some index)
  let ?d = "dk_buttons (kb_keys a)" and ?ep = "kb_endpoint a index"
  let ?c = "divert_between ?d w (kb_table a)"
  let ?S = "{cid. (cid \<in> fst ` set ?d) \<noteq> (cid \<in> fst ` set w)}"
  obtain r1 a1 io1 where h: "apply_hand_back link ?ep (dc_hand_back ?c) a io = (r1, a1, io1)"
    by (cases "apply_hand_back link ?ep (dc_hand_back ?c) a io") auto
  note H = apply_hand_back_inv [OF h inv]
  then have H1: "keys_inv a1 (io_writes io1)" "only_keys a a1"
    by simp_all
  obtain ws1 where ws1: "io_writes io1 = io_writes io @ ws1" "written_cid ` set ws1 \<subseteq> Some ` set (dc_hand_back ?c)"
    using H by (elim conjE exE)
  have S1: "Some ` set (dc_hand_back ?c) \<subseteq> Some ` ?S" and S2: "Some ` fst ` set (dc_divert ?c) \<subseteq> Some ` ?S"
    by (auto simp: divert_between_parts)
  show ?thesis
  proof (cases r1)
    case (Inl e)
    then have "r = Inl e" "a' = a1" "io' = io1"
      using assms(1) h Some by (auto simp: keyboard_apply_def Let_def)
    then show ?thesis
      using H1 ws1(1) order_trans [OF ws1(2) S1] by (intro conjI exI [of _ ws1]) simp_all
  next
    case (Inr u)
    then have b1: "dk_buttons (kb_keys a1) = filter (\<lambda>e. fst e \<notin> set (dc_hand_back ?c)) ?d"
      using H by simp
    obtain r2 a2 io2 where d: "apply_divert link ?ep (dc_divert ?c) a1 io1 = (r2, a2, io2)"
      by (cases "apply_divert link ?ep (dc_divert ?c) a1 io1") auto
    have dist: "distinct (map fst (dc_divert ?c))"
      unfolding divert_between_parts using ok by (intro btree_ok_distinct btree_filter_ok)
    have new: "cid \<notin> fst ` set (dk_buttons (kb_keys a1)) \<and> can_divert cid (kb_table a1)" if "cid \<in> fst ` set (dc_divert ?c)" for cid
      using that H unfolding b1 by (auto simp: divert_between_parts only_keys_def)
    have D: "keys_inv a2 (io_writes io2) \<and> only_keys a1 a2
        \<and> (\<exists>ws. io_writes io2 = io_writes io1 @ ws \<and> written_cid ` set ws \<subseteq> Some ` fst ` set (dc_divert ?c))
        \<and> (r2 = Inr () \<longrightarrow> dk_buttons (kb_keys a2) = btree_extend (dk_buttons (kb_keys a1)) (dc_divert ?c))"
      using apply_divert_inv [OF d] H Some dist new by (simp add: only_keys_def)
    then obtain ws2 where ws2: "io_writes io2 = io_writes io1 @ ws2" "written_cid ` set ws2 \<subseteq> Some ` fst ` set (dc_divert ?c)"
      by blast
    have ws: "io_writes io2 = io_writes io @ (ws1 @ ws2)" "written_cid ` set (ws1 @ ws2) \<subseteq> Some ` ?S"
      using ws1(1) ws2(1) order_trans [OF ws1(2) S1] order_trans [OF ws2(2) S2]
      unfolding set_append image_Un by (simp_all only: append_assoc Un_least)
    have only: "only_keys a a2"
      using H D by (simp add: only_keys_def)
    show ?thesis
    proof (cases r2)
      case (Inl e)
      then have "r = Inl e" "a' = a2" "io' = io2"
        using assms(1) h d Some \<open>r1 = Inr u\<close> by (auto simp: keyboard_apply_def Let_def)
      then show ?thesis
        using D ws only by (intro conjI exI [of _ "ws1 @ ws2"]) simp_all
    next
      case (Inr v)
      then have res: "io' = io2" "a' = a2\<lparr>kb_keys := (kb_keys a2)\<lparr>dk_buttons := btree_extend (dk_buttons (kb_keys a2)) (dc_keep ?c)\<rparr>\<rparr>"
        using assms(1) h d Some \<open>r1 = Inr u\<close> by (auto simp: keyboard_apply_def Let_def keep_fold)
      have b2: "dk_buttons (kb_keys a2) = btree_extend (filter (\<lambda>e. fst e \<notin> set (dc_hand_back ?c)) ?d) (dc_divert ?c)"
        using D Inr b1 by simp
      have "fst ` set (dc_keep ?c) \<subseteq> fst ` set (dk_buttons (kb_keys a2))"
        unfolding b2 btree_extend_keys by (force simp: divert_between_parts)
      then have "keys_inv a' (io_writes io')"
        using keys_inv_kept D unfolding res by blast
      moreover have "dk_buttons (kb_keys a') = divert_target w (kb_table a)"
        using divert_target_reached [of ?d w "kb_table a"] inv ok keys_inv_divertable [OF inv]
        unfolding res by (simp add: b2 keys_inv_def)
      moreover have "only_keys a a'"
        using only unfolding res by (simp add: only_keys_def)
      ultimately show ?thesis
        using ws res(1) by (intro conjI exI [of _ "ws1 @ ws2"]) simp_all
    qed
  qed
qed

section \<open>The row a session owns\<close>

definition row_inv :: "ArmedKeys \<Rightarrow> KbWrite list \<Rightarrow> bool" where
  "row_inv a ws \<longleftrightarrow>
     may_take ws \<subseteq> set_option (kb_g_row_taken a) \<and> (gm_g_row (kb_gaming a) \<longrightarrow> kb_g_row_taken a \<noteq> None)"

definition only_gaming :: "ArmedKeys \<Rightarrow> ArmedKeys \<Rightarrow> bool" where
  "only_gaming a a' \<longleftrightarrow>
     kb_controls a' = kb_controls a \<and> kb_table a' = kb_table a \<and> kb_grid a' = kb_grid a \<and> kb_device a' = kb_device a
     \<and> kb_keys a' = kb_keys a \<and> kb_reporting a' = kb_reporting a"

lemma only_gaming_trans: "only_gaming a b \<Longrightarrow> only_gaming b c \<Longrightarrow> only_gaming a c"
  by (simp add: only_gaming_def)

lemma gaming_follows_parts [simp]:
  "only_gaming a (gaming_follows row wanted a)" "kb_g_row_taken (gaming_follows row wanted a) = kb_g_row_taken a"
  "gm_g_row (kb_gaming (gaming_follows row wanted a)) = row" "kb_device (gaming_follows row wanted a) = kb_device a"
  by (simp_all add: gaming_follows_def gaming_follow_def only_gaming_def)

lemma may_divert_rows: "\<forall>w \<in> set ws. written_cid w = None \<Longrightarrow> may_divert (ws0 @ ws) = may_divert ws0"
proof (induction ws rule: rev_induct)
  case (snoc w ws)
  then show ?case
    by (cases w) (simp_all add: may_divert_def)
qed simp

lemma may_take_reportings: "\<forall>w \<in> set ws. written_cid w \<noteq> None \<Longrightarrow> may_take (ws0 @ ws) = may_take ws0"
proof (induction ws rule: rev_induct)
  case (snoc w ws)
  then show ?case
    by (cases w) (simp_all add: may_take_def)
qed simp

lemma keys_inv_only_gaming:
  "only_gaming a a' \<Longrightarrow> \<forall>w \<in> set ws. written_cid w = None \<Longrightarrow> keys_inv a ws0 \<Longrightarrow> keys_inv a' (ws0 @ ws)"
  by (auto simp: keys_inv_def only_gaming_def may_divert_rows)

lemma row_inv_only_keys:
  "only_keys a a' \<Longrightarrow> \<forall>w \<in> set ws. written_cid w \<noteq> None \<Longrightarrow> row_inv a ws0 \<Longrightarrow> row_inv a' (ws0 @ ws)"
  by (simp add: row_inv_def only_keys_def may_take_reportings)

lemma row_inv_features: "row_inv (a\<lparr>kb_gaming := (kb_gaming a)\<lparr>gm_features := f\<rparr>, kb_gaming_looked_up := x\<rparr>) ws \<longleftrightarrow> row_inv a ws"
  by (simp add: row_inv_def)

lemma follow_row_inv:
  assumes "follow_row link wanted a io = (r, a', io')" "row_inv a (io_writes io)"
  shows "row_inv a' (io_writes io') \<and> only_gaming a a'
    \<and> (\<exists>ws. io_writes io' = io_writes io @ ws \<and> (\<forall>w \<in> set ws. written_cid w = None))"
proof (cases "(if gw_take_g_row wanted then gf_g_keys (gm_features (kb_gaming a)) else None, kb_g_row_taken a)")
  case (Pair take taken)
  consider (take) index where "take = Some index" "taken = None" | (release) index where "take = None" "taken = Some index"
    | (stay) "(take = None) = (taken = None)"
    by (cases take; cases taken) auto
  then show ?thesis
  proof cases
    case take
    obtain r1 st where k: "key_count link (kb_endpoint a index) (io_link io) = (r1, st)"
      by (cases "key_count link (kb_endpoint a index) (io_link io)")
    show ?thesis
    proof (cases "\<exists>count. r1 = Inr count \<and> unat count \<le> length GKEY_ALL")
      case True
      obtain r2 io2 where w: "io_row link (kb_endpoint a index) True (io\<lparr>io_link := st\<rparr>) = (r2, io2)"
        by (cases "io_row link (kb_endpoint a index) True (io\<lparr>io_link := st\<rparr>)")
      have res: "a' = gaming_follows True wanted (a\<lparr>kb_g_row_taken := Some index\<rparr>)" "io' = io2"
        using assms(1) Pair take k True w by (auto simp: follow_row_def)
      have writes: "io_writes io' = io_writes io @ [WRow index True (r2 = Inr ())]"
        using io_row_write [OF w] res by (simp add: kb_endpoint_def)
      have "may_take (io_writes io) = {}"
        using assms(2) Pair take by (simp add: row_inv_def)
      then have "row_inv a' (io_writes io')"
        unfolding row_inv_def writes res(1) by simp
      moreover have "only_gaming a a'"
        unfolding res using gaming_follows_parts(1) [of "a\<lparr>kb_g_row_taken := Some index\<rparr>" True wanted] by (simp add: only_gaming_def)
      ultimately show ?thesis
        using writes by auto
    next
      case False
      then have "a' = a" "io_writes io' = io_writes io"
        using assms(1) Pair take k by (auto simp: follow_row_def split: sum.splits if_splits)
      then show ?thesis using assms(2) by (simp add: only_gaming_def)
    qed
  next
    case release
    let ?a = "gaming_follows False wanted a"
    obtain r2 io2 where w: "io_row link (kb_endpoint ?a index) False io = (r2, io2)"
      by (cases "io_row link (kb_endpoint ?a index) False io")
    have res: "a' = (if r2 = Inr () then ?a\<lparr>kb_g_row_taken := None\<rparr> else ?a)" "io' = io2"
      using assms(1) Pair release w by (auto simp: follow_row_def Let_def split: sum.splits)
    have writes: "io_writes io' = io_writes io @ [WRow index False (r2 = Inr ())]"
      using io_row_write [OF w] res by (simp add: kb_endpoint_def)
    have "may_take (io_writes io) \<subseteq> {index}"
      using assms(2) Pair release by (simp add: row_inv_def)
    then have "row_inv a' (io_writes io')"
      unfolding row_inv_def writes res(1) using Pair release by auto
    moreover have "only_gaming a a'"
      unfolding res using gaming_follows_parts(1) [of a False wanted] by (simp add: only_gaming_def)
    ultimately show ?thesis
      using writes by auto
  next
    case stay
    then have "a' = a" "io_writes io' = io_writes io"
      using assms(1) Pair by (auto simp: follow_row_def split: option.splits)
    then show ?thesis using assms(2) by (simp add: only_gaming_def)
  qed
qed

lemma look_up_gaming_writes: "look_up_gaming link dev io = (r, io') \<Longrightarrow> io_writes io' = io_writes io"
  by (auto simp: look_up_gaming_def io_feature_index_def split: sum.splits prod.splits)

lemma gaming_lookup_cases:
  assumes "gaming_lookup link wanted a io = (r, a', io')"
  shows "io_writes io' = io_writes io
    \<and> (a' = a \<or> (\<exists>f. a' = a\<lparr>kb_gaming := (kb_gaming a)\<lparr>gm_features := f\<rparr>, kb_gaming_looked_up := True\<rparr>))"
  using assms unfolding gaming_lookup_def
  by (auto split: if_splits prod.splits sum.splits dest: look_up_gaming_writes)

lemma follow_gaming_inv:
  assumes "follow_gaming link wanted a io = (r, a', io')" "row_inv a (io_writes io)"
  shows "row_inv a' (io_writes io') \<and> only_gaming a a'
    \<and> (\<exists>ws. io_writes io' = io_writes io @ ws \<and> (\<forall>w \<in> set ws. written_cid w = None))"
proof -
  obtain r1 a1 io1 where l: "gaming_lookup link wanted a io = (r1, a1, io1)"
    by (cases "gaming_lookup link wanted a io")
  have w1: "io_writes io1 = io_writes io"
    using gaming_lookup_cases [OF l] by simp
  have a1: "row_inv a1 (io_writes io1)" "only_gaming a a1"
    unfolding w1 using gaming_lookup_cases [OF l, THEN conjunct2] assms(2)
    by (elim disjE exE; simp add: row_inv_features only_gaming_def)+
  show ?thesis
  proof (cases r1)
    case (Inl e)
    then have "a' = a1" "io' = io1"
      using assms(1) l by (simp_all add: follow_gaming_def)
    then show ?thesis
      using a1 w1 by auto
  next
    case (Inr u)
    obtain r2 a2 io2 where f: "follow_row link wanted a1 io1 = (r2, a2, io2)"
      by (cases "follow_row link wanted a1 io1")
    have res: "io' = io2" "a' = a2 \<or> a' = gaming_follows (kb_g_row_taken a2 \<noteq> None) wanted a2"
      using assms(1) l f Inr by (auto simp: follow_gaming_def split: sum.splits)
    note R = follow_row_inv [OF f a1(1)]
    have "row_inv a' (io_writes io')" "only_gaming a2 a'"
      using res R by (auto simp: row_inv_def only_gaming_def [of a2 a2])
    then show ?thesis
      using R res(1) w1 a1(2) only_gaming_trans by metis
  qed
qed

section \<open>The session's invariant\<close>

definition kb_inv :: "ArmedKeys \<Rightarrow> KbWrite list \<Rightarrow> bool" where
  "kb_inv a ws \<longleftrightarrow>
     keys_inv a ws \<and> row_inv a ws \<and> (kb_controls a = None \<longrightarrow> kb_table a = [])
     \<and> gd_held (kb_grid a) \<subseteq> fst ` set (gd_buttons (kb_grid a))"

lemma keyboard_retarget_inv:
  assumes "keyboard_retarget link wanted a io = (r, a', io')" "kb_inv a (io_writes io)" "btree_ok (kw_controls wanted)"
  shows "kb_inv a' (io_writes io')
    \<and> (\<exists>ws. io_writes io' = io_writes io @ ws \<and> (\<forall>w \<in> set ws. \<forall>cid. written_cid w = Some cid \<longrightarrow>
          (cid \<in> fst ` set (dk_buttons (kb_keys a))) \<noteq> (cid \<in> fst ` set (kw_controls wanted))))
    \<and> kb_table a' = kb_table a \<and> gd_buttons (kb_grid a') = kw_grid wanted
    \<and> (r = Inr () \<longrightarrow> dk_buttons (kb_keys a') = divert_target (kw_controls wanted) (kb_table a))"
proof -
  let ?a = "a\<lparr>kb_grid := grid_follow (kb_grid a) (kw_grid wanted)\<rparr>"
  have a: "row_inv ?a (io_writes io)" "keys_inv ?a (io_writes io)" "kb_controls ?a = None \<longrightarrow> kb_table ?a = []"
    using assms(2) by (auto simp: kb_inv_def row_inv_def keys_inv_def)
  obtain r1 a1 io1 where f: "follow_gaming link (kw_gaming wanted) ?a io = (r1, a1, io1)"
    by (cases "follow_gaming link (kw_gaming wanted) ?a io")
  note F = follow_gaming_inv [OF f a(1)]
  then have og: "only_gaming ?a a1" and ri: "row_inv a1 (io_writes io1)"
    by simp_all
  obtain ws1 where ws1: "io_writes io1 = io_writes io @ ws1" "\<forall>w \<in> set ws1. written_cid w = None"
    using F by (elim conjE exE)
  have k1: "keys_inv a1 (io_writes io1)"
    unfolding ws1(1) using keys_inv_only_gaming [OF og ws1(2) a(2)] .
  have parts: "kb_keys a1 = kb_keys a" "kb_table a1 = kb_table a" "kb_controls a1 = kb_controls a"
      "kb_grid a1 = grid_follow (kb_grid a) (kw_grid wanted)"
    using og by (simp_all add: only_gaming_def)
  have grid: "gd_buttons (grid_follow (kb_grid a) (kw_grid wanted)) = kw_grid wanted"
      "gd_held (grid_follow (kb_grid a) (kw_grid wanted)) \<subseteq> fst ` set (kw_grid wanted)"
    by (auto simp: grid_follow_def)
  show ?thesis
  proof (cases r1)
    case (Inl e)
    then have "r = Inl e" "a' = a1" "io' = io1"
      using assms(1) f by (auto simp: keyboard_retarget_def)
    then show ?thesis
      using k1 ri ws1 parts grid a(3) by (auto simp: kb_inv_def)
  next
    case (Inr u)
    then have "keyboard_apply link (divert_between (dk_buttons (kb_keys a1)) (kw_controls wanted) (kb_table a1)) a1 io1 = (r, a', io')"
      using assms(1) f by (simp add: keyboard_retarget_def)
    moreover have "kb_controls a1 = None \<longrightarrow> kb_table a1 = []"
      using a(3) parts by simp
    ultimately have C: "keys_inv a' (io_writes io') \<and> only_keys a1 a'
      \<and> (\<exists>ws. io_writes io' = io_writes io1 @ ws \<and> written_cid ` set ws \<subseteq>
            Some ` {cid. (cid \<in> fst ` set (dk_buttons (kb_keys a1))) \<noteq> (cid \<in> fst ` set (kw_controls wanted))})
      \<and> (r = Inr () \<longrightarrow> dk_buttons (kb_keys a') = divert_target (kw_controls wanted) (kb_table a1))"
      using k1 assms(3) by (intro keyboard_apply_inv)
    then obtain ws2 where ws2: "io_writes io' = io_writes io1 @ ws2"
        "written_cid ` set ws2 \<subseteq> Some ` {cid. (cid \<in> fst ` set (dk_buttons (kb_keys a1))) \<noteq> (cid \<in> fst ` set (kw_controls wanted))}"
      by (elim conjE exE)
    have only: "only_keys a1 a'" and k': "keys_inv a' (io_writes io')"
      using C by simp_all
    have "\<forall>w \<in> set ws2. written_cid w \<noteq> None"
      using ws2(2) by auto
    then have "row_inv a' (io_writes io')"
      unfolding ws2(1) using row_inv_only_keys [OF only _ ri] by blast
    moreover have "\<forall>w \<in> set (ws1 @ ws2). \<forall>cid. written_cid w = Some cid \<longrightarrow>
          (cid \<in> fst ` set (dk_buttons (kb_keys a))) \<noteq> (cid \<in> fst ` set (kw_controls wanted))"
      using ws1(2) written_in [OF ws2(2)] unfolding parts(1) by auto
    moreover have "io_writes io' = io_writes io @ (ws1 @ ws2)"
      using ws1 ws2 by simp
    moreover have "kb_grid a' = grid_follow (kb_grid a) (kw_grid wanted)" "kb_table a' = kb_table a" "kb_controls a' = kb_controls a"
      using only parts by (simp_all add: only_keys_def)
    ultimately show ?thesis
      using k' C grid a(3) parts unfolding kb_inv_def by (intro conjI exI [of _ "ws1 @ ws2"]) simp_all
  qed
qed

section \<open>Waking and handing back\<close>

lemma redivert_all_writes:
  "\<exists>ws. io_writes (redivert_all link ep rs io) = io_writes io @ ws \<and> (\<forall>w \<in> set ws. written_cid w \<noteq> None)
     \<and> may_divert (io_writes (redivert_all link ep rs io)) \<subseteq> may_divert (io_writes io) \<union> arm_cid ` set rs"
proof (induction rs arbitrary: io)
  case (Cons r rs)
  let ?ch = "divert_keyboard_key (arm_original r)"
  obtain x io1 where w: "io_set_reporting link ep (arm_cid r) ?ch io = (x, io1)"
    by (cases "io_set_reporting link ep (arm_cid r) ?ch io")
  note w1 = io_set_reporting_write [OF w]
  obtain ws where ws: "io_writes (redivert_all link ep rs io1) = io_writes io1 @ ws" "\<forall>w \<in> set ws. written_cid w \<noteq> None"
      "may_divert (io_writes (redivert_all link ep rs io1)) \<subseteq> may_divert (io_writes io1) \<union> arm_cid ` set rs"
    using Cons.IH [of io1] by blast
  have "may_divert (io_writes io1) \<subseteq> insert (arm_cid r) (may_divert (io_writes io))"
    unfolding w1 by (simp add: divert_keyboard)
  then have "may_divert (io_writes (redivert_all link ep (r # rs) io)) \<subseteq> may_divert (io_writes io) \<union> arm_cid ` set (r # rs)"
    using ws(3) w by auto
  then show ?case
    using ws(1,2) w w1 by (intro exI [of _ "WReporting (arm_cid r) ?ch (x = Inr ()) # ws"]) simp
qed simp

lemma rearm_inv:
  assumes "rearm link a io = (ok, io')" "kb_inv a (io_writes io)"
  shows "kb_inv a (io_writes io')"
proof -
  define io1 where "io1 = (case kb_controls a of None \<Rightarrow> io | Some index \<Rightarrow> redivert_all link (kb_endpoint a index) (kb_reporting a) io)"
  have inv: "keys_inv a (io_writes io)" "row_inv a (io_writes io)" "may_divert (io_writes io) \<subseteq> arm_cid ` set (kb_reporting a)"
    using assms(2) by (auto simp: kb_inv_def keys_inv_def)
  have "keys_inv a (io_writes io1) \<and> row_inv a (io_writes io1)"
  proof (cases "kb_controls a")
    case None
    then show ?thesis
      using inv by (simp add: io1_def)
  next
    case (Some index)
    obtain ws where ws: "io_writes io1 = io_writes io @ ws" "\<forall>w \<in> set ws. written_cid w \<noteq> None"
        "may_divert (io_writes io1) \<subseteq> may_divert (io_writes io) \<union> arm_cid ` set (kb_reporting a)"
      using redivert_all_writes [of link "kb_endpoint a index" "kb_reporting a" io] Some unfolding io1_def by auto
    have "row_inv a (io_writes io1)"
      unfolding ws(1) using row_inv_only_keys [OF only_keys_simps(1) ws(2) inv(2)] .
    moreover have "may_divert (io_writes io1) \<subseteq> arm_cid ` set (kb_reporting a)"
      using ws(3) inv(3) by blast
    ultimately show ?thesis
      using inv(1) unfolding keys_inv_def by blast
  qed
  then have io1: "keys_inv a (io_writes io1)" "row_inv a (io_writes io1)"
    by simp_all
  show ?thesis
  proof (cases "kb_g_row_taken a")
    case None
    then show ?thesis
      using assms io1 unfolding rearm_def io1_def [symmetric] kb_inv_def by (simp add: Let_def)
  next
    case (Some index)
    obtain r2 io2 where w: "io_row link (kb_endpoint a index) True io1 = (r2, io2)"
      by (cases "io_row link (kb_endpoint a index) True io1")
    have "io' = io2"
      using assms(1) Some w unfolding rearm_def io1_def [symmetric] by (auto simp: Let_def split: sum.splits)
    then have writes: "io_writes io' = io_writes io1 @ [WRow index True (r2 = Inr ())]"
      using io_row_write [OF w] by (simp add: kb_endpoint_def)
    have "row_inv a (io_writes io')"
      using io1(2) Some unfolding row_inv_def writes by simp
    moreover have "keys_inv a (io_writes io')"
      unfolding writes by (rule keys_inv_only_gaming [OF _ _ io1(1)]) (simp_all add: only_gaming_def)
    ultimately show ?thesis
      using assms(2) by (simp add: kb_inv_def)
  qed
qed

lemma restore_controls_clears:
  assumes "restore_controls link linux route ep rs restored io = (True, io')" "\<forall>r \<in> set rs. arm_policy r = Keyboard"
  shows "restored \<and> may_divert (io_writes io') = may_divert (io_writes io) - arm_cid ` set rs
    \<and> may_take (io_writes io') = may_take (io_writes io)"
  using assms
proof (induction rs arbitrary: restored io)
  case (Cons r rs)
  let ?ch = "undivert_change (kernel_diversion_on linux route r)"
  obtain x io1 where w: "io_set_reporting link ep (arm_cid r) ?ch io = (x, io1)"
    by (cases "io_set_reporting link ep (arm_cid r) ?ch io")
  have clear: "cg_diverted ?ch = Some False"
    using Cons.prems(2) by (intro undivert_keyboard) (simp_all add: kernel_diversion_on_def)
  show ?case
  proof (cases x)
    case (Inl e)
    then show ?thesis
      using Cons.prems Cons.IH [of False io1] w by simp
  next
    case (Inr u)
    then have "restore_controls link linux route ep rs restored io1 = (True, io')"
      using Cons.prems(1) w by simp
    from Cons.IH [OF this] Cons.prems(2) show ?thesis
      using io_set_reporting_write [OF w] clear Inr by auto
  qed
qed simp

lemma restore_on_clears:
  assumes "kb_inv a (io_writes io)" "into_pending a = Some plan" "restore_on link linux route dev plan io = (True, io')"
  shows "may_divert (io_writes io') = {} \<and> may_take (io_writes io') = {}"
proof -
  have inv: "may_divert (io_writes io) \<subseteq> arm_cid ` set (kb_reporting a)" "may_take (io_writes io) \<subseteq> set_option (kb_g_row_taken a)"
      "\<forall>r \<in> set (kb_reporting a). arm_policy r = Keyboard" "kb_controls a = None \<longrightarrow> kb_reporting a = []"
    using assms(1) by (auto simp: kb_inv_def keys_inv_def row_inv_def)
  have plan: "kr_controls plan = Option.bind (kb_controls a) (\<lambda>index. if kb_reporting a = [] then None else Some (index, kb_reporting a))"
      "kr_g_keys plan = kb_g_row_taken a"
    using assms(2) by (auto simp: into_pending_def Let_def split: if_splits)
  let ?first = "case kr_controls plan of None \<Rightarrow> (True, io)
    | Some (index, controls) \<Rightarrow> restore_controls link linux route \<lparr>ep_device_index = dev, ep_feature_index = index\<rparr> controls True io"
  obtain ok1 io1 where f: "?first = (ok1, io1)"
    by (cases ?first)
  have first: "may_divert (io_writes io1) = {}" "may_take (io_writes io1) = may_take (io_writes io)" if "ok1"
  proof -
    consider "kr_controls plan = None" "kb_reporting a = []" | index where "kr_controls plan = Some (index, kb_reporting a)"
      using plan(1) inv(4) by (cases "kb_controls a") (auto split: if_splits)
    then have "may_divert (io_writes io1) = {} \<and> may_take (io_writes io1) = may_take (io_writes io)"
    proof cases
      case 1
      then show ?thesis
        using f inv(1) by auto
    next
      case 2
      then have "restore_controls link linux route \<lparr>ep_device_index = dev, ep_feature_index = index\<rparr> (kb_reporting a) True io = (True, io1)"
        using f that by simp
      from restore_controls_clears [OF this inv(3)] show ?thesis
        using inv(1) by blast
    qed
    then show "may_divert (io_writes io1) = {}" "may_take (io_writes io1) = may_take (io_writes io)"
      by simp_all
  qed
  show ?thesis
  proof (cases "kb_g_row_taken a")
    case None
    then have "ok1" "io' = io1"
      using assms(3) f plan(2) by (simp_all add: restore_on_def)
    then show ?thesis
      using first inv(2) None by simp
  next
    case (Some index)
    let ?ep = "\<lparr>ep_device_index = dev, ep_feature_index = index\<rparr>"
    obtain r2 io2 where w: "io_row link ?ep False io1 = (r2, io2)"
      by (cases "io_row link ?ep False io1")
    have "r2 = Inr ()" "ok1" "io' = io2"
      using assms(3) f plan(2) Some w by (auto simp: restore_on_def split: sum.splits)
    moreover from this have "io_writes io' = io_writes io1 @ [WRow index False True]"
      using io_row_write [OF w] by simp
    ultimately show ?thesis
      using first inv(2) Some by auto
  qed
qed

lemma nothing_pending:
  assumes "kb_inv a ws" "into_pending a = None"
  shows "may_divert ws = {} \<and> may_take ws = {}"
  using assms by (auto simp: kb_inv_def keys_inv_def row_inv_def into_pending_def Let_def split: if_splits option.splits bind_splits)

section \<open>Edges\<close>

lemma net_key_edge [simp]: "net b (key_edge was now button) = of_bool (button = b \<and> now) - of_bool (button = b \<and> was)"
  by (auto simp: key_edge_def)

text \<open>How many of the keys held dispatch as a button, on each plane.\<close>

definition down_keys :: "DivertedKeys \<Rightarrow> ButtonId \<Rightarrow> int" where
  "down_keys k b = sum_list (map (\<lambda>(cid, button). of_bool (button = b \<and> cid \<in> dk_held k)) (dk_buttons k))"

definition down_grid :: "GridKeys \<Rightarrow> ButtonId \<Rightarrow> int" where
  "down_grid g b = (\<Sum>i \<in> gd_held g. of_bool (grid_button (gd_buttons g) i = b))"

definition down_gaming :: "GamingKeys \<Rightarrow> ButtonId \<Rightarrow> int" where
  "down_gaming k b =
     sum_list (map (\<lambda>key. of_bool (g_key key = b \<and> keys_contain (gm_g_held k) (gkey_bit key))) GKEY_ALL)
     + sum_list (map (\<lambda>(key, flag). of_bool (ModeKeyButton key = b \<and> keys_contain (gm_m_held k) flag)) MKEYS)
     + of_bool (ModeKeyButton MacroRecord = b \<and> gm_mr_held k)"

lemma diverted_loop_held: "fst (diverted_loop cids bs held) = (held - fst ` set bs) \<union> (fst ` set bs \<inter> set cids)"
  by (induction cids bs held rule: diverted_loop.induct) (auto simp: Let_def case_prod_beta)

lemma key_of_entry: "(cid, button) \<in> set bs \<Longrightarrow> cid \<in> fst ` set bs"
  by (rule image_eqI [of _ _ "(cid, button)"]) simp_all

lemma diverted_loop_net:
  "distinct (map fst bs) \<Longrightarrow> net b (snd (diverted_loop cids bs held)) =
     sum_list (map (\<lambda>(cid, button). of_bool (button = b \<and> cid \<in> set cids)) bs)
     - sum_list (map (\<lambda>(cid, button). of_bool (button = b \<and> cid \<in> held)) bs)"
proof (induction bs arbitrary: held)
  case (Cons e bs)
  obtain cid button where e: "e = (cid, button)" by (cases e)
  define held1 where "held1 = (if cid \<in> set cids then insert cid held else held - {cid})"
  have "sum_list (map (\<lambda>(c, button). of_bool (button = b \<and> c \<in> held1) :: int) bs) = sum_list (map (\<lambda>(c, button). of_bool (button = b \<and> c \<in> held)) bs)"
    using Cons.prems e by (intro arg_cong [of _ _ sum_list] map_cong) (auto simp: held1_def dest: key_of_entry)
  then have rest: "net b (snd (diverted_loop cids bs held1)) =
      sum_list (map (\<lambda>(cid, button). of_bool (button = b \<and> cid \<in> set cids)) bs)
      - sum_list (map (\<lambda>(cid, button). of_bool (button = b \<and> cid \<in> held)) bs)"
    using Cons.IH [of held1] Cons.prems by simp
  have "snd (diverted_loop cids (e # bs) held) = key_edge (cid \<in> held) (cid \<in> set cids) button @ snd (diverted_loop cids bs held1)"
    unfolding e held1_def by (simp add: Let_def case_prod_beta)
  then show ?case
    using rest e by simp
qed simp

lemma diverted_report_parts:
  assumes "distinct (map fst (dk_buttons k))"
  shows "dk_buttons (fst (diverted_report k cids)) = dk_buttons k"
    "dk_held (fst (diverted_report k cids)) = (dk_held k - fst ` set (dk_buttons k)) \<union> (fst ` set (dk_buttons k) \<inter> set cids)"
    "net b (snd (diverted_report k cids)) = down_keys (fst (diverted_report k cids)) b - down_keys k b"
proof -
  show b: "dk_buttons (fst (diverted_report k cids)) = dk_buttons k"
    and h: "dk_held (fst (diverted_report k cids)) = (dk_held k - fst ` set (dk_buttons k)) \<union> (fst ` set (dk_buttons k) \<inter> set cids)"
    by (simp_all add: diverted_report_def case_prod_beta diverted_loop_held)
  have "sum_list (map (\<lambda>(cid, button). of_bool (button = b \<and> cid \<in> dk_held (fst (diverted_report k cids))) :: int) (dk_buttons k))
      = sum_list (map (\<lambda>(cid, button). of_bool (button = b \<and> cid \<in> set cids)) (dk_buttons k))"
    unfolding h by (intro arg_cong [of _ _ sum_list] map_cong) (auto dest: key_of_entry)
  then show "net b (snd (diverted_report k cids)) = down_keys (fst (diverted_report k cids)) b - down_keys k b"
    using diverted_loop_net [OF assms, of b cids "dk_held k"] unfolding down_keys_def b
    by (simp add: diverted_report_def case_prod_beta)
qed

lemma net_map_down: "net b (map (\<lambda>i. ButtonDown (f i)) xs) = sum_list (map (\<lambda>i. of_bool (f i = b)) xs)"
  by (induction xs) simp_all

lemma net_map_up: "net b (map (\<lambda>i. ButtonUp (f i)) xs) = - sum_list (map (\<lambda>i. of_bool (f i = b)) xs)"
  by (induction xs) simp_all

lemma sum_sorted_list: "finite S \<Longrightarrow> sum_list (map f (sorted_list_of_set S)) = (\<Sum>i \<in> S. f i)" for f :: "'a::linorder \<Rightarrow> int"
  by (simp add: sum_list_distinct_conv_sum_set)

lemma grid_report_parts:
  "gd_buttons (fst (grid_report g bytes)) = gd_buttons g"
  "gd_held g \<subseteq> fst ` set (gd_buttons g) \<Longrightarrow> gd_held (fst (grid_report g bytes)) \<subseteq> fst ` set (gd_buttons g)"
  "net b (snd (grid_report g bytes)) = down_grid (fst (grid_report g bytes)) b - down_grid g b"
proof -
  show "gd_buttons (fst (grid_report g bytes)) = gd_buttons g"
    by (simp add: grid_report_def case_prod_beta)
  show "gd_held (fst (grid_report g bytes)) \<subseteq> fst ` set (gd_buttons g)" if "gd_held g \<subseteq> fst ` set (gd_buttons g)"
    using that by (auto simp: grid_report_def emit_grid_edges_def case_prod_beta Let_def split: option.splits)
  have fin: "finite S" for S :: "u8 set" by simp
  have diff: "(\<Sum>i \<in> T - S. f i) - (\<Sum>i \<in> S - T. f i) = (\<Sum>i \<in> T. f i) - (\<Sum>i \<in> S. f i)" for f :: "u8 \<Rightarrow> int" and S T
    using sum.Int_Diff [OF fin, of f T S] sum.Int_Diff [OF fin, of f S T] by (simp add: Int_commute)
  show "net b (snd (grid_report g bytes)) = down_grid (fst (grid_report g bytes)) b - down_grid g b"
  proof (cases "grid_key_frame bytes")
    case None
    then show ?thesis
      by (simp add: grid_report_def emit_grid_edges_def)
  next
    case (Some ids)
    let ?held = "set (filter (\<lambda>i. i \<in> fst ` set (gd_buttons g)) ids)" and ?f = "grid_button (gd_buttons g)"
    have r: "grid_report g bytes = (g\<lparr>gd_held := ?held\<rparr>, map (\<lambda>i. ButtonUp (?f i)) (sorted_list_of_set (gd_held g - ?held))
        @ map (\<lambda>i. ButtonDown (?f i)) (sorted_list_of_set (?held - gd_held g)))"
      using Some by (simp add: grid_report_def emit_grid_edges_def Let_def)
    have "net b (snd (grid_report g bytes)) =
        (\<Sum>i \<in> ?held - gd_held g. of_bool (?f i = b)) - (\<Sum>i \<in> gd_held g - ?held. of_bool (?f i = b))"
      unfolding r snd_conv net_simps net_map_up net_map_down sum_sorted_list [OF fin] by simp
    also have "\<dots> = (\<Sum>i \<in> ?held. of_bool (?f i = b)) - (\<Sum>i \<in> gd_held g. of_bool (?f i = b))"
      by (rule diff)
    finally show ?thesis
      by (simp add: r down_grid_def)
  qed
qed

lemma keys_contain_bit: "n < LENGTH('a) \<Longrightarrow> keys_contain (w :: 'a::len word) (push_bit n 1) \<longleftrightarrow> bit w n"
proof -
  assume n: "n < LENGTH('a)"
  have "w AND push_bit n 1 = of_bool (bit w n) * push_bit n 1"
    by (rule bit_word_eqI) (auto simp: bit_simps)
  then show ?thesis
    using n by (cases "bit w n") (auto simp: keys_contain_def push_bit_eq_0_iff eq_commute [of 0])
qed

lemma on_g_keys_net: "net b (snd (on_g_keys k reported)) = down_gaming (fst (on_g_keys k reported)) b - down_gaming k b"
  by (simp add: on_g_keys_def Let_def down_gaming_def GKEY_ALL_def)

lemma keys_contain_pow: "n < LENGTH('a) \<Longrightarrow> keys_contain (w :: 'a::len word) (2 ^ n) \<longleftrightarrow> bit w n"
  using keys_contain_bit [of n w] by simp

lemma keys_contain_set:
  fixes m :: u8
  assumes "i < 8" "j < 8"
  shows "keys_contain (if now then m OR 2 ^ i else m AND NOT (2 ^ i)) (2 ^ j) \<longleftrightarrow>
    (if i = j then now else keys_contain m (2 ^ j))"
  using assms by (auto simp: keys_contain_pow bit_simps)

text \<open>The mode keys with the positions of their flags.\<close>

abbreviation flags :: "(ModeKey \<times> nat) list \<Rightarrow> (ModeKey \<times> u8) list" where
  "flags ks \<equiv> map (\<lambda>(key, i). (key, 2 ^ i)) ks"

lemma m_keys_loop_held:
  assumes "\<forall>i \<in> snd ` set ks. i < 8" "j < 8"
  shows "j \<notin> snd ` set ks \<Longrightarrow>
    keys_contain (fst (m_keys_loop held mk (flags ks) m)) (2 ^ j) \<longleftrightarrow> keys_contain m (2 ^ j)"
  using assms(1)
proof (induction ks arbitrary: m)
  case (Cons e ks)
  obtain key i where e: "e = (key, i)" by (cases e)
  then show ?case
    using Cons assms(2) by (simp add: Let_def case_prod_beta keys_contain_set split del: if_split)
qed simp

lemma m_keys_loop_net:
  assumes "distinct (map snd ks)" "\<forall>i \<in> snd ` set ks. i < 8"
  shows "net b (snd (m_keys_loop held mk (flags ks) m)) =
      sum_list (map (\<lambda>(key, i). of_bool (ModeKeyButton key = b \<and> keys_contain (fst (m_keys_loop held mk (flags ks) m)) (2 ^ i))) ks)
      - sum_list (map (\<lambda>(key, i). of_bool (ModeKeyButton key = b \<and> keys_contain m (2 ^ i))) ks)"
  using assms
proof (induction ks arbitrary: m)
  case (Cons e ks)
  obtain key i where e: "e = (key, i)" by (cases e)
  define now where "now = (keys_contain held (2 ^ i) \<and> key \<in> mk)"
  define m1 where "m1 = (if now then m OR 2 ^ i else m AND NOT (2 ^ i))"
  let ?rest = "m_keys_loop held mk (flags ks) m1"
  have i: "i < 8" "i \<notin> snd ` set ks"
    using Cons.prems e by auto
  have loop: "m_keys_loop held mk (flags (e # ks)) m =
      (fst ?rest, key_edge (keys_contain m (2 ^ i)) now (ModeKeyButton key) @ snd ?rest)"
    by (simp add: e now_def m1_def Let_def case_prod_beta)
  have "keys_contain (fst ?rest) (2 ^ i) \<longleftrightarrow> keys_contain m1 (2 ^ i)"
    using m_keys_loop_held [of ks i held mk m1] Cons.prems(2) i by simp
  then have at: "keys_contain (fst ?rest) (2 ^ i) \<longleftrightarrow> now"
    using keys_contain_set [OF i(1) i(1), of now m] by (simp add: m1_def)
  have "sum_list (map (\<lambda>(key, i). of_bool (ModeKeyButton key = b \<and> keys_contain m1 (2 ^ i)) :: int) ks)
      = sum_list (map (\<lambda>(key, i). of_bool (ModeKeyButton key = b \<and> keys_contain m (2 ^ i))) ks)"
  proof (intro arg_cong [of _ _ sum_list] map_cong refl)
    fix x assume x: "x \<in> set ks"
    have "snd x < 8" "i \<noteq> snd x"
      using x i Cons.prems(2) by auto
    then show "(case x of (key, i) \<Rightarrow> (of_bool (ModeKeyButton key = b \<and> keys_contain m1 (2 ^ i)) :: int))
        = (case x of (key, i) \<Rightarrow> of_bool (ModeKeyButton key = b \<and> keys_contain m (2 ^ i)))"
      unfolding m1_def case_prod_beta using keys_contain_set [OF i(1), of "snd x" now m] by simp
  qed
  then show ?case
    using Cons.IH [of m1] Cons.prems at unfolding loop by (simp add: e)
qed simp

lemma MKEYS_flags: "MKEYS = flags [(MK_M1, 0), (MK_M2, 1), (MK_M3, 2)]"
  by (simp add: MKEYS_def)

lemma on_m_keys_net: "net b (snd (on_m_keys k held)) = down_gaming (fst (on_m_keys k held)) b - down_gaming k b"
proof -
  let ?r = "m_keys_loop held (gm_mode_keys k) MKEYS (gm_m_held k)"
  have "net b (snd ?r) = sum_list (map (\<lambda>(key, flag). of_bool (ModeKeyButton key = b \<and> keys_contain (fst ?r) flag)) MKEYS)
      - sum_list (map (\<lambda>(key, flag). of_bool (ModeKeyButton key = b \<and> keys_contain (gm_m_held k) flag)) MKEYS)"
    unfolding MKEYS_flags by (subst m_keys_loop_net) simp_all
  then show ?thesis
    by (simp add: on_m_keys_def case_prod_beta down_gaming_def)
qed

lemma on_macro_record_net: "net b (snd (on_macro_record k held)) = down_gaming (fst (on_macro_record k held)) b - down_gaming k b"
  by (simp add: on_macro_record_def Let_def down_gaming_def)

lemma gaming_report_net: "net b (snd (gaming_report k msg dev)) = down_gaming (fst (gaming_report k msg dev)) b - down_gaming k b"
  unfolding gaming_report_def Let_def
  by (auto simp: on_g_keys_net on_m_keys_net on_macro_record_net split: option.splits)

lemma gaming_report_row: "gm_g_row (fst (gaming_report k msg dev)) = gm_g_row k"
  by (simp add: gaming_report_def Let_def on_g_keys_def on_m_keys_def on_macro_record_def case_prod_beta split: option.splits)

section \<open>The session over time\<close>

text \<open>A reconnect resets the inputs and writes again what was taken; a new wanted set arrives between reports.
  Every change brings the link its calls go through, so they may fail in any way. The world also keeps, per
  button, the presses that ended without a release: those held on keys that were dropped, given another
  button or reset.\<close>

datatype KeyboardEvent = KdReport v20_message | KdRaw "u8 list" | KdReconnect link | KdRetarget link KeyboardWanted

record KeyboardWorld =
  kd_armed :: ArmedKeys
  kd_io :: KbIo
  kd_sent :: "CapturedInput list"
  kd_ended :: "ButtonId \<Rightarrow> int"

definition kb_down :: "ArmedKeys \<Rightarrow> ButtonId \<Rightarrow> int" where
  "kb_down a b = down_keys (kb_keys a) b + down_grid (kb_grid a) b + down_gaming (kb_gaming a) b"

fun keyboard_step :: "KeyboardWorld \<Rightarrow> KeyboardEvent \<Rightarrow> KeyboardWorld option" where
  "keyboard_step w (KdReport msg) =
     (case keyboard_report_handler (kd_armed w) msg of
        (a, sent) \<Rightarrow> Some (w\<lparr>kd_armed := a, kd_sent := kd_sent w @ sent\<rparr>))"
| "keyboard_step w (KdRaw bytes) =
     (case raw_report_handler (kd_armed w) bytes of
        (a, sent) \<Rightarrow> Some (w\<lparr>kd_armed := a, kd_sent := kd_sent w @ sent\<rparr>))"
| "keyboard_step w (KdReconnect link) =
     (case keyboard_reset_input_state (kd_armed w) of
        (a, sent) \<Rightarrow>
          (case rearm link a (kd_io w) of
             (_, io) \<Rightarrow> Some (w\<lparr>kd_armed := a, kd_io := io, kd_sent := kd_sent w @ sent,
                               kd_ended := (\<lambda>b. kd_ended w b + (kb_down (kd_armed w) b - kb_down a b))\<rparr>)))"
| "keyboard_step w (KdRetarget link wanted) =
     (if \<not> btree_ok (kw_controls wanted) then None
      else case keyboard_retarget link wanted (kd_armed w) (kd_io w) of
        (_, a, io) \<Rightarrow> Some (w\<lparr>kd_armed := a, kd_io := io,
                               kd_ended := (\<lambda>b. kd_ended w b + (kb_down (kd_armed w) b - kb_down a b))\<rparr>))"

text \<open>Before arming: the keyboard's features and control table are known, nothing is taken.\<close>

definition keyboard_start :: "u8 option \<Rightarrow> CtrlIdInfo list \<Rightarrow> u8 \<Rightarrow> ArmedKeys" where
  "keyboard_start controls table dev =
     \<lparr>kb_controls = controls, kb_table = table, kb_reporting = [], kb_keys = diverted_default, kb_grid = grid_default,
      kb_device = dev, kb_gaming = gaming_default, kb_g_row_taken = None, kb_gaming_looked_up = False\<rparr>"

definition keyboard_init :: "KeyboardWorld \<Rightarrow> bool" where
  "keyboard_init w \<longleftrightarrow>
     (\<exists>controls table dev. kd_armed w = keyboard_start controls table dev \<and> (controls = None \<longrightarrow> table = []))
     \<and> io_writes (kd_io w) = [] \<and> kd_sent w = [] \<and> kd_ended w = (\<lambda>_. 0)"

definition kd_inv :: "KeyboardWorld \<Rightarrow> bool" where
  "kd_inv w \<longleftrightarrow>
     kb_inv (kd_armed w) (io_writes (kd_io w)) \<and> (\<forall>b. net b (kd_sent w) = kb_down (kd_armed w) b + kd_ended w b)"

lemma kd_invI:
  "kb_inv (kd_armed w) (io_writes (kd_io w)) \<Longrightarrow> (\<And>b. net b (kd_sent w) = kb_down (kd_armed w) b + kd_ended w b) \<Longrightarrow> kd_inv w"
  by (simp add: kd_inv_def)

lemma kb_inv_reported:
  assumes "kb_inv a ws"
  shows "kb_inv (a\<lparr>kb_gaming := fst (gaming_report (kb_gaming a) msg dev)\<rparr>) ws"
    "kb_inv (a\<lparr>kb_gaming := fst (gaming_report (kb_gaming a) msg dev), kb_keys := fst (diverted_report (kb_keys a) cids)\<rparr>) ws"
    "kb_inv (a\<lparr>kb_grid := fst (grid_report (kb_grid a) bytes)\<rparr>) ws"
proof -
  have inv: "keys_inv a ws" "row_inv a ws" "kb_controls a = None \<longrightarrow> kb_table a = []"
      "gd_held (kb_grid a) \<subseteq> fst ` set (gd_buttons (kb_grid a))" "distinct (map fst (dk_buttons (kb_keys a)))"
    using assms by (auto simp: kb_inv_def keys_inv_def btree_ok_distinct)
  have row: "row_inv (a\<lparr>kb_gaming := fst (gaming_report (kb_gaming a) msg dev)\<rparr>) ws"
      "row_inv (a\<lparr>kb_gaming := fst (gaming_report (kb_gaming a) msg dev), kb_keys := k\<rparr>) ws"
      "row_inv (a\<lparr>kb_grid := g\<rparr>) ws" for k g
    using inv(2) by (simp_all add: row_inv_def gaming_report_row)
  have keys: "keys_inv (a\<lparr>kb_gaming := gm\<rparr>) ws" "keys_inv (a\<lparr>kb_grid := g\<rparr>) ws" for gm g
    using inv(1) by (auto simp: keys_inv_def)
  have held: "dk_held (fst (diverted_report (kb_keys a) cids)) \<subseteq> fst ` set (dk_buttons (kb_keys a))"
    using inv(1) unfolding diverted_report_parts(2) [OF inv(5)] keys_inv_def by blast
  then have rep: "keys_inv (a\<lparr>kb_gaming := gm, kb_keys := fst (diverted_report (kb_keys a) cids)\<rparr>) ws" for gm
    using inv(1) diverted_report_parts(1) [OF inv(5)] by (auto simp: keys_inv_def)
  show "kb_inv (a\<lparr>kb_gaming := fst (gaming_report (kb_gaming a) msg dev)\<rparr>) ws"
      "kb_inv (a\<lparr>kb_gaming := fst (gaming_report (kb_gaming a) msg dev), kb_keys := fst (diverted_report (kb_keys a) cids)\<rparr>) ws"
    using row keys rep inv(3,4) by (simp_all add: kb_inv_def)
  show "kb_inv (a\<lparr>kb_grid := fst (grid_report (kb_grid a) bytes)\<rparr>) ws"
    using row(3) keys(2) inv(3) grid_report_parts(1,2) [of "kb_grid a" bytes] inv(4) by (simp add: kb_inv_def)
qed

lemma report_handler_parts:
  assumes "kb_inv a ws"
  shows "kb_inv (fst (keyboard_report_handler a msg)) ws"
    "net b (snd (keyboard_report_handler a msg)) = kb_down (fst (keyboard_report_handler a msg)) b - kb_down a b"
proof -
  have d: "distinct (map fst (dk_buttons (kb_keys a)))"
    using assms by (simp add: kb_inv_def keys_inv_def btree_ok_distinct)
  let ?e = "Option.bind (kb_controls a) (decode_reprog_event msg (kb_device a))" and ?g = "gaming_report (kb_gaming a) msg (kb_device a)"
  consider cids where "?e = Some (DivertedButtons cids)" | "\<forall>cids. ?e \<noteq> Some (DivertedButtons cids)"
    by blast
  then have "kb_inv (fst (keyboard_report_handler a msg)) ws
      \<and> net b (snd (keyboard_report_handler a msg)) = kb_down (fst (keyboard_report_handler a msg)) b - kb_down a b"
  proof cases
    case 1
    then have "keyboard_report_handler a msg = (a\<lparr>kb_gaming := fst ?g, kb_keys := fst (diverted_report (kb_keys a) cids)\<rparr>,
        snd ?g @ snd (diverted_report (kb_keys a) cids))"
      by (simp add: keyboard_report_handler_def case_prod_beta)
    then show ?thesis
      using kb_inv_reported(2) [OF assms] gaming_report_net [of b "kb_gaming a"] diverted_report_parts(3) [OF d, of b cids]
      by (simp add: kb_down_def)
  next
    case 2
    then have "keyboard_report_handler a msg = (a\<lparr>kb_gaming := fst ?g\<rparr>, snd ?g)"
      by (auto simp: keyboard_report_handler_def case_prod_beta split: option.splits RawControlEvent.splits)
    then show ?thesis
      using kb_inv_reported(1) [OF assms] gaming_report_net [of b "kb_gaming a"] by (simp add: kb_down_def)
  qed
  then show "kb_inv (fst (keyboard_report_handler a msg)) ws"
      "net b (snd (keyboard_report_handler a msg)) = kb_down (fst (keyboard_report_handler a msg)) b - kb_down a b"
    by simp_all
qed

lemma kb_inv_gaming: "gm_g_row g = gm_g_row (kb_gaming a) \<Longrightarrow> kb_inv (a\<lparr>kb_gaming := g\<rparr>) ws \<longleftrightarrow> kb_inv a ws"
  by (simp add: kb_inv_def keys_inv_def row_inv_def)

lemma reset_parts:
  assumes "keyboard_reset_input_state a = (a', sent)"
  shows "a' = a\<lparr>kb_gaming := (kb_gaming a)\<lparr>gm_g_held := 0, gm_m_held := 0, gm_mr_held := False\<rparr>\<rparr>" "net b sent = 0"
    "kb_inv a' ws \<longleftrightarrow> kb_inv a ws"
proof -
  show a': "a' = a\<lparr>kb_gaming := (kb_gaming a)\<lparr>gm_g_held := 0, gm_m_held := 0, gm_mr_held := False\<rparr>\<rparr>"
    using assms by (simp add: keyboard_reset_input_state_def gaming_interrupt_def)
  show "net b sent = 0"
    using assms by (auto simp: keyboard_reset_input_state_def gaming_interrupt_def split: if_splits)
  show "kb_inv a' ws \<longleftrightarrow> kb_inv a ws"
    unfolding a' by (rule kb_inv_gaming) simp
qed

lemma kd_inv_step:
  assumes "kd_inv w" "keyboard_step w ev = Some w'"
  shows "kd_inv w'"
proof (cases ev)
  case (KdReport msg)
  let ?r = "keyboard_report_handler (kd_armed w) msg"
  have "w' = w\<lparr>kd_armed := fst ?r, kd_sent := kd_sent w @ snd ?r\<rparr>"
    using assms(2) KdReport by (simp add: case_prod_beta)
  moreover have "kb_inv (kd_armed w) (io_writes (kd_io w))"
    using assms(1) by (simp add: kd_inv_def)
  note report_handler_parts [OF this, where msg = msg]
  ultimately show ?thesis
    using assms(1) by (simp add: kd_inv_def)
next
  case (KdRaw bytes)
  let ?g = "grid_report (kb_grid (kd_armed w)) bytes"
  have "w' = w\<lparr>kd_armed := (kd_armed w)\<lparr>kb_grid := fst ?g\<rparr>, kd_sent := kd_sent w @ snd ?g\<rparr>"
    using assms(2) KdRaw by (simp add: raw_report_handler_def case_prod_beta)
  then show ?thesis
    using assms(1) kb_inv_reported(3) grid_report_parts(3) [of _ "kb_grid (kd_armed w)" bytes]
    unfolding kd_inv_def by (simp add: kb_down_def)
next
  case (KdReconnect link)
  obtain a sent where r: "keyboard_reset_input_state (kd_armed w) = (a, sent)"
    by (cases "keyboard_reset_input_state (kd_armed w)")
  obtain ok io where m: "rearm link a (kd_io w) = (ok, io)"
    by (cases "rearm link a (kd_io w)")
  have w': "w' = w\<lparr>kd_armed := a, kd_io := io, kd_sent := kd_sent w @ sent,
      kd_ended := (\<lambda>b. kd_ended w b + (kb_down (kd_armed w) b - kb_down a b))\<rparr>"
    using assms(2) KdReconnect r m by simp
  have "kb_inv a (io_writes io)"
    using rearm_inv [OF m] reset_parts(3) [OF r] assms(1) by (simp add: kd_inv_def)
  then show ?thesis
    using assms(1) reset_parts(2) [OF r] unfolding w' kd_inv_def by simp
next
  case (KdRetarget link wanted)
  obtain x a io where r: "keyboard_retarget link wanted (kd_armed w) (kd_io w) = (x, a, io)"
    by (cases "keyboard_retarget link wanted (kd_armed w) (kd_io w)")
  have ok: "btree_ok (kw_controls wanted)" and w': "w' = w\<lparr>kd_armed := a, kd_io := io,
      kd_ended := (\<lambda>b. kd_ended w b + (kb_down (kd_armed w) b - kb_down a b))\<rparr>"
    using assms(2) KdRetarget r by (auto split: if_splits)
  have "kb_inv a (io_writes io)"
    using keyboard_retarget_inv [OF r _ ok] assms(1) by (simp add: kd_inv_def)
  then show ?thesis
    using assms(1) unfolding w' kd_inv_def by simp
qed

lemma keyboard_start_inv: "(controls = None \<longrightarrow> table = []) \<Longrightarrow> kb_inv (keyboard_start controls table dev) []"
  by (simp add: kb_inv_def keys_inv_def row_inv_def keyboard_start_def diverted_default_def grid_default_def gaming_default_def)

lemma keyboard_start_down: "kb_down (keyboard_start controls table dev) b = 0"
proof -
  have "down_keys diverted_default b = 0" "down_grid grid_default b = 0"
    by (simp_all add: down_keys_def diverted_default_def down_grid_def grid_default_def)
  moreover have "down_gaming gaming_default b = 0"
    by (simp add: down_gaming_def gaming_default_def GKEY_ALL_def MKEYS_def keys_contain_def gkey_bit_def)
  ultimately show ?thesis
    by (simp add: kb_down_def keyboard_start_def)
qed

lemma kd_inv_init: "keyboard_init w \<Longrightarrow> kd_inv w"
  using keyboard_start_inv keyboard_start_down unfolding keyboard_init_def kd_inv_def by auto

interpretation keyboard: invariant_system keyboard_init keyboard_step kd_inv
proof
  show "kd_inv w" if "keyboard_init w" for w
    using that by (rule kd_inv_init)
  show "kd_inv w'" if "kd_inv w" "keyboard_step w ev = Some w'" for w ev w'
    using that by (rule kd_inv_step)
qed

lemma diverted_loop_same:
  "(\<And>cid. cid \<in> fst ` set bs \<Longrightarrow> cid \<in> set cids \<longleftrightarrow> cid \<in> held) \<Longrightarrow> snd (diverted_loop cids bs held) = []"
proof (induction bs)
  case (Cons e bs)
  obtain cid button where e: "e = (cid, button)" by (cases e)
  have "cid \<in> set cids \<longleftrightarrow> cid \<in> held"
    using Cons.prems [of cid] e by simp
  then have "(if cid \<in> set cids then insert cid held else held - {cid}) = held" "key_edge (cid \<in> held) (cid \<in> set cids) button = []"
    by (auto simp: key_edge_def)
  moreover have "snd (diverted_loop cids bs held) = []"
    using Cons.prems by (intro Cons.IH) simp
  ultimately show ?case
    unfolding e by (simp add: Let_def case_prod_beta)
qed simp

section \<open>Properties\<close>

text \<open>C35: A keyboard capture session never loses track of what it took. Over every run of reports,
  reconnects and changes of the wanted keys, with every feature call failing or succeeding as it may, each
  control and the G-key row that the firmware may still hold diverted (written, and not confirmed as handed
  back since) is in the restore the session would owe; once an attempt at that restore reports success,
  nothing is held any more, and a session that owes nothing holds nothing. Only divertable controls that are
  not reserved are ever taken.\<close>

theorem keyboard_hands_back:
  assumes "reach keyboard_init keyboard_step w"
  shows "(into_pending (kd_armed w) = None \<longrightarrow> may_divert (io_writes (kd_io w)) = {} \<and> may_take (io_writes (kd_io w)) = {})
    \<and> (\<forall>plan link linux route dev io'. into_pending (kd_armed w) = Some plan \<longrightarrow>
         restore_on link linux route dev plan (kd_io w) = (True, io') \<longrightarrow>
         may_divert (io_writes io') = {} \<and> may_take (io_writes io') = {})
    \<and> (\<forall>cid \<in> may_divert (io_writes (kd_io w)). can_divert cid (kb_table (kd_armed w)))"
proof -
  have inv: "kb_inv (kd_armed w) (io_writes (kd_io w))"
    using keyboard.reachable_inv [OF assms] by (simp add: kd_inv_def)
  then have "\<forall>cid \<in> may_divert (io_writes (kd_io w)). can_divert cid (kb_table (kd_armed w))"
    unfolding kb_inv_def keys_inv_def by blast
  then show ?thesis
    using nothing_pending [OF inv] restore_on_clears [OF inv] by blast
qed

text \<open>C36: A change of the wanted keys that goes through leaves a session dispatching exactly the wanted
  controls that the keyboard can divert and the wanted grid keys; whether or not it goes through, a reporting
  write is only issued for a control that enters or leaves the set, so a key that stays is never native.\<close>

theorem retarget_follows_wanted:
  assumes "reach keyboard_init keyboard_step w" "btree_ok (kw_controls wanted)"
    and "keyboard_retarget link wanted (kd_armed w) (kd_io w) = (r, a', io')"
  shows "(r = Inr () \<longrightarrow> dk_buttons (kb_keys a') = divert_target (kw_controls wanted) (kb_table (kd_armed w)))
    \<and> gd_buttons (kb_grid a') = kw_grid wanted
    \<and> (\<exists>ws. io_writes io' = io_writes (kd_io w) @ ws \<and> (\<forall>wr \<in> set ws. \<forall>cid. written_cid wr = Some cid \<longrightarrow>
          (cid \<in> fst ` set (dk_buttons (kb_keys (kd_armed w)))) \<noteq> (cid \<in> fst ` set (kw_controls wanted))))"
proof -
  have "kb_inv (kd_armed w) (io_writes (kd_io w))"
    using keyboard.reachable_inv [OF assms(1)] by (simp add: kd_inv_def)
  from keyboard_retarget_inv [OF assms(3) this assms(2)] show ?thesis
    by blast
qed


text \<open>A reconnect of the keyboard forgets the held keys of the gaming cluster, with \<open>Interrupted\<close> when one
  was held or the row is taken, but keeps the diverted and grid keys that were down as held: a report that
  they are pressed again sends no press.\<close>

theorem reconnect_keeps_diverted_keys:
  assumes "keyboard_reset_input_state a = (a', sent)"
  shows "sent = (if gm_g_held (kb_gaming a) \<noteq> 0 \<or> gm_m_held (kb_gaming a) \<noteq> 0 \<or> gm_mr_held (kb_gaming a) \<or> gm_g_row (kb_gaming a)
       then [Interrupted] else [])
    \<and> down_gaming (kb_gaming a') b = 0 \<and> kb_keys a' = kb_keys a \<and> kb_grid a' = kb_grid a
    \<and> (\<forall>cids. set cids \<inter> fst ` set (dk_buttons (kb_keys a)) = dk_held (kb_keys a) \<longrightarrow> snd (diverted_report (kb_keys a') cids) = [])"
proof -
  have a': "a' = a\<lparr>kb_gaming := (kb_gaming a)\<lparr>gm_g_held := 0, gm_m_held := 0, gm_mr_held := False\<rparr>\<rparr>"
    by (rule reset_parts(1) [OF assms])
  have "down_gaming ((kb_gaming a)\<lparr>gm_g_held := 0, gm_m_held := 0, gm_mr_held := False\<rparr>) b = 0"
    by (simp add: down_gaming_def GKEY_ALL_def MKEYS_def keys_contain_def gkey_bit_def)
  moreover have "snd (diverted_report (kb_keys a) cids) = []"
    if "set cids \<inter> fst ` set (dk_buttons (kb_keys a)) = dk_held (kb_keys a)" for cids
    using diverted_loop_same [of "dk_buttons (kb_keys a)" cids "dk_held (kb_keys a)"] that
    by (auto simp: diverted_report_def case_prod_beta)
  moreover have "sent = (if gm_g_held (kb_gaming a) \<noteq> 0 \<or> gm_m_held (kb_gaming a) \<noteq> 0 \<or> gm_mr_held (kb_gaming a) \<or> gm_g_row (kb_gaming a)
       then [Interrupted] else [])"
    using assms by (simp add: keyboard_reset_input_state_def gaming_interrupt_def)
  ultimately show ?thesis
    unfolding a' by simp
qed

section \<open>Examples\<close>

text \<open>A keyboard that answers every request with zeros, with one divertable key and the host switches.\<close>

definition answering_link :: link where
  "answering_link k ab wt msg accepts = Inr (v20_into (V20_Long (v20_header_of (v20_from msg)) (replicate 16 0)))"

definition k860 :: KeyboardWorld where
  "k860 = \<lparr>kd_armed = keyboard_start (Some 9) [\<lparr>ct_cid = 0xC7, ct_task_id = 0, ct_flags = 0x20\<rparr>, \<lparr>ct_cid = 0xD1, ct_task_id = 0, ct_flags = 0x20\<rparr>] 1,
     kd_io = \<lparr>io_link = \<lparr>sw_policy = Fixed (RequestSwId (from_lo 1)), calls = 0\<rparr>, io_writes = []\<rparr>, kd_sent = [], kd_ended = (\<lambda>_. 0)\<rparr>"

definition k860_wanted :: KeyboardWanted where
  "k860_wanted = \<lparr>kw_controls = [(0xC7, Control 0xC7), (0xD1, Control 0xD1)], kw_grid = [], kw_gaming = gaming_wanted_default\<rparr>"

definition k860_events :: "KeyboardEvent list" where
  "k860_events = [KdRetarget answering_link k860_wanted,
     KdReport (V20_Long \<lparr>device_index = 1, feature_index = 9, function_id = from_lo 0, software_id = from_lo 0\<rparr> (0 # 0xC7 # replicate 14 0))]"

definition k860_armed :: KeyboardWorld where
  "k860_armed = the (run keyboard_step k860 k860_events)"

lemma k860_reach: "reach keyboard_init keyboard_step k860_armed"
proof -
  have "reach keyboard_init keyboard_step k860"
    by (rule reach_init) (auto simp: keyboard_init_def k860_def)
  moreover have "run keyboard_step k860 k860_events = Some k860_armed"
    unfolding k860_armed_def by (rule some_the) code_simp
  ultimately show ?thesis
    by (rule reach_run)
qed

theorem keyboard_hands_back_witness:
  "0xC7 \<in> may_divert (io_writes (kd_io k860_armed)) \<and> can_divert 0xC7 (kb_table (kd_armed k860_armed))
   \<and> may_divert (io_writes (snd (restore_on answering_link False (RouteDirect 0 0) 1
        (the (into_pending (kd_armed k860_armed))) (kd_io k860_armed)))) = {}"
proof -
  let ?plan = "the (into_pending (kd_armed k860_armed))"
  let ?r = "restore_on answering_link False (RouteDirect 0 0) 1 ?plan (kd_io k860_armed)"
  have taken: "0xC7 \<in> may_divert (io_writes (kd_io k860_armed))"
    by code_simp
  have "\<not> Option.is_none (into_pending (kd_armed k860_armed))" "fst ?r"
    by code_simp+
  then have "into_pending (kd_armed k860_armed) = Some ?plan" "?r = (True, snd ?r)"
    by (simp_all add: some_the prod_eq_iff)
  then show ?thesis
    using keyboard_hands_back [OF k860_reach] taken by blast
qed

definition nothing_wanted :: KeyboardWanted where
  "nothing_wanted = \<lparr>kw_controls = [], kw_grid = [], kw_gaming = gaming_wanted_default\<rparr>"

theorem retarget_follows_wanted_witness:
  "\<exists>a' io'. keyboard_retarget answering_link nothing_wanted (kd_armed k860_armed) (kd_io k860_armed) = (Inr (), a', io')
     \<and> dk_buttons (kb_keys (kd_armed k860_armed)) = [(0xC7, Control 0xC7)] \<and> dk_buttons (kb_keys a') = []"
proof -
  obtain r a' io' where r: "keyboard_retarget answering_link nothing_wanted (kd_armed k860_armed) (kd_io k860_armed) = (r, a', io')"
    by (cases "keyboard_retarget answering_link nothing_wanted (kd_armed k860_armed) (kd_io k860_armed)")
  have "fst (keyboard_retarget answering_link nothing_wanted (kd_armed k860_armed) (kd_io k860_armed)) = Inr ()"
      "dk_buttons (kb_keys (kd_armed k860_armed)) = [(0xC7, Control 0xC7)]"
    by code_simp+
  moreover have "btree_ok (kw_controls nothing_wanted)"
    by (simp add: nothing_wanted_def)
  ultimately show ?thesis
    using retarget_follows_wanted [OF k860_reach _ r] r by (simp add: nothing_wanted_def divert_target_def)
qed


theorem reconnect_keeps_diverted_keys_witness:
  "snd (diverted_report (kb_keys (fst (keyboard_reset_input_state (kd_armed k860_armed)))) [0xC7, 0, 0, 0]) = []
   \<and> snd (keyboard_reset_input_state (kd_armed k860_armed)) = []"
proof -
  have "set [0xC7, 0, 0, 0] \<inter> fst ` set (dk_buttons (kb_keys (kd_armed k860_armed))) = dk_held (kb_keys (kd_armed k860_armed))"
    by code_simp
  moreover have "snd (keyboard_reset_input_state (kd_armed k860_armed)) = []"
    by code_simp
  ultimately show ?thesis
    using reconnect_keeps_diverted_keys [OF prod.collapse [symmetric], of "kd_armed k860_armed"] by blast
qed

end
