(* ===== verification/Spec2Isabelle.thy ===== *)
theory Spec2Isabelle
  imports Hidpp_Feature_Properties Button_Debounce Write_Order Flow_Handoff Flow_Pairing Inventory_Ledger Inventory_Schedule Keyboard_Session
begin

text \<open>
  OpenLogi is a native host application for Logitech mice and keyboards. An agent process opens the
  devices over HID, speaks HID++1.0 and HID++2.0 to them, applies the user's configuration, hooks
  the pointer buttons, and, with \<^emph>\<open>Flow\<close>, hands devices over between computers on a network. This
  development models the core of it as executable functions and proves what the parts promise each
  other. All paths below are under \<^verbatim>\<open>src/crates/\<close>.

  \<^bold>\<open>How the parts interact.\<close> A HID backend reads and writes raw reports. A \<^emph>\<open>channel\<close>
  (\<^verbatim>\<open>openlogi-hidpp/src/channel.rs\<close>) frames them, gives each request a software id, keeps a queue of
  requests that wait for a reply and routes every incoming report to the request whose predicate
  accepts it; what no request accepts goes to listeners. HID++1.0 registers and HID++2.0 feature
  calls are requests on a channel; a \<^emph>\<open>device\<close> probes its protocol version, reads its feature table
  and installs the implementations the registry knows. Above, the agent orders the writes of
  settings to a device. Flow reads its section of the configuration, keeps a link per peer
  (frames, negotiation, pairing), tells peers which devices it has, and runs handoff transactions
  that move a device's host slot.

  \<^bold>\<open>Theories and sources.\<close>
  \<^item> \<^verbatim>\<open>Prelude\<close>, \<^verbatim>\<open>Bytes\<close>, \<^verbatim>\<open>Utf8\<close>, \<^verbatim>\<open>Rust_Text\<close>, \<^verbatim>\<open>Rust_Btree\<close>: the Rust machine integers, slices,
    iterators, string operations, number printing and parsing, UTF-8 and ordered maps the sources use.
  \<^item> \<^verbatim>\<open>Codec\<close>: the locale \<open>codec\<close> of a wire format (encoder, partial decoder, both round trips) and
    what follows for its clients; interpreted for the HID++ reports, both message versions, the
    Flow public keys and the device identifiers. \<^verbatim>\<open>Event_System\<close>: reachability and runs of event-driven
    state machines and the locale \<open>invariant_system\<close>; interpreted for every state machine below.
  \<^item> \<^verbatim>\<open>Hidpp_Message\<close> (\<^verbatim>\<open>openlogi-hidpp/src/nibble.rs\<close>, \<^verbatim>\<open>channel/message.rs\<close>), \<^verbatim>\<open>Hidpp_V20\<close>
    (\<^verbatim>\<open>protocol/v20.rs\<close>), \<^verbatim>\<open>Hidpp_V10\<close> (\<^verbatim>\<open>protocol/v10.rs\<close>): reports and messages as records and datatypes.
  \<^item> \<^verbatim>\<open>Hidpp_Pending\<close> (\<^verbatim>\<open>channel/pending.rs\<close>): the queue as a record, one function per operation and the
    wakers it returns. \<^verbatim>\<open>Hidpp_Channel\<close> (\<^verbatim>\<open>channel.rs\<close>, \<^verbatim>\<open>channel/observation.rs\<close>): the software-id
    policies and the channel as a state machine whose events are the steps of callers, the read
    thread and the timers in any interleaving. \<^verbatim>\<open>Hidpp_Channel_Inv\<close>: its invariants. \<^verbatim>\<open>Hidpp_Send\<close>: one
    \<open>send\<close> as its caller sees it, over any schedule of the other events.
  \<^item> \<^verbatim>\<open>Hidpp_Feature\<close> (\<^verbatim>\<open>protocol.rs\<close>, \<^verbatim>\<open>feature.rs\<close>, \<^verbatim>\<open>feature/root.rs\<close>, \<^verbatim>\<open>feature/feature_set.rs\<close>),
    \<^verbatim>\<open>Hidpp_Device\<close> (\<^verbatim>\<open>device.rs\<close>, \<^verbatim>\<open>feature/registry.rs\<close>): feature calls, version probe, event filter,
    feature table. \<^verbatim>\<open>Hidpp_Properties\<close> and \<^verbatim>\<open>Hidpp_Feature_Properties\<close> hold the theorems.
  \<^item> \<^verbatim>\<open>Button_Debounce\<close> (\<^verbatim>\<open>openlogi-hook/src/linux/button_debounce.rs\<close>): the debouncing state machine.
  \<^item> \<^verbatim>\<open>Swipe\<close> (\<^verbatim>\<open>openlogi-core/src/binding/swipe.rs\<close>), \<^verbatim>\<open>Gesture_Capture\<close>
    (\<^verbatim>\<open>openlogi-device/src/session/gesture/accum.rs\<close>, parts of \<^verbatim>\<open>session/gesture.rs\<close> and \<^verbatim>\<open>thumbwheel.rs\<close>):
    travel to swipes, and reports of diverted controls to button edges, swipes and clicks.
  \<^item> \<^verbatim>\<open>Capture_Session\<close> (the rest of \<^verbatim>\<open>session/gesture.rs\<close>'s report handling, \<^verbatim>\<open>session/gesture/spy.rs\<close> and
    \<^verbatim>\<open>session/gesture/main_wheel.rs\<close>, and the event decoders of \<^verbatim>\<open>openlogi-hidpp/src/feature\<close>): a capture
    session from the messages on the wire to the inputs it sends, with its reset at a reconnect.
  \<^item> \<^verbatim>\<open>Reprog_Controls\<close> (\<^verbatim>\<open>openlogi-hidpp/src/feature/reprog_controls.rs\<close>, \<^verbatim>\<open>openlogi-device/src/reprog_controls.rs\<close>,
    parts of \<^verbatim>\<open>session/capture_restore.rs\<close>): the control table, reporting changes and their payloads, taking a
    control and handing it back. \<^verbatim>\<open>Keyboard_Session\<close> (\<^verbatim>\<open>session/keyboard.rs\<close>, \<^verbatim>\<open>keypad_vendor.rs\<close>): the keys of a
    keyboard, their edges, and the firmware writes of a session while calls fail.
  \<^item> \<^verbatim>\<open>Write_Order\<close> (\<^verbatim>\<open>openlogi-agent-core/src/hardware/write_order.rs\<close>): turns, intents and recovery.
  \<^item> \<^verbatim>\<open>Inventory_Ledger\<close> (\<^verbatim>\<open>openlogi-device/src/inventory/ledger.rs\<close>), \<^verbatim>\<open>Inventory_Schedule\<close>
    (\<^verbatim>\<open>openlogi-agent-core/src/watchers/inventory/schedule.rs\<close>): what an unresponsive node publishes and
    when its channel is dropped; when the devices are looked at again.
  \<^item> \<^verbatim>\<open>Device_Key\<close> (\<^verbatim>\<open>openlogi-core/src/device_order.rs\<close>, \<^verbatim>\<open>hid/route.rs\<close>, \<^verbatim>\<open>config/identity.rs\<close>): stable
    identities, the keys they are stored under, and reading those back.
  \<^item> \<^verbatim>\<open>Flow_Frame\<close>, \<^verbatim>\<open>Flow_Negotiation\<close>, \<^verbatim>\<open>Flow_Identity\<close>, \<^verbatim>\<open>Flow_Pairing\<close> (\<^verbatim>\<open>openlogi-flow/src/frame.rs\<close>,
    \<^verbatim>\<open>negotiation.rs\<close>, \<^verbatim>\<open>identity.rs\<close>, \<^verbatim>\<open>pairing.rs\<close> and \<^verbatim>\<open>sas.rs\<close>): the peer protocol.
  \<^item> \<^verbatim>\<open>Flow_Config\<close> (\<^verbatim>\<open>openlogi-core/src/config/flow.rs\<close>), \<^verbatim>\<open>Flow_Devices\<close> and \<^verbatim>\<open>Flow_Handoff\<close>
    (\<^verbatim>\<open>openlogi-agent-core/src/flow/devices.rs\<close>, \<^verbatim>\<open>flow/handoff.rs\<close>): configuration, the devices that can
    move, and the handoff ledger of the receiver with the schedule of the sender.

  \<^bold>\<open>What is shown.\<close> Framing: the HID++ and Flow encodings are exact inverses on well-formed values.
  Channel: a reply reaches only a request whose predicate accepts it, never one that came after
  the request it answers was abandoned; headers in flight are distinct; parked requests are woken
  and holds end; every request has one outcome. Features: a call returns its own answer, the probe
  decides on evidence, software ids are owned, the table is installed as read. Debouncer: no double
  press or release, and everything held is delivered. Gestures: presses and releases
  balance, a swipe belongs to the one held source, a hold is a click or swipes, and the arithmetic
  fits its types, and both capture sessions account for every press from the wire on. Whatever calls
  fail, a keyboard session owes everything the firmware may still hold, and a control is handed back as it
  was found. Write order: first come, first served, and
  only the newest intent is accepted. Inventory: reports follow the history of the node, and a
  settings confirmation is neither lost nor starved. Keys: injective and read back. Flow: both ends negotiate the
  same link; trust takes both users and an opened commitment, honest peers pair and every ceremony
  ends; stored configuration is well formed; offered devices can move; handoff results are truthful,
  replayed to retransmissions, and the sender's writes fall within the receiver's window.

  \<^bold>\<open>Modelling choices.\<close> Machine integers are words of their width; where code uses checked or
  saturating arithmetic it is written out. Errors are values of the source's error types. Instants
  and durations are natural numbers in the unit the theory names. Concurrency is an explicit
  interleaving of atomic steps, each as large as a critical section of the source; the claims hold
  for every interleaving. No function needs fuel: loops recurse on their data, and the retry loop
  of the feature table on its number of attempts. Third-party code is a parameter: the HID backend
  is the schedule of events, the registry of implementations a table, SHA-256 and HKDF the record
  \<open>crypto\<close> of which only the digest length is used, the random generator and the key store inputs.

  \<^bold>\<open>Not modelled.\<close> Operating-system glue (hooks, injection, HID access, tray, permissions, cameras),
  user interfaces, the IPC contract, QUIC and mDNS transport, asset download and build tools are
  I/O or generated. The other feature codecs, the receivers' registers and the device inventory are
  field decoders and drivers over the modelled calls. Of the capture sessions, opening the device,
  arming a mouse and the channel lifecycle are left out; a change of a keyboard's wanted keys is one
  step although reports may arrive while its calls wait. The orchestrator and the watchers wire
  threads together. Edge detection of Flow computes with floating-point coordinates, which this
  development does not model.
\<close>

end
